(* ===== verification/Prelude.thy ===== *)
theory Prelude
  imports Main "HOL-Library.Word"
begin

text \<open>
  Shared vocabulary of the development: the result type of a C++ or Java computation (a value, a
  thrown exception, undefined behaviour, or a call that never returns), its sequencing and
  exception-handling combinators, decimal printing, and the generic lemmas on lists and
  results that the component theories use.
\<close>

named_theorems prog_defs \<open>definitions of the sequencing combinators\<close>
named_theorems yields_rules \<open>what a computation yields follows from what its parts yield\<close>
named_theorems keeps_rules \<open>what a computation keeps follows from what its parts keep\<close>

section \<open>Results of computations\<close>

text \<open>
  A value, a thrown exception of type \<open>'e\<close>, or: \<open>UB\<close>, the execution reached undefined
  behaviour (in C++, a null dereference or an access outside an array or the caller's buffer);
  \<open>Hang\<close>, the call never returns.
\<close>

datatype ('e, 'a) outcome = Val 'a | Exc 'e | UB | Hang

type_synonym ('s, 'e, 'a) prog = "'s \<Rightarrow> ('e, 'a) outcome \<times> 's"

definition ret :: "'a \<Rightarrow> ('s, 'e, 'a) prog" where
  [prog_defs]: "ret x = (\<lambda>s. (Val x, s))"

definition throw :: "'e \<Rightarrow> ('s, 'e, 'a) prog" where
  [prog_defs]: "throw e = (\<lambda>s. (Exc e, s))"

definition undefined_behaviour :: "('s, 'e, 'a) prog" where
  [prog_defs]: "undefined_behaviour = (\<lambda>s. (UB, s))"

definition modify :: "('s \<Rightarrow> 's) \<Rightarrow> ('s, 'e, unit) prog" where
  [prog_defs]: "modify f = (\<lambda>s. (Val (), f s))"

definition bind :: "('s, 'e, 'a) prog \<Rightarrow> ('a \<Rightarrow> ('s, 'e, 'b) prog) \<Rightarrow> ('s, 'e, 'b) prog" where
  "bind m f = (\<lambda>s. case m s of
     (Val x, t) \<Rightarrow> f x t
   | (Exc e, t) \<Rightarrow> (Exc e, t)
   | (UB, t) \<Rightarrow> (UB, t)
   | (Hang, t) \<Rightarrow> (Hang, t))"

text \<open>
  \<open>try { m } catch ...\<close>: the handler sees the exception and rethrows what its clauses do
  not match.
\<close>

definition try_catch :: "('s, 'e, 'a) prog \<Rightarrow> ('e \<Rightarrow> ('s, 'e, 'a) prog) \<Rightarrow> ('s, 'e, 'a) prog" where
  "try_catch m h = (\<lambda>s. case m s of
     (Val x, t) \<Rightarrow> (Val x, t)
   | (Exc e, t) \<Rightarrow> h e t
   | (UB, t) \<Rightarrow> (UB, t)
   | (Hang, t) \<Rightarrow> (Hang, t))"

lemma bind_cases [simp]:
  "m s = (Val x, t) \<Longrightarrow> bind m f s = f x t"
  "m s = (Exc e, t) \<Longrightarrow> bind m f s = (Exc e, t)"
  "m s = (UB, t) \<Longrightarrow> bind m f s = (UB, t)"
  "m s = (Hang, t) \<Longrightarrow> bind m f s = (Hang, t)"
  by (simp_all add: bind_def)

lemma try_catch_cases [simp]:
  "m s = (Val x, t) \<Longrightarrow> try_catch m h s = (Val x, t)"
  "m s = (Exc e, t) \<Longrightarrow> try_catch m h s = h e t"
  "m s = (UB, t) \<Longrightarrow> try_catch m h s = (UB, t)"
  "m s = (Hang, t) \<Longrightarrow> try_catch m h s = (Hang, t)"
  by (simp_all add: try_catch_def)

lemma prog_eqs [simp]:
  "ret x s = (Val x, s)"
  "throw e s = (Exc e, s)"
  "undefined_behaviour s = (UB, s)"
  "modify g s = (Val (), g s)"
  by (simp_all add: prog_defs)

lemma bind_assoc: "bind (bind m f) g = bind m (\<lambda>x. bind (f x) g)"
  by (auto simp: bind_def fun_eq_iff split: prod.splits outcome.splits)

lemma bind_Val_iff:
  "bind m f s = (Val y, t) \<longleftrightarrow> (\<exists>x u. m s = (Val x, u) \<and> f x u = (Val y, t))"
  by (auto simp: bind_def split: prod.splits outcome.splits)

lemma try_catch_Val_iff:
  "try_catch m h s = (Val y, t) \<longleftrightarrow>
     m s = (Val y, t) \<or> (\<exists>e u. m s = (Exc e, u) \<and> h e u = (Val y, t))"
  by (auto simp: try_catch_def split: prod.splits outcome.splits)

text \<open>
  A relation between the states before and after that is reflexive and transitive and that
  every part of a computation keeps is kept by the whole, however it ends.
\<close>

definition keeps :: "('s \<Rightarrow> 's \<Rightarrow> bool) \<Rightarrow> ('s, 'e, 'a) prog \<Rightarrow> bool" where
  "keeps R m \<longleftrightarrow> (\<forall>s. R s (snd (m s)))"

lemma keepsI: "(\<And>s. R s (snd (m s))) \<Longrightarrow> keeps R m"
  by (simp add: keeps_def)

lemma keepsD: "keeps R m \<Longrightarrow> m s = (r, t) \<Longrightarrow> R s t"
  unfolding keeps_def by (metis snd_conv)

lemma keeps_pure [keeps_rules]:
  assumes "reflp R"
  shows "keeps R (ret x)" "keeps R (throw e)" "keeps R undefined_behaviour"
  using assms by (simp_all add: keeps_def reflp_def)

lemma keeps_modify [keeps_rules]: "(\<And>s. R s (g s)) \<Longrightarrow> keeps R (modify g)"
  by (simp add: keeps_def)

lemma keeps_bind [keeps_rules]:
  assumes "transp R" "keeps R m" "\<And>x. keeps R (f x)"
  shows "keeps R (bind m f)"
proof (rule keepsI)
  fix s
  obtain r u where m: "m s = (r, u)" by fastforce
  then have "R s u" using assms(2) by (rule keepsD [rotated])
  moreover have "R u (snd (f x u))" for x
    using assms(3) by (simp add: keeps_def)
  ultimately show "R s (snd (bind m f s))"
    using m assms(1) by (cases r) (auto dest: transpD)
qed

lemma keeps_try_catch [keeps_rules]:
  assumes "transp R" "keeps R m" "\<And>e. keeps R (h e)"
  shows "keeps R (try_catch m h)"
proof (rule keepsI)
  fix s
  obtain r u where m: "m s = (r, u)" by fastforce
  then have "R s u" using assms(2) by (rule keepsD [rotated])
  moreover have "R u (snd (h e u))" for e
    using assms(3) by (simp add: keeps_def)
  ultimately show "R s (snd (try_catch m h s))"
    using m assms(1) by (cases r) (auto dest: transpD)
qed

lemma keeps_if [keeps_rules]:
  "(b \<Longrightarrow> keeps R m) \<Longrightarrow> (\<not> b \<Longrightarrow> keeps R n) \<Longrightarrow> keeps R (if b then m else n)"
  by simp

lemma keeps_let [keeps_rules]: "(\<And>x. x = e \<Longrightarrow> keeps R (f x)) \<Longrightarrow> keeps R (let x = e in f x)"
  by (simp add: Let_def)

lemma keeps_option [keeps_rules]:
  "(x = None \<Longrightarrow> keeps R m) \<Longrightarrow> (\<And>y. x = Some y \<Longrightarrow> keeps R (f y)) \<Longrightarrow>
     keeps R (case x of None \<Rightarrow> m | Some y \<Rightarrow> f y)"
  by (cases x) simp_all

lemma keeps_prod [keeps_rules]: "(\<And>a b. x = (a, b) \<Longrightarrow> keeps R (f a b)) \<Longrightarrow> keeps R (case x of (a, b) \<Rightarrow> f a b)"
  by (cases x) simp

lemma keeps_state: "(\<And>s. R s (snd (f s s))) \<Longrightarrow> keeps R (\<lambda>s. f s s)"
  by (simp add: keeps_def)

text \<open>
  A computation that keeps an invariant, however it ends, that ends with an exception or a value, and whose value
  satisfies a condition.
\<close>

definition yields :: "('s \<Rightarrow> bool) \<Rightarrow> ('s, 'e, 'a) prog \<Rightarrow> ('a \<Rightarrow> bool) \<Rightarrow> bool" where
  "yields I m Q \<longleftrightarrow> (\<forall>s. I s \<longrightarrow> I (snd (m s)) \<and> (case fst (m s) of Val x \<Rightarrow> Q x | Exc e \<Rightarrow> True | _ \<Rightarrow> False))"

lemma yieldsD: "yields I m Q \<Longrightarrow> I s \<Longrightarrow> m s = (r, t) \<Longrightarrow> I t \<and> (case r of Val x \<Rightarrow> Q x | Exc e \<Rightarrow> True | _ \<Rightarrow> False)"
  unfolding yields_def by (metis fst_conv snd_conv)

lemma yields_pure [yields_rules]:
  "Q x \<Longrightarrow> yields I (ret x) Q" "yields I (throw e) Q"
  by (simp_all add: yields_def)

lemma yields_modify [yields_rules]: "(\<And>s. I s \<Longrightarrow> I (g s)) \<Longrightarrow> yields I (modify g) (\<lambda>_. True)"
  by (simp add: yields_def)

lemma yields_if [yields_rules]: "(b \<Longrightarrow> yields I m Q) \<Longrightarrow> (\<not> b \<Longrightarrow> yields I n Q) \<Longrightarrow> yields I (if b then m else n) Q"
  by simp

lemma yields_bind:
  assumes "yields I m P" and "\<And>x. P x \<Longrightarrow> yields I (f x) Q"
  shows "yields I (bind m f) Q"
  unfolding yields_def
proof (intro allI impI)
  fix s assume "I s"
  obtain r t where m: "m s = (r, t)" by fastforce
  then have "I t" "case r of Val x \<Rightarrow> P x | Exc e \<Rightarrow> True | _ \<Rightarrow> False" using yieldsD [OF assms(1) \<open>I s\<close>] by blast+
  then show "I (snd (bind m f s)) \<and> (case fst (bind m f s) of Val x \<Rightarrow> Q x | Exc e \<Rightarrow> True | _ \<Rightarrow> False)"
    using m assms(2) by (cases r) (auto simp: yields_def)
qed

lemma yields_try_catch:
  assumes "yields I m Q" and "\<And>e. yields I (h e) Q"
  shows "yields I (try_catch m h) Q"
  unfolding yields_def
proof (intro allI impI)
  fix s assume "I s"
  obtain r t where m: "m s = (r, t)" by fastforce
  then have "I t" "case r of Val x \<Rightarrow> Q x | Exc e \<Rightarrow> True | _ \<Rightarrow> False" using yieldsD [OF assms(1) \<open>I s\<close>] by blast+
  then show "I (snd (try_catch m h s)) \<and> (case fst (try_catch m h s) of Val x \<Rightarrow> Q x | Exc e \<Rightarrow> True | _ \<Rightarrow> False)"
    using m assms(2) by (cases r) (auto simp: yields_def)
qed

section \<open>Arrays\<close>

text \<open>An array slot holds a value once it is initialised; \<open>None\<close> is out of range or uninitialised.\<close>

definition slot :: "'a option list \<Rightarrow> nat \<Rightarrow> 'a option" where
  "slot xs i = (if i < length xs then xs ! i else None)"

lemma slot_update [simp]:
  "slot (xs[i := Some v]) j = (if i = j \<and> i < length xs then Some v else slot xs j)"
  by (simp add: slot_def)

lemma slot_map_Some [simp]: "slot (map Some xs) i = (if i < length xs then Some (xs ! i) else None)"
  by (simp add: slot_def)

section \<open>Decimal printing\<close>

text \<open>\<open>std::to_string\<close> on a non-negative integer.\<close>

definition digit_char :: "nat \<Rightarrow> char" where
  "digit_char d = char_of (48 + d)"

fun to_string :: "nat \<Rightarrow> string" where
  "to_string n = (if n < 10 then [digit_char n] else to_string (n div 10) @ [digit_char (n mod 10)])"

declare to_string.simps [simp del]

text \<open>Reading decimal digits.\<close>

definition digit_value :: "char \<Rightarrow> nat option" where
  "digit_value c = (if 48 \<le> (of_char c :: nat) \<and> (of_char c :: nat) \<le> 57 then Some (of_char c - 48) else None)"

fun parse_digits :: "nat \<Rightarrow> string \<Rightarrow> nat option" where
  "parse_digits n [] = Some n"
| "parse_digits n (c # cs) =
     (case digit_value c of None \<Rightarrow> None | Some d \<Rightarrow> parse_digits (10 * n + d) cs)"

lemma digit_value_digit_char: "d < 10 \<Longrightarrow> digit_value (digit_char d) = Some d"
  by (simp add: digit_value_def digit_char_def)

lemma parse_digits_append:
  "parse_digits n (s @ t) = (case parse_digits n s of None \<Rightarrow> None | Some m \<Rightarrow> parse_digits m t)"
  by (induction s arbitrary: n) (auto split: option.splits)

lemma parse_to_string: "parse_digits 0 (to_string n) = Some n"
proof (induction n rule: to_string.induct)
  case (1 n)
  show ?case
  proof (cases "n < 10")
    case True
    then show ?thesis by (simp add: to_string.simps [of n] digit_value_digit_char)
  next
    case False
    with 1 show ?thesis
      by (simp add: to_string.simps [of n] parse_digits_append digit_value_digit_char)
  qed
qed

section \<open>Invariants of transition systems\<close>

text \<open>
  The contract between a transition system and an invariant: it holds in the initial states
  and every step keeps it; then it holds in every reachable state.
\<close>

locale invariant_system =
  fixes init :: "'s \<Rightarrow> bool" and step :: "'s \<Rightarrow> 's \<Rightarrow> bool" and inv :: "'s \<Rightarrow> bool"
  assumes inv_init: "init s \<Longrightarrow> inv s"
    and inv_step: "inv s \<Longrightarrow> step s t \<Longrightarrow> inv t"
begin

lemma inv_steps:
  assumes "step\<^sup>*\<^sup>* s t" and "inv s"
  shows "inv t"
  using assms by (induction rule: rtranclp_induct) (auto intro: inv_step)

lemma inv_reachable:
  assumes "init s" and "step\<^sup>*\<^sup>* s t"
  shows "inv t"
  using assms(2) inv_init [OF assms(1)] by (rule inv_steps)

end

end
