(* ===== verification/Cpp_Strings.thy ===== *)
theory Cpp_Strings
  imports Prelude
begin

text \<open>
  The exceptions of the C++ client and the parts of the C and C++ string library that the client uses: \<open>char *\<close> arguments in the
  caller's memory, the conversion of a C string to \<open>std::string\<close>, \<open>std::string::copy\<close> into a
  caller's buffer, and \<open>std::getline\<close> with a delimiter on a string stream.
\<close>

section \<open>Exceptions\<close>

text \<open>
  The exceptions the client code distinguishes: \<open>Runtime_Error\<close> is the one it throws itself,
  \<open>Leader_Redirect\<close> stands for \<open>LeaderRedirectException\<close> with its \<open>new_leader_address\<close>,
  \<open>Std_Exception\<close> for any other class derived from \<open>std::exception\<close>, and
  \<open>Foreign_Exception\<close> for a thrown object that is not derived from it.
\<close>

datatype exn =
    Runtime_Error string
  | Leader_Redirect string
  | Std_Exception string
  | Foreign_Exception

section \<open>The caller's memory\<close>

text \<open>
  Addresses are numbers below \<open>2 ^ 64\<close>, 0 is \<open>NULL\<close>, and the memory maps the addresses the
  program may access to the byte stored there.
\<close>

type_synonym addr = nat
type_synonym memory = "addr \<rightharpoonup> char"

abbreviation (input) NULL :: addr where "NULL \<equiv> 0"
abbreviation NUL :: char where "NUL \<equiv> CHR 0x00"
abbreviation (input) addr_limit :: nat where "addr_limit \<equiv> 2 ^ 64"

text \<open>
  The bytes from an address up to the terminating NUL; \<open>None\<close> when the scan leaves the
  accessible memory before it finds one.
\<close>

function c_string :: "memory \<Rightarrow> addr \<Rightarrow> string option" where
  "c_string m p =
     (if addr_limit \<le> p then None
      else case m p of
        None \<Rightarrow> None
      | Some c \<Rightarrow> if c = NUL then Some [] else map_option ((#) c) (c_string m (Suc p)))"
  by pat_completeness auto
termination
  by (relation "measure (\<lambda>(m, p). addr_limit - p)") auto

declare c_string.simps [simp del]

text \<open>\<open>std::string s(p)\<close>: constructing from a null pointer is undefined, like any bad read.\<close>

definition std_string :: "memory \<Rightarrow> addr \<Rightarrow> string option" where
  "std_string m p = (if p = NULL then None else c_string m p)"

text \<open>Storing consecutive bytes; \<open>None\<close> when one of the addresses is not accessible.\<close>

fun write_bytes :: "memory \<Rightarrow> addr \<Rightarrow> string \<Rightarrow> memory option" where
  "write_bytes m p [] = Some m"
| "write_bytes m p (c # cs) = (if m p = None then None else write_bytes (m(p \<mapsto> c)) (Suc p) cs)"

definition accessible :: "memory \<Rightarrow> addr \<Rightarrow> nat \<Rightarrow> bool" where
  "accessible m p n \<longleftrightarrow> (\<forall>i < n. m (p + i) \<noteq> None)"

lemma accessible_Suc:
  "accessible m p (Suc n) \<longleftrightarrow> m p \<noteq> None \<and> accessible m (Suc p) n"
  unfolding accessible_def by (auto simp: less_Suc_eq_0_disj)

lemma accessible_upd: "accessible m p n \<Longrightarrow> accessible (m(q \<mapsto> c)) p n"
  by (simp add: accessible_def)

lemma accessible_mono: "accessible m p n \<Longrightarrow> k \<le> n \<Longrightarrow> accessible m p k"
  by (auto simp: accessible_def)

lemma write_bytes_defined: "accessible m p (length cs) \<longleftrightarrow> write_bytes m p cs \<noteq> None"
proof (induction cs arbitrary: m p)
  case Nil
  then show ?case by (simp add: accessible_def)
next
  case (Cons c cs)
  show ?case
  proof (cases "m p")
    case None
    then show ?thesis by (simp add: accessible_Suc)
  next
    case (Some d)
    have "accessible m (Suc p) (length cs) \<longleftrightarrow> accessible (m(p \<mapsto> c)) (Suc p) (length cs)"
      by (simp add: accessible_def)
    also have "\<dots> \<longleftrightarrow> write_bytes (m(p \<mapsto> c)) (Suc p) cs \<noteq> None"
      by (rule Cons.IH)
    finally show ?thesis using Some by (simp add: accessible_Suc)
  qed
qed

lemma write_bytes_lookup:
  "write_bytes m p cs = Some m' \<Longrightarrow>
     m' q = (if p \<le> q \<and> q < p + length cs then Some (cs ! (q - p)) else m q)"
proof (induction cs arbitrary: m p)
  case Nil
  then show ?case by auto
next
  case (Cons c cs)
  from Cons.prems have "write_bytes (m(p \<mapsto> c)) (Suc p) cs = Some m'"
    by (simp split: if_splits)
  then have IH: "m' q = (if Suc p \<le> q \<and> q < Suc p + length cs
      then Some (cs ! (q - Suc p)) else (m(p \<mapsto> c)) q)"
    by (rule Cons.IH)
  show ?case
  proof (cases "q = p")
    case True
    with IH show ?thesis by simp
  next
    case False
    then show ?thesis using IH by (auto simp: nth_Cons' le_less)
  qed
qed

text \<open>What a C string read finds over a run of known bytes followed by a NUL.\<close>

lemma c_string_run:
  assumes "\<And>i. i < length cs \<Longrightarrow> m (p + i) = Some (cs ! i)"
    and "m (p + length cs) = Some NUL" and "p + length cs < addr_limit"
  shows "c_string m p = Some (takeWhile (\<lambda>c. c \<noteq> NUL) cs)"
  using assms
proof (induction cs arbitrary: p)
  case Nil
  then show ?case by (simp add: c_string.simps [of m p])
next
  case (Cons c cs)
  have "m p = Some c" using Cons.prems(1) [of 0] by simp
  moreover have "c_string m (Suc p) = Some (takeWhile (\<lambda>c. c \<noteq> NUL) cs)"
  proof (rule Cons.IH)
    fix i assume "i < length cs"
    then show "m (Suc p + i) = Some (cs ! i)" using Cons.prems(1) [of "Suc i"] by simp
  qed (use Cons.prems in simp_all)
  ultimately show ?case using Cons.prems(3) by (simp add: c_string.simps [of m p])
qed

lemma c_string_nonNUL: "c_string m p = Some s \<Longrightarrow> NUL \<notin> set s"
proof (induction m p arbitrary: s rule: c_string.induct)
  case (1 m p)
  from "1.prems" obtain c where p: "p < addr_limit" "m p = Some c"
    by (subst (asm) c_string.simps) (auto split: if_splits option.splits)
  show ?case
  proof (cases "c = NUL")
    case True
    with p "1.prems" show ?thesis by (subst (asm) c_string.simps) simp
  next
    case False
    with p "1.prems" obtain t where "c_string m (Suc p) = Some t" "s = c # t"
      by (subst (asm) c_string.simps) auto
    with "1.IH" p False show ?thesis by auto
  qed
qed

section \<open>Copying a value into the caller's buffer\<close>

text \<open>
  The common tail of \<open>kv739_get\<close> and \<open>kv739_put\<close>: at most 2047 bytes of the string and a
  terminating NUL. The length is a \<open>uint64_t\<close>.
\<close>

definition num_bytes :: "string \<Rightarrow> 64 word" where
  "num_bytes s = (let val_len = (word_of_nat (length s) :: 64 word) in if val_len > 2047 then 2047 else val_len)"

definition copy_out :: "memory \<Rightarrow> addr \<Rightarrow> string \<Rightarrow> memory option" where
  "copy_out m p s =
     (let n = unat (num_bytes s) in
      case write_bytes m p (take n s) of
        None \<Rightarrow> None
      | Some m' \<Rightarrow> write_bytes m' (p + n) [NUL])"

lemma unat_num_bytes: "length s < 2 ^ 64 \<Longrightarrow> unat (num_bytes s) = min 2047 (length s)"
  by (simp add: num_bytes_def word_less_nat_alt unat_of_nat take_bit_nat_eq_self)

lemma num_bytes_le: "unat (num_bytes s) \<le> 2047"
  by (simp add: num_bytes_def Let_def word_less_nat_alt)

lemma num_bytes_le_length: "unat (num_bytes s) \<le> length s"
proof -
  have "unat (word_of_nat (length s) :: 64 word) \<le> length s"
    by (simp add: unat_of_nat)
  then show ?thesis by (auto simp: num_bytes_def Let_def word_less_nat_alt)
qed

lemma min_length_num_bytes [simp]: "min (length s) (unat (num_bytes s)) = unat (num_bytes s)"
  using num_bytes_le_length [of s] by simp

lemma copy_out_defined:
  "copy_out m p s \<noteq> None \<longleftrightarrow> accessible m p (Suc (unat (num_bytes s)))"
proof -
  let ?n = "unat (num_bytes s)"
  have split: "accessible m p (Suc ?n) \<longleftrightarrow> accessible m p ?n \<and> m (p + ?n) \<noteq> None"
    by (auto simp: accessible_def less_Suc_eq)
  show ?thesis
  proof (cases "write_bytes m p (take ?n s)")
    case None
    then show ?thesis
      using write_bytes_defined [of m p "take ?n s"] split by (simp add: copy_out_def)
  next
    case (Some m')
    then have "accessible m p ?n"
      using write_bytes_defined [of m p "take ?n s"] by simp
    moreover have "m' (p + ?n) = m (p + ?n)"
      using write_bytes_lookup [OF Some] by simp
    ultimately show ?thesis using Some split by (simp add: copy_out_def Let_def)
  qed
qed

lemma copy_out_enough:
  assumes "accessible m p (Suc (min 2047 (length s)))" and "length s < 2 ^ 64"
  shows "\<exists>m'. copy_out m p s = Some m'"
  using assms copy_out_defined [of m p s] by (simp add: unat_num_bytes)

lemma copy_out_lookup:
  assumes "copy_out m p s = Some m'"
  shows "m' q = (if p \<le> q \<and> q < p + unat (num_bytes s) then Some (s ! (q - p))
                 else if q = p + unat (num_bytes s) then Some NUL else m q)"
proof -
  let ?n = "unat (num_bytes s)"
  obtain m1 where m1: "write_bytes m p (take ?n s) = Some m1" "write_bytes m1 (p + ?n) [NUL] = Some m'"
    using assms by (auto simp: copy_out_def Let_def split: option.splits)
  show ?thesis
    using write_bytes_lookup [OF m1(1), of q] write_bytes_lookup [OF m1(2), of q]
    by auto
qed

lemma copy_out_frame:
  assumes "copy_out m p s = Some m'" and "q < p \<or> p + 2047 < q"
  shows "m' q = m q"
  using copy_out_lookup [OF assms(1), of q] num_bytes_le [of s] assms(2) by auto

lemma copy_out_reads_back:
  assumes "copy_out m p s = Some m'" and "length s < 2 ^ 64" and "p + 2047 < addr_limit"
  shows "c_string m' p = Some (takeWhile (\<lambda>c. c \<noteq> NUL) (take 2047 s))"
proof -
  let ?n = "unat (num_bytes s)"
  have "c_string m' p = Some (takeWhile (\<lambda>c. c \<noteq> NUL) (take ?n s))"
  proof (rule c_string_run)
    show "m' (p + i) = Some (take ?n s ! i)" if "i < length (take ?n s)" for i
      using that copy_out_lookup [OF assms(1), of "p + i"] by simp
    show "m' (p + length (take ?n s)) = Some NUL"
      using copy_out_lookup [OF assms(1), of "p + ?n"] by simp
    show "p + length (take ?n s) < addr_limit"
      using assms num_bytes_le [of s] by simp
  qed
  also have "take ?n s = take 2047 s"
    using assms(2) by (simp add: unat_num_bytes min_def)
  finally show ?thesis .
qed

section \<open>Splitting a stream at a delimiter\<close>

text \<open>
  \<open>getline(ss, token, d)\<close> on what is left of the stream: the characters before the next
  delimiter, which is consumed; it fails (and the loop around it stops) when nothing is left.
\<close>

fun getline :: "char \<Rightarrow> string \<Rightarrow> (string \<times> string) option" where
  "getline d [] = None"
| "getline d (c # cs) =
     Some (takeWhile (\<lambda>x. x \<noteq> d) (c # cs), drop (Suc (length (takeWhile (\<lambda>x. x \<noteq> d) (c # cs)))) (c # cs))"

lemma getline_shrinks: "getline d s = Some (t, r) \<Longrightarrow> length r < length s"
  by (cases s) auto

text \<open>\<open>while (getline(ss, token, d)) v.push_back(token);\<close>\<close>

function getline_all :: "char \<Rightarrow> string \<Rightarrow> string list" where
  "getline_all d s = (case getline d s of None \<Rightarrow> [] | Some (t, r) \<Rightarrow> t # getline_all d r)"
  by pat_completeness auto
termination
  by (relation "measure (\<lambda>(d, s). length s)") (auto dest: getline_shrinks)

declare getline_all.simps [simp del]

lemma getline_all_Nil [simp]: "getline_all d [] = []"
  by (simp add: getline_all.simps)

lemma getline_all_step:
  assumes "d \<notin> set t"
  shows "getline_all d (t @ d # r) = t # getline_all d r"
proof -
  have "takeWhile (\<lambda>x. x \<noteq> d) (t @ d # r) = t"
    using assms by (induction t) auto
  moreover have "getline d s = Some (takeWhile (\<lambda>x. x \<noteq> d) s, drop (Suc (length (takeWhile (\<lambda>x. x \<noteq> d) s))) s)"
    if "s \<noteq> []" for s
    using that by (cases s) auto
  ultimately have "getline d (t @ d # r) = Some (t, r)"
    by simp
  then show ?thesis by (simp add: getline_all.simps [of d "t @ d # r"])
qed

lemma getline_all_last:
  assumes "d \<notin> set t" and "t \<noteq> []"
  shows "getline_all d t = [t]"
proof -
  have "takeWhile (\<lambda>x. x \<noteq> d) t = t"
    using assms(1) by (auto simp: takeWhile_eq_all_conv)
  then have "getline d t = Some (t, [])"
    using assms(2) by (cases t) auto
  then show ?thesis by (simp add: getline_all.simps [of d t])
qed

text \<open>The inverse: the hosts written with a delimiter after each, or between them.\<close>

fun join_with :: "char \<Rightarrow> string list \<Rightarrow> string" where
  "join_with d [] = []"
| "join_with d [t] = t"
| "join_with d (t # ts) = t @ d # join_with d ts"

lemma getline_all_join:
  assumes "\<forall>t \<in> set ts. d \<notin> set t" and "ts \<noteq> []" and "last ts \<noteq> []"
  shows "getline_all d (join_with d ts) = ts"
  using assms
proof (induction d ts rule: join_with.induct)
  case (2 d t)
  then show ?case by (simp add: getline_all_last)
next
  case (3 d t u ts)
  then show ?case by (simp add: getline_all_step)
qed simp

lemma getline_all_no_delim: "t \<in> set (getline_all d s) \<Longrightarrow> d \<notin> set t"
proof (induction d s rule: getline_all.induct)
  case (1 d s)
  show ?case
  proof (cases "getline d s")
    case None
    with "1.prems" show ?thesis by (simp add: getline_all.simps [of d s])
  next
    case (Some tr)
    then obtain u r where u: "getline d s = Some (u, r)" by (cases tr) auto
    then have "d \<notin> set u"
      by (cases s) (auto dest: set_takeWhileD)
    with u "1.IH" "1.prems" show ?thesis by (auto simp: getline_all.simps [of d s])
  qed
qed

end
