(* ===== verification/Rpc_Client.thy ===== *)
theory Rpc_Client
  imports Cpp_Strings
begin

text \<open>
  \<open>src/client/src/kvclientimpl.cpp\<close>: the class \<open>KvstoreRPCClient\<close>. Its constructor opens one
  stub and starts one completion thread per host, its destructor shuts the completion queues
  down and joins the threads, \<open>sendRequest\<close> is the blocking call, \<open>sendRequestAsync\<close>,
  \<open>AsyncCompleteRpc\<close> and \<open>sendRequestDone\<close> are the asynchronous path.

  The gRPC library, the generated message classes and the members of \<open>KvstoreRPCClient\<close> that
  the repository declares but does not define (\<open>IsLeader\<close>, \<open>Shutdown\<close>, \<open>TerminateServer\<close>)
  are the fields of an environment record. They act on a world of an arbitrary type.
\<close>

section \<open>Messages\<close>

text \<open>The request types the code names; \<open>Other_REQ\<close> is any further value of the enum.\<close>

datatype request_type = GET_REQ | PUT_REQ | STOP_REQ | Other_REQ int

record kvstore_request =
  req_key :: string
  req_value :: string
  req_type :: request_type

record kvstore_response =
  resp_found :: bool
  resp_value :: string
  resp_old_value :: string
  resp_type :: request_type

datatype status = Status_OK | Status_Error int string

text \<open>
  \<open>AsyncClientCall\<close> as the completion queue hands it back: the request, and the reply and
  status that gRPC has filled in.
\<close>

record async_call =
  call_request :: kvstore_request
  call_reply :: kvstore_response
  call_status :: status

section \<open>Diagnostics\<close>

text \<open>One constructor per message that the client writes to its log or to \<open>std::cerr\<close>.\<close>

datatype log_event =
    Log_Init "32 word" string
  | Log_Ready "32 word"
  | Log_Async_Failure nat int string
  | Log_Send_Failure int string
  | Log_Sent "64 word"
  | Log_Done request_type
  | Log_Unexpected int
  | Log_Cleanup
  | Log_Connect_Error string exn
  | Log_Shutdown_Error exn
  | Log_Die_Error exn
  | Log_Get_Failed exn
  | Log_Put_Failed exn
  | Log_Redirected string
  | Log_Driver string

section \<open>State\<close>

text \<open>
  A stub holds the address of its channel and its completion queue \<open>cq_\<close>; the arrays
  \<open>_servers\<close> and \<open>_threads\<close> have uninitialised slots until the constructor has filled them.
  A thread is named by the node whose queue it serves.
\<close>

record 'q rpc_stub =
  stub_url :: string
  stub_cq :: 'q

record 'q rpc_client =
  servers :: "'q rpc_stub option list"
  threads :: "nat option list"

text \<open>
  The process-wide state: the globals of \<open>kvclient.cpp\<close> (\<open>kv_client\<close>, \<open>server_list\<close>,
  \<open>current_leader\<close>), \<open>g_num_servers\<close>, the caller's memory, the diagnostics, the world
  outside, and three ledgers of heap objects: stubs, threads and asynchronous calls that have
  been allocated and not yet deleted. \<open>g_num_servers\<close> is printed with \<open>%u\<close> and compared with
  a \<open>uint32_t\<close>; it is a 32-bit unsigned integer here.
\<close>

record ('w, 'q) client_state =
  kv_client :: "'q rpc_client option"
  server_list :: "string list"
  current_leader :: string
  g_num_servers :: "32 word"
  mem :: memory
  log :: "log_event list"
  world :: 'w
  live_stubs :: int
  live_threads :: int
  live_calls :: int

text \<open>
  The code outside the repository. \<open>env_contact\<close> takes the deadline of the context in
  milliseconds. \<open>env_cq_next\<close> is \<open>CompletionQueue::Next\<close>: \<open>None\<close> when it returns false,
  otherwise the call found at the tag and the \<open>ok\<close> flag. \<open>env_start_call\<close> is the prepare,
  start and finish of an asynchronous call with the deadline of its own context, if any.
  \<open>env_redirect_is_std\<close>: whether \<open>LeaderRedirectException\<close> derives from \<open>std::exception\<close>.
\<close>

record ('w, 'q) env =
  env_read_server_list :: "string \<Rightarrow> 'w \<Rightarrow> (exn, string list) outcome \<times> 'w"
  env_new_stub :: "string \<Rightarrow> 'w \<Rightarrow> (exn, 'q) outcome \<times> 'w"
  env_new_thread :: "nat \<Rightarrow> 'w \<Rightarrow> (exn, unit) outcome \<times> 'w"
  env_contact :: "nat \<Rightarrow> 'q rpc_stub \<Rightarrow> kvstore_request \<Rightarrow> 'w \<Rightarrow> (exn, (status \<times> kvstore_response)) outcome \<times> 'w"
  env_is_leader :: "'q rpc_client \<Rightarrow> 'w \<Rightarrow> (exn, bool) outcome \<times> 'w"
  env_shutdown :: "'q rpc_client \<Rightarrow> 'w \<Rightarrow> (exn, unit) outcome \<times> 'w"
  env_terminate :: "'q rpc_client \<Rightarrow> string \<Rightarrow> int \<Rightarrow> 'w \<Rightarrow> (exn, int) outcome \<times> 'w"
  env_start_call :: "nat option \<Rightarrow> kvstore_request \<Rightarrow> 'q \<Rightarrow> 'q"
  env_cq_next :: "'q \<Rightarrow> (async_call \<times> bool) option \<times> 'q"
  env_cq_shutdown :: "'q \<Rightarrow> 'q"
  env_redirect_is_std :: bool

definition external :: "('w \<Rightarrow> (exn, 'a) outcome \<times> 'w) \<Rightarrow> (('w, 'q) client_state, exn, 'a) prog" where
  "external f = (\<lambda>s. case f (world s) of (r, w) \<Rightarrow> (r, s\<lparr>world := w\<rparr>))"

definition write_log :: "log_event \<Rightarrow> (('w, 'q) client_state, exn, unit) prog" where
  "write_log e = modify (\<lambda>s. s\<lparr>log := log s @ [e]\<rparr>)"

section \<open>Constructor\<close>

definition server_url :: "string \<Rightarrow> string" where
  "server_url host = host @ '':'' @ to_string 50051"

text \<open>
  One pass of the constructor's loop per host: open the stub, store it, start the completion
  thread, store it, count \<open>node_id\<close> up in 32 bits.
\<close>

fun init_servers ::
  "('w, 'q) env \<Rightarrow> string list \<Rightarrow> 32 word \<Rightarrow> 'q rpc_client \<Rightarrow> (('w, 'q) client_state, exn, 'q rpc_client) prog" where
  "init_servers E [] node_id c = ret c"
| "init_servers E (host # hosts) node_id c =
     (let url = server_url host; i = unat node_id in
      bind (write_log (Log_Init node_id url)) (\<lambda>_.
      bind (external (env_new_stub E url)) (\<lambda>q.
      if length (servers c) \<le> i then undefined_behaviour else
      bind (modify (\<lambda>s. s\<lparr>live_stubs := live_stubs s + 1\<rparr>)) (\<lambda>_.
      let c1 = c\<lparr>servers := (servers c)[i := Some \<lparr>stub_url = url, stub_cq = q\<rparr>]\<rparr> in
      bind (external (env_new_thread E i)) (\<lambda>_.
      if length (threads c1) \<le> i then undefined_behaviour else
      bind (modify (\<lambda>s. s\<lparr>live_threads := live_threads s + 1\<rparr>)) (\<lambda>_.
      init_servers E hosts (node_id + 1) (c1\<lparr>threads := (threads c1)[i := Some i]\<rparr>)))))))"

definition KvstoreRPCClient :: "('w, 'q) env \<Rightarrow> string \<Rightarrow> (('w, 'q) client_state, exn, 'q rpc_client) prog" where
  "KvstoreRPCClient E hosts =
     (let host_addrs = getline_all (CHR '';'') hosts; n = (word_of_nat (length host_addrs) :: 32 word) in
      bind (modify (\<lambda>s. s\<lparr>g_num_servers := n\<rparr>)) (\<lambda>_.
      bind (init_servers E host_addrs 0 \<lparr>servers = replicate (unat n) None, threads = replicate (unat n) None\<rparr>) (\<lambda>c.
      bind (write_log (Log_Ready n)) (\<lambda>_. ret c))))"

section \<open>The blocking call\<close>

definition sendRequest ::
  "('w, 'q) env \<Rightarrow> 'q rpc_client \<Rightarrow> kvstore_request \<Rightarrow> 64 word \<Rightarrow> (('w, 'q) client_state, exn, kvstore_response) prog" where
  "sendRequest E c request node_id =
     (case slot (servers c) (unat node_id) of
        None \<Rightarrow> undefined_behaviour
      | Some stub \<Rightarrow>
          bind (external (env_contact E 500 stub request)) (\<lambda>(status, response).
          case status of
            Status_Error code msg \<Rightarrow>
              bind (write_log (Log_Send_Failure code msg)) (\<lambda>_.
              throw (Runtime_Error ''Failed to send request to server.''))
          | Status_OK \<Rightarrow> bind (write_log (Log_Sent node_id)) (\<lambda>_. ret response)))"

section \<open>The asynchronous path\<close>

text \<open>
  The deadline is set on an object named \<open>context\<close>, not on the context of the call, so the
  call starts without one.
\<close>

definition sendRequestAsync ::
  "('w, 'q) env \<Rightarrow> 'q rpc_client \<Rightarrow> kvstore_request \<Rightarrow> 64 word \<Rightarrow> (('w, 'q) client_state, exn, 'q rpc_client) prog" where
  "sendRequestAsync E c request node_id =
     bind (modify (\<lambda>s. s\<lparr>live_calls := live_calls s + 1\<rparr>)) (\<lambda>_.
     case slot (servers c) (unat node_id) of
       None \<Rightarrow> undefined_behaviour
     | Some stub \<Rightarrow>
         ret (c\<lparr>servers := (servers c)[unat node_id :=
                 Some (stub\<lparr>stub_cq := env_start_call E None request (stub_cq stub)\<rparr>)]\<rparr>))"

definition sendRequestDone :: "kvstore_request \<Rightarrow> kvstore_response \<Rightarrow> log_event" where
  "sendRequestDone request response =
     (case resp_type response of
        GET_REQ \<Rightarrow> Log_Done GET_REQ
      | PUT_REQ \<Rightarrow> Log_Done PUT_REQ
      | STOP_REQ \<Rightarrow> Log_Done STOP_REQ
      | Other_REQ t \<Rightarrow> Log_Unexpected t)"

text \<open>
  The body of a completion thread. The result is the queue, the diagnostics and the ledger of
  calls when \<open>Next\<close> returns false; \<open>None\<close> when it never does. A failed call is reported
  and left by \<open>continue\<close>, before the \<open>delete\<close>.
\<close>

partial_function (option) AsyncCompleteRpc ::
  "('q \<Rightarrow> (async_call \<times> bool) option \<times> 'q) \<Rightarrow> nat \<Rightarrow> 'q \<Rightarrow> log_event list \<Rightarrow> int \<Rightarrow>
   ('q \<times> log_event list \<times> int) option" where
  "AsyncCompleteRpc next node_id q logs live =
     (case next q of
        (None, q') \<Rightarrow> Some (q', logs, live)
      | (Some (call, ok), q') \<Rightarrow>
          (case call_status call of
             Status_Error code msg \<Rightarrow>
               AsyncCompleteRpc next node_id q' (logs @ [Log_Async_Failure node_id code msg]) live
           | Status_OK \<Rightarrow>
               AsyncCompleteRpc next node_id q'
                 (logs @ [sendRequestDone (call_request call) (call_reply call)]) (live - 1)))"

section \<open>Destructor\<close>

text \<open>
  For each index: shut the queue down, join the thread (which returns when its loop does),
  delete the thread and the stub.
\<close>

fun destroy_servers :: "('w, 'q) env \<Rightarrow> 'q rpc_client \<Rightarrow> nat list \<Rightarrow> (('w, 'q) client_state, exn, unit) prog" where
  "destroy_servers E c [] s = (Val (), s)"
| "destroy_servers E c (i # is) s =
     (case slot (servers c) i of
        None \<Rightarrow> (UB, s)
      | Some stub \<Rightarrow>
          (case slot (threads c) i of
             None \<Rightarrow> (UB, s)
           | Some node \<Rightarrow>
               (case AsyncCompleteRpc (env_cq_next E) node (env_cq_shutdown E (stub_cq stub)) (log s) (live_calls s) of
                  None \<Rightarrow> (Hang, s)
                | Some (q, logs, live) \<Rightarrow>
                    destroy_servers E c is
                      (s\<lparr>log := logs, live_calls := live,
                         live_threads := live_threads s - 1, live_stubs := live_stubs s - 1\<rparr>))))"

definition destroy_KvstoreRPCClient :: "('w, 'q) env \<Rightarrow> 'q rpc_client \<Rightarrow> (('w, 'q) client_state, exn, unit) prog" where
  "destroy_KvstoreRPCClient E c =
     (\<lambda>s. bind (destroy_servers E c [0..<unat (g_num_servers s)]) (\<lambda>_. write_log Log_Cleanup) s)"

section \<open>Frames\<close>

lemma external_apply: "external f s = (fst (f (world s)), s\<lparr>world := snd (f (world s))\<rparr>)"
  by (simp add: external_def split: prod.splits)

lemma write_log_apply [simp]: "write_log e s = (Val (), s\<lparr>log := log s @ [e]\<rparr>)"
  by (simp add: write_log_def)

text \<open>Everything but the diagnostics and the world is as before.\<close>

definition only_io :: "('w, 'q) client_state \<Rightarrow> ('w, 'q) client_state \<Rightarrow> bool" where
  "only_io s t \<longleftrightarrow> t = s\<lparr>log := log t, world := world t\<rparr>"

text \<open>The globals of \<open>kvclient.cpp\<close>, the memory and the asynchronous calls are as before.\<close>

definition same_globals :: "('w, 'q) client_state \<Rightarrow> ('w, 'q) client_state \<Rightarrow> bool" where
  "same_globals s t \<longleftrightarrow>
     t = s\<lparr>g_num_servers := g_num_servers t, log := log t, world := world t,
           live_stubs := live_stubs t, live_threads := live_threads t, live_calls := live_calls t\<rparr>"

lemma only_io_iff:
  "only_io s t \<longleftrightarrow> kv_client t = kv_client s \<and> server_list t = server_list s \<and>
     current_leader t = current_leader s \<and> g_num_servers t = g_num_servers s \<and> mem t = mem s \<and>
     live_stubs t = live_stubs s \<and> live_threads t = live_threads s \<and> live_calls t = live_calls s"
  by (cases s; cases t) (auto simp: only_io_def)

lemma same_globals_iff:
  "same_globals s t \<longleftrightarrow> kv_client t = kv_client s \<and> server_list t = server_list s \<and>
     current_leader t = current_leader s \<and> mem t = mem s"
  by (cases s; cases t) (auto simp: same_globals_def)

lemma only_io_order [keeps_rules]: "reflp only_io" "transp only_io"
  by (auto simp: only_io_iff intro!: reflpI transpI)

lemma same_globals_order [keeps_rules]: "reflp same_globals" "transp same_globals"
  by (auto simp: same_globals_iff intro!: reflpI transpI)

lemma keeps_io [keeps_rules]:
  "keeps only_io (external f)" "keeps only_io (write_log e)"
  "keeps same_globals (external f)" "keeps same_globals (write_log e)"
  by (auto simp: keeps_def external_apply only_io_iff same_globals_iff)

lemma keeps_status [keeps_rules]:
  "(\<And>code msg. st = Status_Error code msg \<Longrightarrow> keeps R (f code msg)) \<Longrightarrow> (st = Status_OK \<Longrightarrow> keeps R m) \<Longrightarrow>
     keeps R (case st of Status_Error code msg \<Rightarrow> f code msg | Status_OK \<Rightarrow> m)"
  by (cases st) simp_all

lemma sendRequest_io [keeps_rules]: "keeps only_io (sendRequest E c request node_id)"
  unfolding sendRequest_def by (intro keeps_rules)

lemma init_servers_globals [keeps_rules]: "keeps same_globals (init_servers E hosts node_id c)"
proof (induction hosts arbitrary: node_id c)
  case Nil
  show ?case unfolding init_servers.simps by (intro keeps_rules)
next
  case (Cons host hosts)
  show ?case
    unfolding init_servers.simps by (intro keeps_rules Cons.IH) (simp_all add: same_globals_iff)
qed

lemma KvstoreRPCClient_globals [keeps_rules]: "keeps same_globals (KvstoreRPCClient E hosts)"
  unfolding KvstoreRPCClient_def by (intro keeps_rules) (simp_all add: same_globals_iff)

lemma destroy_servers_frame:
  "destroy_servers E c is s = (r, t) \<Longrightarrow> same_globals s t \<and> g_num_servers t = g_num_servers s \<and> world t = world s"
proof (induction E c "is" s rule: destroy_servers.induct)
  case (2 E c i "is" s)
  then show ?case
    by (fastforce simp: same_globals_iff split: option.splits prod.splits)
qed (simp add: same_globals_iff)

section \<open>The constructed object\<close>

text \<open>
  What the constructor relies on: stubs and threads can be created. \<open>opens E\<close> says that neither
  constructor throws.
\<close>

definition opens :: "('w, 'q) env \<Rightarrow> bool" where
  "opens E \<longleftrightarrow> (\<forall>url w. \<exists>q w'. env_new_stub E url w = (Val q, w')) \<and>
               (\<forall>i w. \<exists>w'. env_new_thread E i w = (Val (), w'))"

text \<open>A client object connected to the given hosts, with a thread for each of them.\<close>

definition connected :: "'q rpc_client \<Rightarrow> string list \<Rightarrow> bool" where
  "connected c hosts \<longleftrightarrow>
     map (map_option stub_url) (servers c) = map (\<lambda>h. Some (server_url h)) hosts \<and>
     threads c = map Some [0..<length hosts]"

lemma connected_length: "connected c hosts \<Longrightarrow> length (servers c) = length hosts"
  unfolding connected_def by (metis length_map)

lemma connected_slot:
  assumes "connected c hosts" and "i < length hosts"
  obtains stub where "slot (servers c) i = Some stub" and "stub_url stub = server_url (hosts ! i)"
    and "slot (threads c) i = Some i"
proof -
  have len: "length (servers c) = length hosts"
    using assms(1) by (rule connected_length)
  have "map_option stub_url (servers c ! i) = Some (server_url (hosts ! i))"
    using assms len unfolding connected_def by (metis (no_types, lifting) nth_map)
  with assms len that show thesis
    by (auto simp: connected_def slot_def)
qed

text \<open>
  The loop invariant of the constructor: before host number \<open>k\<close> the first \<open>k\<close> slots are the
  connected ones and the rest are still empty.
\<close>

lemma init_servers_connects:
  assumes "opens E" and "length done + length hosts < 2 ^ 32"
    and "servers c = stubs @ replicate (length hosts) None"
    and "map (map_option stub_url) stubs = map (\<lambda>h. Some (server_url h)) done"
    and "threads c = map Some [0..<length done] @ replicate (length hosts) None"
  shows "\<exists>c' t. init_servers E hosts (word_of_nat (length done)) c s = (Val c', t) \<and>
           connected c' (done @ hosts) \<and> g_num_servers t = g_num_servers s \<and>
           live_stubs t = live_stubs s + int (length hosts) \<and>
           live_threads t = live_threads s + int (length hosts) \<and> live_calls t = live_calls s"
  using assms(2-5)
proof (induction hosts arbitrary: "done" c stubs s)
  case Nil
  then show ?case by (simp add: connected_def)
next
  case (Cons host hosts)
  let ?k = "length done" and ?url = "server_url host"
  have k: "unat (word_of_nat ?k :: 32 word) = ?k"
    using Cons.prems(1) by (simp add: unat_of_nat take_bit_nat_eq_self)
  have len: "length stubs = ?k"
    using Cons.prems(3) by (metis length_map)
  obtain q w1 where stub: "env_new_stub E ?url (world s) = (Val q, w1)"
    using assms(1) unfolding opens_def by blast
  obtain w2 where w2: "env_new_thread E ?k w1 = (Val (), w2)"
    using assms(1) unfolding opens_def by blast
  let ?st = "\<lparr>stub_url = ?url, stub_cq = q\<rparr>"
  let ?c = "c\<lparr>servers := (servers c)[?k := Some ?st], threads := (threads c)[?k := Some ?k]\<rparr>"
  let ?s = "s\<lparr>log := log s @ [Log_Init (word_of_nat ?k) ?url], live_stubs := live_stubs s + 1,
              world := w2, live_threads := live_threads s + 1\<rparr>"
  have step: "init_servers E (host # hosts) (word_of_nat ?k) c s =
      init_servers E hosts (word_of_nat (length (done @ [host]))) ?c ?s"
    using stub w2 k len Cons.prems(2,4)
    by (simp add: Let_def bind_def external_apply add.commute)
  have "\<exists>c' t. init_servers E hosts (word_of_nat (length (done @ [host]))) ?c ?s = (Val c', t) \<and>
           connected c' ((done @ [host]) @ hosts) \<and> g_num_servers t = g_num_servers ?s \<and>
           live_stubs t = live_stubs ?s + int (length hosts) \<and>
           live_threads t = live_threads ?s + int (length hosts) \<and> live_calls t = live_calls ?s"
  proof (rule Cons.IH)
    show "servers ?c = (stubs @ [Some ?st]) @ replicate (length hosts) None"
      using Cons.prems(2) by (simp add: len [symmetric])
    show "threads ?c = map Some [0..<length (done @ [host])] @ replicate (length hosts) None"
      using Cons.prems(4) by (simp add: list_update_append)
  qed (use Cons.prems in simp_all)
  then show ?case unfolding step by (simp add: add.assoc)
qed

lemma KvstoreRPCClient_connects:
  assumes "opens E" and "length (getline_all (CHR '';'') hosts) < 2 ^ 32"
  shows "\<exists>c t. KvstoreRPCClient E hosts s = (Val c, t) \<and>
           connected c (getline_all (CHR '';'') hosts) \<and> same_globals s t \<and>
           unat (g_num_servers t) = length (getline_all (CHR '';'') hosts) \<and>
           live_stubs t = live_stubs s + int (length (getline_all (CHR '';'') hosts)) \<and>
           live_threads t = live_threads s + int (length (getline_all (CHR '';'') hosts)) \<and>
           live_calls t = live_calls s"
proof -
  let ?hs = "getline_all (CHR '';'') hosts"
  let ?n = "word_of_nat (length ?hs) :: 32 word"
  have n: "unat ?n = length ?hs"
    using assms(2) by (simp add: unat_of_nat take_bit_nat_eq_self)
  let ?c = "\<lparr>servers = replicate (unat ?n) None, threads = replicate (unat ?n) None\<rparr> :: 'b rpc_client"
  obtain c t where c: "init_servers E ?hs (word_of_nat (length [])) ?c (s\<lparr>g_num_servers := ?n\<rparr>) = (Val c, t)"
    "connected c ([] @ ?hs)" "g_num_servers t = ?n"
    "live_stubs t = live_stubs s + int (length ?hs)"
    "live_threads t = live_threads s + int (length ?hs)" "live_calls t = live_calls s"
    using init_servers_connects [of E "[]" ?hs ?c "[]" "s\<lparr>g_num_servers := ?n\<rparr>"] assms n by auto
  have "KvstoreRPCClient E hosts s = (Val c, t\<lparr>log := log t @ [Log_Ready ?n]\<rparr>)"
    using c(1) by (simp add: KvstoreRPCClient_def Let_def)
  moreover from this have "same_globals s (t\<lparr>log := log t @ [Log_Ready ?n]\<rparr>)"
    by (rule keepsD [OF KvstoreRPCClient_globals])
  ultimately show ?thesis using c n by simp
qed

section \<open>The completion loop\<close>

text \<open>
  The events that \<open>Next\<close> delivers from a queue before it returns false. A queue that is never
  drained delivers no such list.
\<close>

inductive delivers :: "('q \<Rightarrow> (async_call \<times> bool) option \<times> 'q) \<Rightarrow> 'q \<Rightarrow> async_call list \<Rightarrow> 'q \<Rightarrow> bool"
  for "next" where
  drained: "next q = (None, q') \<Longrightarrow> delivers next q [] q'"
| event: "next q = (Some (call, ok), q') \<Longrightarrow> delivers next q' calls q'' \<Longrightarrow> delivers next q (call # calls) q''"

inductive_cases delivers_NilE [elim]: "delivers next q [] q'"
inductive_cases delivers_ConsE [elim]: "delivers next q (call # calls) q'"

definition completion_event :: "nat \<Rightarrow> async_call \<Rightarrow> log_event" where
  "completion_event node_id call =
     (case call_status call of
        Status_Error code msg \<Rightarrow> Log_Async_Failure node_id code msg
      | Status_OK \<Rightarrow> sendRequestDone (call_request call) (call_reply call))"

definition succeeded :: "async_call list \<Rightarrow> async_call list" where
  "succeeded calls = filter (\<lambda>call. call_status call = Status_OK) calls"

lemma AsyncCompleteRpc_delivers:
  "delivers next q calls q' \<Longrightarrow>
     AsyncCompleteRpc next node_id q logs live =
       Some (q', logs @ map (completion_event node_id) calls, live - int (length (succeeded calls)))"
proof (induction arbitrary: logs live rule: delivers.induct)
  case (drained q q')
  then show ?case by (simp add: AsyncCompleteRpc.simps succeeded_def)
next
  case (event q call ok q' calls q'')
  then show ?case
    by (cases "call_status call")
      (simp_all add: AsyncCompleteRpc.simps [of "next" node_id q] succeeded_def completion_event_def)
qed

lemma AsyncCompleteRpc_returns:
  assumes "AsyncCompleteRpc next node_id q logs live = Some r"
  shows "\<exists>calls q'. delivers next q calls q'"
proof (rule AsyncCompleteRpc.raw_induct [where P = "\<lambda>n i q l v r. n = next \<longrightarrow> (\<exists>calls q'. delivers next q calls q')",
      OF _ assms, rule_format])
  fix f n i q l v r
  assume IH: "\<And>n i q l v r. f n i q l v = Some r \<Longrightarrow> n = next \<Longrightarrow> \<exists>calls q'. delivers next q calls q'"
    and eq: "(case n q of
        (None, q') \<Rightarrow> Some (q', l, v)
      | (Some (call, ok), q') \<Rightarrow>
          (case call_status call of
             Status_OK \<Rightarrow> f n i q' (l @ [sendRequestDone (call_request call) (call_reply call)]) (v - 1)
           | Status_Error code msg \<Rightarrow> f n i q' (l @ [Log_Async_Failure i code msg]) v)) = Some r"
    and "n = next"
  from eq \<open>n = next\<close> show "\<exists>calls q'. delivers next q calls q'"
    by (fastforce split: prod.splits option.splits status.splits dest: IH intro: delivers.intros)
qed simp

section \<open>The destroyed object\<close>

text \<open>
  What the destructor relies on from gRPC: a queue that has been shut down delivers the events
  that are left and then makes \<open>Next\<close> return false.
\<close>

definition queues_drain :: "('w, 'q) env \<Rightarrow> bool" where
  "queues_drain E \<longleftrightarrow> (\<forall>q. \<exists>calls q'. delivers (env_cq_next E) (env_cq_shutdown E q) calls q')"

lemma join_returns:
  assumes "queues_drain E"
  obtains q' logs' live' where
    "AsyncCompleteRpc (env_cq_next E) node (env_cq_shutdown E q) logs live = Some (q', logs', live')"
proof -
  from assms obtain calls q' where "delivers (env_cq_next E) (env_cq_shutdown E q) calls q'"
    unfolding queues_drain_def by blast
  then show thesis by (rule that [OF AsyncCompleteRpc_delivers])
qed

lemma destroy_servers_ok:
  assumes "queues_drain E" and "connected c hosts" and "set is \<subseteq> {0..<length hosts}"
  shows "\<exists>t. destroy_servers E c is s = (Val (), t) \<and>
           live_stubs t = live_stubs s - int (length is) \<and>
           live_threads t = live_threads s - int (length is)"
  using assms(3)
proof (induction "is" arbitrary: s)
  case Nil
  then show ?case by simp
next
  case (Cons i "is")
  then have "i < length hosts" by simp
  with assms(2) obtain stub where stub: "slot (servers c) i = Some stub" "slot (threads c) i = Some i"
    by (rule connected_slot)
  obtain q' logs' live' where join:
    "AsyncCompleteRpc (env_cq_next E) i (env_cq_shutdown E (stub_cq stub)) (log s) (live_calls s)
       = Some (q', logs', live')"
    using assms(1) by (rule join_returns)
  let ?s = "s\<lparr>log := logs', live_calls := live',
              live_threads := live_threads s - 1, live_stubs := live_stubs s - 1\<rparr>"
  obtain t where "destroy_servers E c is ?s = (Val (), t)"
    "live_stubs t = live_stubs ?s - int (length is)" "live_threads t = live_threads ?s - int (length is)"
    using Cons.IH [of ?s] Cons.prems by auto
  then show ?case using stub join by simp
qed

lemma destroy_servers_append:
  "destroy_servers E c (is @ js) = bind (destroy_servers E c is) (\<lambda>_. destroy_servers E c js)"
proof (rule ext)
  fix s
  show "destroy_servers E c (is @ js) s = bind (destroy_servers E c is) (\<lambda>_. destroy_servers E c js) s"
    by (induction "is" arbitrary: s) (simp_all add: bind_def split: option.split)
qed

lemma destroy_KvstoreRPCClient_ok:
  assumes "queues_drain E" and "connected c hosts" and "unat (g_num_servers s) = length hosts"
  shows "\<exists>t. destroy_KvstoreRPCClient E c s = (Val (), t) \<and> same_globals s t \<and>
           g_num_servers t = g_num_servers s \<and> world t = world s \<and>
           live_stubs t = live_stubs s - int (length hosts) \<and>
           live_threads t = live_threads s - int (length hosts)"
proof -
  obtain t where t: "destroy_servers E c [0..<length hosts] s = (Val (), t)"
    "live_stubs t = live_stubs s - int (length hosts)"
    "live_threads t = live_threads s - int (length hosts)"
    using destroy_servers_ok [OF assms(1,2), of "[0..<length hosts]" s] by auto
  have "same_globals s t" "g_num_servers t = g_num_servers s" "world t = world s"
    using destroy_servers_frame [OF t(1)] by auto
  then show ?thesis
    using t assms(3) by (simp add: destroy_KvstoreRPCClient_def same_globals_iff)
qed

text \<open>
  When \<open>g_num_servers\<close> is larger than the number of stubs of the object, the loop leaves its
  arrays.
\<close>

lemma destroy_KvstoreRPCClient_overrun:
  assumes "queues_drain E" and "connected c hosts" and "length hosts < unat (g_num_servers s)"
  shows "fst (destroy_KvstoreRPCClient E c s) = UB"
proof -
  let ?n = "unat (g_num_servers s)"
  have upt: "[0..<?n] = [0..<length hosts] @ length hosts # [Suc (length hosts)..<?n]"
    using assms(3) by (metis le_add1 less_imp_le upt_add_eq_append upt_conv_Cons add_0 le_add_diff_inverse)
  obtain t where t: "destroy_servers E c [0..<length hosts] s = (Val (), t)"
    using destroy_servers_ok [OF assms(1,2), of "[0..<length hosts]" s] by auto
  have "slot (servers c) (length hosts) = None"
    using connected_length [OF assms(2)] by (simp add: slot_def)
  then have "destroy_servers E c [0..<?n] s = (UB, t)"
    unfolding upt destroy_servers_append using t by simp
  then show ?thesis by (simp add: destroy_KvstoreRPCClient_def)
qed

end
