(* ===== verification/Kv_Client.thy ===== *)
theory Kv_Client
  imports Rpc_Client
begin

text \<open>
  \<open>src/client/src/kvclient.cpp\<close>: the C interface \<open>kv739_init\<close>, \<open>kv739_shutdown\<close>,
  \<open>kv739_die\<close>, \<open>kv739_get\<close> and \<open>kv739_put\<close> over the global \<open>kv_client\<close>, and the driver
  \<open>src/client/test/test_kv739_die.cpp\<close>. Results are the C return codes; every early return,
  every \<open>catch\<close> clause and every dereference of a pointer that may be null is a branch.
\<close>

section \<open>Exceptions and the shared client pointer\<close>

text \<open>Whether \<open>catch (const std::exception &)\<close> takes the exception.\<close>

fun is_std :: "('w, 'q) env \<Rightarrow> exn \<Rightarrow> bool" where
  "is_std E (Runtime_Error _) = True"
| "is_std E (Std_Exception _) = True"
| "is_std E (Leader_Redirect _) = env_redirect_is_std E"
| "is_std E Foreign_Exception = False"

definition catch_std :: "('w, 'q) env \<Rightarrow> (exn \<Rightarrow> (('w, 'q) client_state, exn, 'a) prog) \<Rightarrow> exn \<Rightarrow> (('w, 'q) client_state, exn, 'a) prog" where
  "catch_std E h e = (if is_std E e then h e else throw e)"

text \<open>\<open>kv_client->...\<close>: undefined when the pointer is null.\<close>

definition with_client :: "('q rpc_client \<Rightarrow> (('w, 'q) client_state, exn, 'a) prog) \<Rightarrow> (('w, 'q) client_state, exn, 'a) prog" where
  "with_client f = (\<lambda>s. case kv_client s of None \<Rightarrow> (UB, s) | Some c \<Rightarrow> f c s)"

text \<open>
  Assignment to the shared pointer: the new value is in place when the old object, of which
  the global is the only owner, is destroyed.
\<close>

definition assign_client :: "('w, 'q) env \<Rightarrow> 'q rpc_client option \<Rightarrow> (('w, 'q) client_state, exn, unit) prog" where
  "assign_client E c = (\<lambda>s.
     case kv_client s of
       None \<Rightarrow> (Val (), s\<lparr>kv_client := c\<rparr>)
     | Some old \<Rightarrow> destroy_KvstoreRPCClient E old (s\<lparr>kv_client := c\<rparr>))"

text \<open>\<open>kv_client = std::make_shared<KvstoreRPCClient>(address)\<close>.\<close>

definition connect :: "('w, 'q) env \<Rightarrow> string \<Rightarrow> (('w, 'q) client_state, exn, unit) prog" where
  "connect E address = bind (KvstoreRPCClient E address) (\<lambda>c. assign_client E (Some c))"

section \<open>kv739\_init, kv739\_shutdown, kv739\_die\<close>

text \<open>
  One round of the loop over the servers: \<open>Some 0\<close> when it returns from the function,
  \<open>None\<close> when it goes on with the next server.
\<close>

definition try_server :: "('w, 'q) env \<Rightarrow> string \<Rightarrow> (('w, 'q) client_state, exn, int option) prog" where
  "try_server E server =
     try_catch
       (bind (connect E server) (\<lambda>_.
        bind (with_client (\<lambda>c. external (env_is_leader E c))) (\<lambda>leader.
        if leader then bind (modify (\<lambda>s. s\<lparr>current_leader := server\<rparr>)) (\<lambda>_. ret (Some 0))
        else ret None)))
       (catch_std E (\<lambda>e. bind (write_log (Log_Connect_Error server e)) (\<lambda>_. ret None)))"

fun init_loop :: "('w, 'q) env \<Rightarrow> string list \<Rightarrow> (('w, 'q) client_state, exn, int) prog" where
  "init_loop E [] = ret (- 1)"
| "init_loop E (server # rest) =
     bind (try_server E server) (\<lambda>r. case r of None \<Rightarrow> init_loop E rest | Some v \<Rightarrow> ret v)"

definition kv739_init :: "('w, 'q) env \<Rightarrow> addr \<Rightarrow> (('w, 'q) client_state, exn, int) prog" where
  "kv739_init E config_file = (\<lambda>s.
     case std_string (mem s) config_file of
       None \<Rightarrow> (UB, s)
     | Some path \<Rightarrow>
         bind (external (env_read_server_list E path)) (\<lambda>servers.
         bind (modify (\<lambda>s. s\<lparr>server_list := servers\<rparr>)) (\<lambda>_.
         init_loop E servers)) s)"

definition kv739_shutdown :: "('w, 'q) env \<Rightarrow> (('w, 'q) client_state, exn, int) prog" where
  "kv739_shutdown E =
     try_catch
       (\<lambda>s. case kv_client s of
          None \<Rightarrow> (Val 0, s)
        | Some c \<Rightarrow>
            bind (external (env_shutdown E c)) (\<lambda>_. bind (assign_client E None) (\<lambda>_. ret 0)) s)
       (catch_std E (\<lambda>e. bind (write_log (Log_Shutdown_Error e)) (\<lambda>_. ret (- 1))))"

definition kv739_die :: "('w, 'q) env \<Rightarrow> addr \<Rightarrow> int \<Rightarrow> (('w, 'q) client_state, exn, int) prog" where
  "kv739_die E server_name clean =
     try_catch
       (\<lambda>s. case std_string (mem s) server_name of
          None \<Rightarrow> (UB, s)
        | Some name \<Rightarrow> with_client (\<lambda>c. external (env_terminate E c name clean)) s)
       (catch_std E (\<lambda>e. bind (write_log (Log_Die_Error e)) (\<lambda>_. ret (- 1))))"

section \<open>kv739\_get and kv739\_put\<close>

text \<open>\<open>.copy(buffer, num_bytes); buffer[num_bytes] = 0\<close>: undefined outside the caller's memory.\<close>

definition copy_value :: "addr \<Rightarrow> string \<Rightarrow> (('w, 'q) client_state, exn, unit) prog" where
  "copy_value buffer v = (\<lambda>s.
     case copy_out (mem s) buffer v of None \<Rightarrow> (UB, s) | Some m \<Rightarrow> (Val (), s\<lparr>mem := m\<rparr>))"

definition get_request :: "string \<Rightarrow> kvstore_request" where
  "get_request key = \<lparr>req_key = key, req_value = [], req_type = GET_REQ\<rparr>"

definition put_request :: "string \<Rightarrow> string \<Rightarrow> kvstore_request" where
  "put_request key v = \<lparr>req_key = key, req_value = v, req_type = PUT_REQ\<rparr>"

definition kv739_get :: "('w, 'q) env \<Rightarrow> addr \<Rightarrow> addr \<Rightarrow> (('w, 'q) client_state, exn, int) prog" where
  "kv739_get E key v = (\<lambda>s.
     if key = NULL \<or> v = NULL then (Val (- 1), s)
     else case std_string (mem s) key of
       None \<Rightarrow> (UB, s)
     | Some modern_key \<Rightarrow>
         try_catch
           (bind (with_client (\<lambda>c. sendRequest E c (get_request modern_key) 0)) (\<lambda>response.
            if \<not> resp_found response then ret 1
            else bind (copy_value v (resp_value response)) (\<lambda>_. ret 0)))
           (catch_std E (\<lambda>e. bind (write_log (Log_Get_Failed e)) (\<lambda>_. ret (- 1)))) s)"

text \<open>The body of the retry loop's \<open>try\<close> block.\<close>

definition put_attempt :: "('w, 'q) env \<Rightarrow> string \<Rightarrow> string \<Rightarrow> addr \<Rightarrow> (('w, 'q) client_state, exn, int) prog" where
  "put_attempt E key v old_value =
     bind (with_client (\<lambda>c. sendRequest E c (put_request key v) 0)) (\<lambda>response.
     if \<not> resp_found response then ret 1
     else bind (copy_value old_value (resp_old_value response)) (\<lambda>_. ret 0))"

text \<open>
  The retry loop, by the retries that are left. The clause for the redirection comes first;
  what its own statements throw leaves the function.
\<close>

fun put_loop :: "('w, 'q) env \<Rightarrow> string \<Rightarrow> string \<Rightarrow> addr \<Rightarrow> nat \<Rightarrow> (('w, 'q) client_state, exn, int) prog" where
  "put_loop E key v old_value 0 = ret (- 1)"
| "put_loop E key v old_value (Suc retry_count) =
     try_catch (put_attempt E key v old_value)
       (\<lambda>e. case e of
          Leader_Redirect address \<Rightarrow>
            bind (write_log (Log_Redirected address)) (\<lambda>_.
            bind (modify (\<lambda>s. s\<lparr>current_leader := address\<rparr>)) (\<lambda>_.
            bind (connect E address) (\<lambda>_.
            put_loop E key v old_value retry_count)))
        | _ \<Rightarrow> catch_std E (\<lambda>e. bind (write_log (Log_Put_Failed e)) (\<lambda>_. ret (- 1))) e)"

definition kv739_put :: "('w, 'q) env \<Rightarrow> addr \<Rightarrow> addr \<Rightarrow> addr \<Rightarrow> (('w, 'q) client_state, exn, int) prog" where
  "kv739_put E key v old_value = (\<lambda>s.
     if key = NULL \<or> v = NULL \<or> old_value = NULL then (Val (- 1), s)
     else case std_string (mem s) key of
       None \<Rightarrow> (UB, s)
     | Some modern_key \<Rightarrow>
         (case std_string (mem s) v of
            None \<Rightarrow> (UB, s)
          | Some modern_value \<Rightarrow> put_loop E modern_key modern_value old_value 3 s))"

section \<open>Sessions\<close>

text \<open>The calls a program can make, and the steps of a session: calls that return or throw.\<close>

datatype api_call = Init addr | Shutdown | Die addr int | Get addr addr | Put addr addr addr

fun run_call :: "('w, 'q) env \<Rightarrow> api_call \<Rightarrow> (('w, 'q) client_state, exn, int) prog" where
  "run_call E (Init config_file) = kv739_init E config_file"
| "run_call E Shutdown = kv739_shutdown E"
| "run_call E (Die server_name clean) = kv739_die E server_name clean"
| "run_call E (Get key v) = kv739_get E key v"
| "run_call E (Put key v old_value) = kv739_put E key v old_value"

inductive session_step :: "('w, 'q) env \<Rightarrow> ('w, 'q) client_state \<Rightarrow> ('w, 'q) client_state \<Rightarrow> bool"
  for E where
  returns: "run_call E call s = (Val r, t) \<Longrightarrow> session_step E s t"
| throws: "run_call E call s = (Exc e, t) \<Longrightarrow> session_step E s t"

text \<open>The globals as the program starts: no client, nothing allocated.\<close>

definition fresh :: "('w, 'q) client_state \<Rightarrow> bool" where
  "fresh s \<longleftrightarrow> kv_client s = None \<and> live_stubs s = 0 \<and> live_threads s = 0"

text \<open>
  The driver \<open>test_kv739_die.cpp\<close>: initialise, ask for the termination of one server, shut
  down. \<open>config_file\<close> and \<open>server_name\<close> are the addresses of its local arrays.
\<close>

definition test_kv739_die :: "('w, 'q) env \<Rightarrow> addr \<Rightarrow> addr \<Rightarrow> (('w, 'q) client_state, exn, int) prog" where
  "test_kv739_die E config_file server_name =
     bind (kv739_init E config_file) (\<lambda>r.
     if r \<noteq> 0 then bind (write_log (Log_Driver ''Client initialization failed.'')) (\<lambda>_. ret (- 1))
     else bind (kv739_die E server_name 1) (\<lambda>result.
          bind (write_log (Log_Driver (if result = 0 then ''Server terminated successfully.'' else ''Failed to terminate server.''))) (\<lambda>_.
          bind (kv739_shutdown E) (\<lambda>_. ret 0))))"

section \<open>Frames\<close>

text \<open>The memory is as before except for the 2048 bytes from an address on.\<close>

definition mem_frame :: "addr \<Rightarrow> ('w, 'q) client_state \<Rightarrow> ('w, 'q) client_state \<Rightarrow> bool" where
  "mem_frame p s t \<longleftrightarrow> (\<forall>q. q < p \<or> p + 2047 < q \<longrightarrow> mem t q = mem s q) \<and> dom (mem t) = dom (mem s)"

text \<open>Nothing else has changed, but for the diagnostics and the world.\<close>

definition buffer_frame :: "addr \<Rightarrow> ('w, 'q) client_state \<Rightarrow> ('w, 'q) client_state \<Rightarrow> bool" where
  "buffer_frame p s t \<longleftrightarrow> mem_frame p s t \<and> only_io (s\<lparr>mem := mem t\<rparr>) t"

lemma mem_frame_order [keeps_rules]: "reflp (mem_frame p)" "transp (mem_frame p)"
  by (auto simp: mem_frame_def intro!: reflpI transpI)

lemma buffer_frame_order [keeps_rules]: "reflp (buffer_frame p)" "transp (buffer_frame p)"
  by (auto simp: buffer_frame_def mem_frame_def only_io_iff intro!: reflpI transpI)

lemma keeps_mono: "keeps R m \<Longrightarrow> (\<And>s t. R s t \<Longrightarrow> S s t) \<Longrightarrow> keeps S m"
  by (simp add: keeps_def)

lemma only_io_buffer_frame: "only_io s t \<Longrightarrow> buffer_frame p s t"
  by (auto simp: buffer_frame_def mem_frame_def only_io_iff)

lemma same_globals_mem_frame: "same_globals s t \<Longrightarrow> mem_frame p s t"
  by (simp add: mem_frame_def same_globals_iff)

lemma keeps_io_frames [keeps_rules]:
  "keeps (buffer_frame p) (write_log e)" "keeps (mem_frame p) (write_log e)"
  "keeps (mem_frame p) (external f)"
  by (auto simp: keeps_def buffer_frame_def mem_frame_def only_io_iff external_apply)

lemma dom_copy_out: "copy_out m p v = Some m' \<Longrightarrow> dom m' = dom m"
proof -
  assume copy: "copy_out m p v = Some m'"
  have acc: "accessible m p (Suc (unat (num_bytes v)))"
    using copy copy_out_defined [of m p v] by simp
  have "m' q = None \<longleftrightarrow> m q = None" for q
  proof (cases "p \<le> q \<and> q \<le> p + unat (num_bytes v)")
    case True
    then have "m q \<noteq> None"
      using acc unfolding accessible_def by (metis le_add_diff_inverse nat_add_left_cancel_le less_Suc_eq_le)
    then show ?thesis using copy_out_lookup [OF copy, of q] True by auto
  next
    case False
    then show ?thesis using copy_out_lookup [OF copy, of q] by auto
  qed
  then show "dom m' = dom m" by (auto simp: dom_def)
qed

lemma copy_value_frame [keeps_rules]: "keeps (buffer_frame p) (copy_value p v)"
proof (rule keepsI)
  fix s :: "('a, 'b) client_state"
  show "buffer_frame p s (snd (copy_value p v s))"
    by (auto simp: copy_value_def buffer_frame_def mem_frame_def only_io_iff dom_copy_out
        dest: copy_out_frame split: option.split)
qed

lemma with_client_io [keeps_rules]:
  assumes "\<And>c. keeps R (f c)" and "reflp R"
  shows "keeps R (with_client f)"
  using assms by (auto simp: keeps_def with_client_def reflp_def split: option.split)

lemma catch_std_keeps [keeps_rules]:
  assumes "reflp R" and "\<And>e. keeps R (h e)"
  shows "keeps R (catch_std E h e)"
  unfolding catch_std_def by (intro keeps_rules assms)

section \<open>The request interface\<close>

text \<open>
  What \<open>kv739_get\<close> and \<open>kv739_put\<close> rely on from the RPC layer: sending a request changes only
  the diagnostics and the world. What they make of a response (return 1 when nothing was found,
  copy one of its fields into the caller's buffer otherwise) is proved once from that.
\<close>

locale request_channel =
  fixes send :: "(('w, 'q) client_state, exn, kvstore_response) prog"
  assumes send_io: "keeps only_io send"
begin

lemma exchange_frame:
  "keeps (buffer_frame p) (bind send (\<lambda>response.
     if \<not> resp_found response then ret (1 :: int) else bind (copy_value p (f response)) (\<lambda>_. ret 0)))"
  by (intro keeps_rules keeps_mono [OF send_io only_io_buffer_frame])

lemma exchange_found:
  assumes "send s = (Val response, u)" and "resp_found response" and "copy_out (mem s) p (f response) = Some m"
  shows "bind send (\<lambda>response.
     if \<not> resp_found response then ret (1 :: int) else bind (copy_value p (f response)) (\<lambda>_. ret 0)) s = (Val 0, u\<lparr>mem := m\<rparr>)"
proof -
  have "mem u = mem s" using keepsD [OF send_io assms(1)] by (simp add: only_io_iff)
  then show ?thesis using assms by (simp add: copy_value_def bind_def)
qed

lemma exchange_missing:
  assumes "send s = (Val response, u)" and "\<not> resp_found response"
  shows "bind send (\<lambda>response.
     if \<not> resp_found response then ret (1 :: int) else bind (copy_value p (f response)) (\<lambda>_. ret 0)) s = (Val 1, u)"
  using assms by simp

lemma exchange_codes:
  assumes "bind send (\<lambda>response.
     if \<not> resp_found response then ret (1 :: int) else bind (copy_value p (f response)) (\<lambda>_. ret 0)) s = (Val r, t)"
  shows "r = 0 \<or> r = 1 \<and> mem t = mem s"
  using assms keepsD [OF send_io] by (auto simp: bind_Val_iff only_io_iff split: if_splits)

end

interpretation blocking: request_channel "with_client (\<lambda>c. sendRequest E c request node_id)"
  for E :: "('w, 'q) env" and request node_id
  by unfold_locales (intro keeps_rules)

lemma sendRequest_ok:
  assumes "slot (servers c) (unat node_id) = Some stub"
    and "env_contact E 500 stub request (world s) = (Val (Status_OK, response), w)"
  shows "sendRequest E c request node_id s = (Val response, s\<lparr>log := log s @ [Log_Sent node_id], world := w\<rparr>)"
  using assms by (simp add: sendRequest_def bind_def external_apply)

lemma sendRequest_failed:
  assumes "slot (servers c) (unat node_id) = Some stub"
    and "env_contact E 500 stub request (world s) = (Val (Status_Error code msg, response), w)"
  shows "sendRequest E c request node_id s =
    (Exc (Runtime_Error ''Failed to send request to server.''),
     s\<lparr>log := log s @ [Log_Send_Failure code msg], world := w\<rparr>)"
  using assms by (simp add: sendRequest_def bind_def external_apply)

lemma sendRequest_throws:
  assumes "slot (servers c) (unat node_id) = Some stub"
    and "env_contact E 500 stub request (world s) = (Exc e, w)"
  shows "sendRequest E c request node_id s = (Exc e, s\<lparr>world := w\<rparr>)"
  using assms by (simp add: sendRequest_def bind_def external_apply)

lemma kv739_get_frame: "buffer_frame v s (snd (kv739_get E key v s))"
proof -
  have "keeps (buffer_frame v) (try_catch
      (bind (with_client (\<lambda>c. sendRequest E c (get_request k) 0)) (\<lambda>response.
         if \<not> resp_found response then ret (1 :: int)
         else bind (copy_value v (resp_value response)) (\<lambda>_. ret 0)))
      (catch_std E (\<lambda>e. bind (write_log (Log_Get_Failed e)) (\<lambda>_. ret (- 1)))))" for k
    by (rule keeps_try_catch [OF _ blocking.exchange_frame]) (intro keeps_rules)+
  then show ?thesis
    using only_io_buffer_frame [of s s v]
    by (auto simp: kv739_get_def keeps_def only_io_iff split: option.split)
qed

section \<open>Ownership\<close>

text \<open>The hosts named by a server address, as the constructor splits it.\<close>

abbreviation hosts_of :: "string \<Rightarrow> string list" where
  "hosts_of address \<equiv> getline_all (CHR '';'') address"

text \<open>
  The client pointer owns everything: when it is null no stub and no thread is alive, otherwise
  exactly the \<open>n\<close> stubs and \<open>n\<close> threads of the object it points to.
\<close>

definition client_inv :: "nat \<Rightarrow> ('w, 'q) client_state \<Rightarrow> bool" where
  "client_inv n s \<longleftrightarrow>
     (case kv_client s of
        None \<Rightarrow> live_stubs s = 0 \<and> live_threads s = 0
      | Some c \<Rightarrow> (\<exists>hosts. connected c hosts \<and> length hosts = n) \<and> unat (g_num_servers s) = n \<and>
                 live_stubs s = int n \<and> live_threads s = int n)"

lemma client_inv_only_io: "only_io s t \<Longrightarrow> client_inv n s \<Longrightarrow> client_inv n t"
  by (auto simp: client_inv_def only_io_iff split: option.splits)

lemma client_inv_simps [simp]:
  "client_inv n (s\<lparr>world := w\<rparr>) = client_inv n s" "client_inv n (s\<lparr>log := l\<rparr>) = client_inv n s"
  "client_inv n (s\<lparr>current_leader := a\<rparr>) = client_inv n s" "client_inv n (s\<lparr>server_list := x\<rparr>) = client_inv n s"
  "client_inv n (s\<lparr>mem := m\<rparr>) = client_inv n s"
  by (simp_all add: client_inv_def split: option.split)

text \<open>
  Replacing the object by one for as many hosts keeps the invariant: the old object is
  destroyed with the new count, which is the same.
\<close>

lemma connect_ok:
  assumes "opens E" and "queues_drain E" and "length (hosts_of address) = n" and "n < 2 ^ 32"
    and "client_inv n s"
  shows "\<exists>c t. connect E address s = (Val (), t) \<and> kv_client t = Some c \<and> connected c (hosts_of address) \<and>
           client_inv n t \<and> server_list t = server_list s \<and> current_leader t = current_leader s \<and> mem t = mem s"
proof -
  obtain c u where c: "KvstoreRPCClient E address s = (Val c, u)" "connected c (hosts_of address)"
    "same_globals s u" "unat (g_num_servers u) = n" "live_stubs u = live_stubs s + int n"
    "live_threads u = live_threads s + int n"
    using KvstoreRPCClient_connects [of E address s] assms by auto
  let ?u = "u\<lparr>kv_client := Some c\<rparr>"
  show ?thesis
  proof (cases "kv_client s")
    case None
    then have "connect E address s = (Val (), ?u)"
      using c(1,3) by (simp add: connect_def assign_client_def same_globals_iff)
    then show ?thesis
      using None c assms(3,5) by (auto simp: client_inv_def same_globals_iff)
  next
    case (Some old)
    then obtain hosts where old: "connected old hosts" "length hosts = n"
      using assms(5) by (auto simp: client_inv_def)
    obtain t where t: "destroy_KvstoreRPCClient E old ?u = (Val (), t)" "same_globals ?u t"
      "g_num_servers t = g_num_servers ?u"
      "live_stubs t = live_stubs ?u - int n" "live_threads t = live_threads ?u - int n"
      using destroy_KvstoreRPCClient_ok [OF assms(2) old(1), of ?u] old(2) c(4) by auto
    have "connect E address s = (Val (), t)"
      using Some c(1,3) t(1) by (simp add: connect_def assign_client_def same_globals_iff)
    then show ?thesis
      using Some c t assms(3,5) by (auto simp: client_inv_def same_globals_iff)
  qed
qed

text \<open>One redirected round of the retry loop.\<close>

lemma put_loop_redirected:
  assumes "opens E" and "queues_drain E" and "kv_client s = Some c" and "slot (servers c) 0 = Some stub"
    and "client_inv n s" and "length (hosts_of a) = n" and "n < 2 ^ 32"
    and "env_contact E 500 stub (put_request k x) (world s) = (Exc (Leader_Redirect a), w)"
  obtains c' u where "put_loop E k x old (Suc m) s = put_loop E k x old m u" and "kv_client u = Some c'"
    and "connected c' (hosts_of a)" and "client_inv n u" and "current_leader u = a" and "mem u = mem s"
proof -
  let ?s = "s\<lparr>world := w, log := log s @ [Log_Redirected a], current_leader := a\<rparr>"
  have first: "put_attempt E k x old s = (Exc (Leader_Redirect a), s\<lparr>world := w\<rparr>)"
    using assms(3,4) sendRequest_throws [OF _ assms(8), of c 0]
    by (simp add: put_attempt_def with_client_def bind_def)
  have "client_inv n ?s" using assms(5) by simp
  then obtain c' u where "connect E a ?s = (Val (), u)" "kv_client u = Some c'" "connected c' (hosts_of a)"
    "client_inv n u" "current_leader u = a" "mem u = mem s"
    using connect_ok [OF assms(1,2,6,7)] by fastforce
  then show thesis using first that by simp
qed

lemma connect_mem [keeps_rules]: "keeps (mem_frame p) (connect E address)"
proof -
  have "keeps (mem_frame p) (assign_client E c)" for c
  proof (rule keepsI)
    fix s :: "('a, 'b) client_state"
    show "mem_frame p s (snd (assign_client E c s))"
    proof (cases "kv_client s")
      case None
      then show ?thesis by (simp add: assign_client_def mem_frame_def)
    next
      case (Some old)
      let ?s = "s\<lparr>kv_client := c\<rparr>"
      obtain r t where t: "destroy_servers E old [0..<unat (g_num_servers s)] ?s = (r, t)" by fastforce
      then have "mem t = mem s" using destroy_servers_frame [OF t] by (simp add: same_globals_iff)
      then show ?thesis using Some t
        by (cases r) (simp_all add: assign_client_def destroy_KvstoreRPCClient_def mem_frame_def)
    qed
  qed
  then show ?thesis
    unfolding connect_def
    by (intro keeps_rules keeps_mono [OF KvstoreRPCClient_globals same_globals_mem_frame])
qed

lemma shutdown_assign_ok:
  assumes "queues_drain E" and "client_inv n s"
  shows "\<exists>t. assign_client E None s = (Val (), t) \<and> kv_client t = None \<and> client_inv n t"
proof (cases "kv_client s")
  case None
  then show ?thesis using assms(2) by (simp add: assign_client_def client_inv_def)
next
  case (Some old)
  let ?s = "s\<lparr>kv_client := None\<rparr>"
  from Some obtain hosts where old: "connected old hosts" "length hosts = n"
    using assms(2) by (auto simp: client_inv_def)
  obtain t where "destroy_KvstoreRPCClient E old ?s = (Val (), t)" "same_globals ?s t"
    "live_stubs t = live_stubs ?s - int n" "live_threads t = live_threads ?s - int n"
    using destroy_KvstoreRPCClient_ok [OF assms(1) old(1), of ?s] old(2) Some assms(2)
    by (auto simp: client_inv_def)
  then show ?thesis
    using Some assms(2) by (auto simp: assign_client_def client_inv_def same_globals_iff)
qed

section \<open>Counting redirections\<close>

definition redirects :: "('w, 'q) client_state \<Rightarrow> nat" where
  "redirects s = length (filter (\<lambda>e. case e of Log_Redirected _ \<Rightarrow> True | _ \<Rightarrow> False) (log s))"

text \<open>At most \<open>k\<close> redirections are reported between two states.\<close>

definition redirects_upto :: "nat \<Rightarrow> ('w, 'q) client_state \<Rightarrow> ('w, 'q) client_state \<Rightarrow> bool" where
  "redirects_upto k s t \<longleftrightarrow> redirects t \<le> redirects s + k"

lemma redirects_order [keeps_rules]: "reflp (redirects_upto k)" "transp (redirects_upto 0)"
  by (auto simp: redirects_upto_def intro!: reflpI transpI)

lemma redirects_bind:
  assumes "keeps (redirects_upto j) m" and "\<And>x. keeps (redirects_upto k) (f x)"
  shows "keeps (redirects_upto (j + k)) (bind m f)"
proof (rule keepsI)
  fix s
  obtain r u where m: "m s = (r, u)" by fastforce
  have "redirects u \<le> redirects s + j" using keepsD [OF assms(1) m] by (simp add: redirects_upto_def)
  moreover have "redirects (snd (f x u)) \<le> redirects u + k" for x
    using assms(2) [of x] by (simp add: keeps_def redirects_upto_def)
  ultimately have "redirects (snd (f x u)) \<le> redirects s + (j + k)" for x
    by (metis add.assoc add_le_cancel_right order_trans)
  with \<open>redirects u \<le> redirects s + j\<close> show "redirects_upto (j + k) s (snd (bind m f s))"
    using m by (cases r) (fastforce simp: redirects_upto_def)+
qed

lemma redirects_try_catch:
  assumes "keeps (redirects_upto 0) m" and "\<And>e. keeps (redirects_upto k) (h e)"
  shows "keeps (redirects_upto k) (try_catch m h)"
proof (rule keepsI)
  fix s
  obtain r u where m: "m s = (r, u)" by fastforce
  have "redirects u \<le> redirects s" using keepsD [OF assms(1) m] by (simp add: redirects_upto_def)
  moreover have "redirects (snd (h e u)) \<le> redirects u + k" for e
    using assms(2) [of e] by (simp add: keeps_def redirects_upto_def)
  ultimately have "redirects (snd (h e u)) \<le> redirects s + k" for e
    by (metis add_le_cancel_right order_trans)
  with \<open>redirects u \<le> redirects s\<close> show "redirects_upto k s (snd (try_catch m h s))"
    using m by (cases r) (fastforce simp: redirects_upto_def)+
qed

lemma redirects_io [keeps_rules]:
  "keeps (redirects_upto k) (external f)"
  "(\<And>a. e \<noteq> Log_Redirected a) \<Longrightarrow> keeps (redirects_upto k) (write_log e)"
  "keeps (redirects_upto 1) (write_log (Log_Redirected a))"
  "keeps (redirects_upto k) (copy_value p v)"
  by (auto simp: keeps_def redirects_upto_def redirects_def external_apply copy_value_def
      split: log_event.split option.split)

lemma redirects_sendRequest [keeps_rules]: "keeps (redirects_upto 0) (sendRequest E c request node_id)"
  unfolding sendRequest_def by (intro keeps_rules) simp_all

lemma completion_event_not_redirect: "completion_event i call \<noteq> Log_Redirected a"
  by (simp add: completion_event_def sendRequestDone_def split: status.split request_type.split)

lemma redirects_init_servers [keeps_rules]: "keeps (redirects_upto 0) (init_servers E hosts node_id c)"
proof (induction hosts arbitrary: node_id c)
  case Nil
  show ?case unfolding init_servers.simps by (intro keeps_rules)
next
  case (Cons host hosts)
  show ?case unfolding init_servers.simps
    by (intro keeps_rules Cons.IH) (simp_all add: redirects_upto_def redirects_def)
qed

lemma redirects_destroy_servers: "redirects (snd (destroy_servers E c is s)) = redirects s"
proof (induction E c "is" s rule: destroy_servers.induct)
  case (2 E c i "is" s)
  show ?case
  proof (cases "slot (servers c) i")
    case (Some stub)
    note stub = Some
    show ?thesis
    proof (cases "slot (threads c) i")
      case (Some node)
      note node = Some
      show ?thesis
      proof (cases "AsyncCompleteRpc (env_cq_next E) node (env_cq_shutdown E (stub_cq stub)) (log s) (live_calls s)")
        case (Some r)
        then obtain calls q' where d: "delivers (env_cq_next E) (env_cq_shutdown E (stub_cq stub)) calls q'"
          by (auto dest: AsyncCompleteRpc_returns)
        have "filter (\<lambda>e. case e of Log_Redirected _ \<Rightarrow> True | _ \<Rightarrow> False) (map (completion_event node) calls) = []"
          by (auto simp: filter_empty_conv completion_event_not_redirect split: log_event.splits)
        then show ?thesis
          using stub node AsyncCompleteRpc_delivers [OF d, of node "log s" "live_calls s"] "2.IH"
          by (simp add: redirects_def)
      qed (use stub node in simp)
    qed (use stub in simp)
  qed simp
qed simp

lemma redirects_connect [keeps_rules]: "keeps (redirects_upto 0) (connect E address)"
proof -
  have "keeps (redirects_upto 0) (KvstoreRPCClient E address)"
    unfolding KvstoreRPCClient_def
    by (intro keeps_rules) (simp_all add: redirects_upto_def redirects_def)
  moreover have "keeps (redirects_upto 0) (assign_client E c)" for c
  proof (rule keepsI)
    fix s :: "('a, 'b) client_state"
    show "redirects_upto 0 s (snd (assign_client E c s))"
    proof (cases "kv_client s")
      case None
      then show ?thesis by (simp add: assign_client_def redirects_upto_def redirects_def)
    next
      case (Some old)
      obtain r t where t: "destroy_servers E old [0..<unat (g_num_servers s)] (s\<lparr>kv_client := c\<rparr>) = (r, t)"
        by fastforce
      then have "redirects t = redirects s"
        using redirects_destroy_servers [of E old "[0..<unat (g_num_servers s)]" "s\<lparr>kv_client := c\<rparr>"]
        by (simp add: redirects_def)
      then show ?thesis using Some t
        by (cases r) (simp_all add: assign_client_def destroy_KvstoreRPCClient_def redirects_upto_def redirects_def)
    qed
  qed
  ultimately show ?thesis
    unfolding connect_def by (intro keeps_bind redirects_order)
qed

lemma redirects_put_attempt [keeps_rules]: "keeps (redirects_upto 0) (put_attempt E k x old)"
  unfolding put_attempt_def by (intro keeps_rules)

lemma redirects_put_loop: "keeps (redirects_upto n) (put_loop E k x old n)"
proof (induction n)
  case 0
  show ?case unfolding put_loop.simps by (intro keeps_rules)
next
  case (Suc n)
  have failed: "keeps (redirects_upto (1 + n)) (catch_std E (\<lambda>e. bind (write_log (Log_Put_Failed e)) (\<lambda>_. ret (- 1 :: int))) e)" for e
    by (rule keepsI) (simp add: catch_std_def redirects_upto_def redirects_def)
  have "keeps (redirects_upto (1 + n)) (case e of
      Leader_Redirect address \<Rightarrow> bind (write_log (Log_Redirected address)) (\<lambda>_.
        bind (modify (\<lambda>s. s\<lparr>current_leader := address\<rparr>)) (\<lambda>_.
        bind (connect E address) (\<lambda>_. put_loop E k x old n)))
    | _ \<Rightarrow> catch_std E (\<lambda>e. bind (write_log (Log_Put_Failed e)) (\<lambda>_. ret (- 1))) e)" for e
  proof (cases e)
    case (Leader_Redirect address)
    have "keeps (redirects_upto (0 + (0 + n))) (bind (modify (\<lambda>s. s\<lparr>current_leader := address\<rparr>)) (\<lambda>_.
        bind (connect E address) (\<lambda>_. put_loop E k x old n)))"
      by (intro redirects_bind redirects_connect Suc.IH keeps_modify) (simp add: redirects_upto_def redirects_def)
    then show ?thesis
      unfolding Leader_Redirect exn.case by (intro redirects_bind redirects_io(3)) simp
  qed (simp_all only: exn.case failed)
  then show ?case
    unfolding put_loop.simps plus_1_eq_Suc by (intro redirects_try_catch [OF redirects_put_attempt])
qed

section \<open>The invariant of a session\<close>

text \<open>
  What the environment must keep to: every address it names (in the configuration or in a
  redirection) lists the same number of hosts.
\<close>

definition uniform :: "('w, 'q) env \<Rightarrow> nat \<Rightarrow> bool" where
  "uniform E n \<longleftrightarrow> opens E \<and> queues_drain E \<and> n < 2 ^ 32 \<and>
     (\<forall>path w sl w'. env_read_server_list E path w = (Val sl, w') \<longrightarrow> (\<forall>a \<in> set sl. length (hosts_of a) = n)) \<and>
     (\<forall>stub r w a w'. env_contact E 500 stub r w = (Exc (Leader_Redirect a), w') \<longrightarrow> length (hosts_of a) = n)"

lemma try_server_inv:
  assumes "uniform E n" and "length (hosts_of a) = n" and "client_inv n s"
  shows "client_inv n (snd (try_server E a s))"
proof -
  obtain c u where u: "connect E a s = (Val (), u)" "kv_client u = Some c" "client_inv n u"
    using connect_ok [of E a n s] assms unfolding uniform_def by blast
  obtain r w where r: "env_is_leader E c (world u) = (r, w)" by fastforce
  show ?thesis
    using u r by (cases r) (auto simp: try_server_def try_catch_def bind_def with_client_def external_apply catch_std_def)
qed

lemma init_loop_inv:
  assumes "uniform E n" and "\<forall>a \<in> set sl. length (hosts_of a) = n" and "client_inv n s"
  shows "client_inv n (snd (init_loop E sl s))"
  using assms(2,3)
proof (induction sl arbitrary: s)
  case Nil
  then show ?case by simp
next
  case (Cons a sl)
  obtain r u where u: "try_server E a s = (r, u)" by fastforce
  have inv: "client_inv n u"
    using try_server_inv [OF assms(1), of a s] Cons.prems u by simp
  with u Cons show ?case
    by (cases r) (auto split: option.split)
qed

lemma put_loop_inv:
  assumes "uniform E n" and "client_inv n s"
  shows "client_inv n (snd (put_loop E k x old m s))"
  using assms(2)
proof (induction m arbitrary: s)
  case 0
  then show ?case by simp
next
  case (Suc m)
  obtain r u where u: "put_attempt E k x old s = (r, u)" by fastforce
  have "buffer_frame old s u"
    using keepsD [OF blocking.exchange_frame u [unfolded put_attempt_def]] .
  then have inv: "client_inv n u"
    using Suc.prems client_inv_only_io [of "s\<lparr>mem := mem u\<rparr>" u n] by (simp add: buffer_frame_def)
  show ?case
  proof (cases "\<exists>a. r = Exc (Leader_Redirect a)")
    case True
    then obtain a where a: "r = Exc (Leader_Redirect a)" by blast
    with u obtain stub w where "env_contact E 500 stub (put_request k x) (world s) = (Exc (Leader_Redirect a), w)"
      by (auto simp: put_attempt_def bind_def with_client_def sendRequest_def external_def copy_value_def
          split: prod.splits outcome.splits option.splits status.splits if_splits)
    then have "length (hosts_of a) = n" using assms(1) unfolding uniform_def by blast
    then obtain v where "connect E a (u\<lparr>log := log u @ [Log_Redirected a], current_leader := a\<rparr>) = (Val (), v)"
      "client_inv n v"
      using connect_ok [of E a n "u\<lparr>log := log u @ [Log_Redirected a], current_leader := a\<rparr>"] inv assms(1)
      unfolding uniform_def by auto
    then show ?thesis using a u Suc.IH by simp
  next
    case False
    with u inv show ?thesis
      by (auto simp: try_catch_def catch_std_def split: outcome.split exn.split)
  qed
qed

lemma run_call_inv:
  assumes "uniform E n" and "client_inv n s"
  shows "client_inv n (snd (run_call E call s))"
proof (cases call)
  case (Init config_file)
  have "client_inv n (snd (init_loop E sl (s\<lparr>world := w, server_list := sl\<rparr>)))"
    if "env_read_server_list E path (world s) = (Val sl, w)" for path sl w
  proof (rule init_loop_inv [OF assms(1)])
    show "\<forall>a \<in> set sl. length (hosts_of a) = n"
      using that assms(1) unfolding uniform_def by blast
  qed (use assms(2) in simp)
  with assms(2) Init show ?thesis
    by (auto simp: kv739_init_def bind_def external_def split: option.split prod.split outcome.split)
next
  case Shutdown
  have "client_inv n (snd (assign_client E None (s\<lparr>world := w\<rparr>)))" for w
    using shutdown_assign_ok [of E n "s\<lparr>world := w\<rparr>"] assms unfolding uniform_def by auto
  moreover obtain t where "assign_client E None (s\<lparr>world := w\<rparr>) = (Val (), t w)" for w
    using shutdown_assign_ok [of E n "s\<lparr>world := _\<rparr>"] assms unfolding uniform_def by (metis client_inv_simps(1))
  ultimately show ?thesis using assms(2) Shutdown
    by (auto simp: kv739_shutdown_def try_catch_def bind_def external_apply catch_std_def
        split: option.split prod.split outcome.split)
next
  case (Die server_name clean)
  with assms(2) show ?thesis
    by (auto simp: kv739_die_def try_catch_def with_client_def external_apply catch_std_def
        split: option.split prod.split outcome.split)
next
  case (Put key v old)
  with assms put_loop_inv [OF assms] show ?thesis
    by (auto simp: kv739_put_def split: option.split)
next
  case (Get key v)
  let ?t = "snd (kv739_get E key v s)"
  have "only_io (s\<lparr>mem := mem ?t\<rparr>) ?t"
    using kv739_get_frame [of v s E key] by (simp add: buffer_frame_def)
  then have "client_inv n ?t" by (rule client_inv_only_io) (use assms(2) in simp)
  with Get show ?thesis by simp
qed

lemma kv739_shutdown_ok:
  assumes "queues_drain E" and "client_inv n s"
    and "\<And>c w. fst (env_shutdown E c w) = Val () \<or> (\<exists>e. fst (env_shutdown E c w) = Exc e \<and> is_std E e)"
  shows "\<exists>r t. kv739_shutdown E s = (Val r, t) \<and> client_inv n t \<and>
           (r = 0 \<and> kv_client t = None \<and> live_stubs t = 0 \<and> live_threads t = 0 \<or>
            r = - 1 \<and> kv_client t = kv_client s)"
proof (cases "kv_client s")
  case None
  then show ?thesis using assms(2) by (simp add: kv739_shutdown_def client_inv_def)
next
  case (Some c)
  obtain r w where r: "env_shutdown E c (world s) = (r, w)" by fastforce
  from assms(3) [of c "world s"] r consider "r = Val ()" | e where "r = Exc e" "is_std E e" by auto
  then show ?thesis
  proof cases
    case 1
    have "client_inv n (s\<lparr>world := w\<rparr>)" using assms(2) by simp
    then obtain t where t: "assign_client E None (s\<lparr>world := w\<rparr>) = (Val (), t)" "kv_client t = None" "client_inv n t"
      using shutdown_assign_ok [OF assms(1)] by blast
    then have "kv739_shutdown E s = (Val 0, t)"
      using Some r 1 by (simp add: kv739_shutdown_def try_catch_def bind_def external_apply)
    then show ?thesis using t by (simp add: client_inv_def)
  next
    case 2
    then have "kv739_shutdown E s = (Val (- 1), s\<lparr>world := w, log := log s @ [Log_Shutdown_Error e]\<rparr>)"
      using Some r by (simp add: kv739_shutdown_def try_catch_def bind_def external_apply catch_std_def)
    then show ?thesis using assms(2) by simp
  qed
qed

section \<open>The driver\<close>

text \<open>An outside call that returns, or throws what the client's handlers catch.\<close>

definition answers :: "('w, 'q) env \<Rightarrow> (exn, 'a) outcome \<Rightarrow> bool" where
  "answers E r \<longleftrightarrow> (\<exists>v. r = Val v) \<or> (\<exists>e. r = Exc e \<and> is_std E e)"

definition civil :: "('w, 'q) env \<Rightarrow> bool" where
  "civil E \<longleftrightarrow> (\<forall>path w. \<exists>sl w'. env_read_server_list E path w = (Val sl, w')) \<and>
     (\<forall>c w. answers E (fst (env_is_leader E c w))) \<and> (\<forall>c w. answers E (fst (env_shutdown E c w))) \<and>
     (\<forall>c name clean w. answers E (fst (env_terminate E c name clean w)))"

lemma try_server_returns:
  assumes "uniform E n" and "civil E" and "length (hosts_of a) = n" and "client_inv n s"
  shows "\<exists>r t. try_server E a s = (Val r, t) \<and> (r = None \<or> r = Some 0) \<and> client_inv n t \<and> kv_client t \<noteq> None \<and> mem t = mem s"
proof -
  obtain c u where u: "connect E a s = (Val (), u)" "kv_client u = Some c" "client_inv n u" "mem u = mem s"
    using connect_ok [of E a n s] assms unfolding uniform_def by blast
  obtain r w where r: "env_is_leader E c (world u) = (r, w)" by fastforce
  have "answers E (fst (env_is_leader E c (world u)))" using assms(2) unfolding civil_def by blast
  then have "answers E r" using r by simp
  then show ?thesis
    using u r by (cases r) (auto simp: answers_def try_server_def try_catch_def bind_def with_client_def external_apply catch_std_def)
qed

lemma init_loop_returns:
  assumes "uniform E n" and "civil E"
  shows "client_inv n s \<Longrightarrow> \<forall>a \<in> set sl. length (hosts_of a) = n \<Longrightarrow>
    \<exists>r t. init_loop E sl s = (Val r, t) \<and> client_inv n t \<and> mem t = mem s \<and> (r = - 1 \<or> r = 0 \<and> kv_client t \<noteq> None)"
proof (induction sl arbitrary: s)
  case (Cons a sl)
  obtain r t where t: "try_server E a s = (Val r, t)" "r = None \<or> r = Some 0" "client_inv n t" "kv_client t \<noteq> None" "mem t = mem s"
    using try_server_returns [OF assms, of a s] Cons.prems by auto
  then show ?case using Cons.IH [OF t(3)] Cons.prems(2) by auto
qed simp

lemma kv739_init_returns:
  assumes "uniform E n" and "civil E" and "client_inv n s" and "std_string (mem s) config_file = Some path"
  shows "\<exists>r t. kv739_init E config_file s = (Val r, t) \<and> client_inv n t \<and> mem t = mem s \<and> (r = - 1 \<or> r = 0 \<and> kv_client t \<noteq> None)"
proof -
  obtain sl w where sl: "env_read_server_list E path (world s) = (Val sl, w)"
    using assms(2) unfolding civil_def by blast
  then have "\<forall>a \<in> set sl. length (hosts_of a) = n" using assms(1) unfolding uniform_def by blast
  then show ?thesis
    using init_loop_returns [OF assms(1,2), of "s\<lparr>world := w, server_list := sl\<rparr>" sl] assms(3,4) sl
    by (simp add: kv739_init_def bind_def external_def)
qed

lemma kv739_die_returns:
  assumes "civil E" and "client_inv n s" and "kv_client s \<noteq> None" and "std_string (mem s) server_name = Some name"
  shows "\<exists>r t. kv739_die E server_name clean s = (Val r, t) \<and> client_inv n t"
proof -
  obtain c where c: "kv_client s = Some c" using assms(3) by blast
  obtain r w where r: "env_terminate E c name clean (world s) = (r, w)" by fastforce
  have "answers E (fst (env_terminate E c name clean (world s)))" using assms(1) unfolding civil_def by blast
  then have "answers E r" using r by simp
  then show ?thesis
    using assms(2,4) c r by (cases r) (auto simp: answers_def kv739_die_def try_catch_def with_client_def external_apply catch_std_def)
qed

interpretation session: invariant_system fresh "\<lambda>s t. uniform E n \<and> session_step E s t" "client_inv n"
  for E :: "('w, 'q) env" and n
proof unfold_locales
  show "client_inv n s" if "fresh s" for s :: "('w, 'q) client_state"
    using that by (simp add: fresh_def client_inv_def)
  show "client_inv n t" if "client_inv n s" "uniform E n \<and> session_step E s t" for s t
    using that run_call_inv [of E n s] by (auto elim!: session_step.cases) (metis snd_conv)+
qed

end
