(* ===== verification/Sample_Env.thy ===== *)
theory Sample_Env
  imports Kv_Client
begin

text \<open>
  A concrete environment for closed examples: a key-value server that is reached at one
  address (\<open>b\<close> in the examples), answers every other address with a redirection to it, keeps its pairs in a map and
  delivers the asynchronous completions of a queue in order. It shows that the assumptions
  which theorems make about the code outside the repository can hold together.
\<close>

record sample_world =
  pairs :: "string \<rightharpoonup> string"
  leader_host :: string

definition sample_reply :: "string option \<Rightarrow> request_type \<Rightarrow> kvstore_response" where
  "sample_reply v t =
     \<lparr>resp_found = (v \<noteq> None), resp_value = (case v of None \<Rightarrow> [] | Some x \<Rightarrow> x),
      resp_old_value = (case v of None \<Rightarrow> [] | Some x \<Rightarrow> x), resp_type = t\<rparr>"

definition sample_contact ::
  "nat \<Rightarrow> async_call list rpc_stub \<Rightarrow> kvstore_request \<Rightarrow> sample_world \<Rightarrow> (exn, (status \<times> kvstore_response)) outcome \<times> sample_world" where
  "sample_contact deadline stub r w =
     (if stub_url stub \<noteq> server_url (leader_host w) then (Exc (Leader_Redirect (leader_host w)), w)
      else if req_type r = GET_REQ then
        (Val (Status_OK, sample_reply (pairs w (req_key r)) GET_REQ), w)
      else if req_type r = PUT_REQ then
        (Val (Status_OK, sample_reply (pairs w (req_key r)) PUT_REQ), w\<lparr>pairs := (pairs w)(req_key r \<mapsto> req_value r)\<rparr>)
      else (Val (Status_Error 12 ''unimplemented'', sample_reply None (req_type r)), w))"

definition sample_env :: "string list \<Rightarrow> (sample_world, async_call list) env" where
  "sample_env hosts =
     \<lparr>env_read_server_list = (\<lambda>path w. (Val hosts, w)),
      env_new_stub = (\<lambda>url w. (Val [], w)),
      env_new_thread = (\<lambda>i w. (Val (), w)),
      env_contact = sample_contact,
      env_is_leader = (\<lambda>c w. (Val (map (map_option stub_url) (servers c) = [Some (server_url ''b'')]), w)),
      env_shutdown = (\<lambda>c w. (Val (), w)),
      env_terminate = (\<lambda>c name clean w. (Val 0, w)),
      env_start_call = (\<lambda>deadline r q.
        q @ [\<lparr>call_request = r, call_reply = sample_reply None (req_type r), call_status = Status_OK\<rparr>]),
      env_cq_next = (\<lambda>q. case q of [] \<Rightarrow> (None, []) | call # rest \<Rightarrow> (Some (call, True), rest)),
      env_cq_shutdown = (\<lambda>q. q),
      env_redirect_is_std = True\<rparr>"

text \<open>
  Memory of the examples: the C string \<open>k\<close> at 16, the C string \<open>new\<close> at 32, the path
  \<open>c\<close> at 48 and a buffer of 2048 bytes at 4096.
\<close>

definition sample_mem :: memory where
  "sample_mem = (\<lambda>a.
     if 4096 \<le> a \<and> a < 6144 then Some NUL
     else [16 \<mapsto> CHR ''k'', 17 \<mapsto> NUL, 32 \<mapsto> CHR ''n'', 33 \<mapsto> CHR ''e'', 34 \<mapsto> CHR ''w'', 35 \<mapsto> NUL,
           48 \<mapsto> CHR ''c'', 49 \<mapsto> NUL] a)"

definition sample_client :: "string \<Rightarrow> async_call list rpc_client" where
  "sample_client host = \<lparr>servers = [Some \<lparr>stub_url = server_url host, stub_cq = []\<rparr>], threads = [Some 0]\<rparr>"

definition sample_state :: "string option \<Rightarrow> (sample_world, async_call list) client_state" where
  "sample_state host =
     \<lparr>kv_client = map_option sample_client host, server_list = [], current_leader = [], g_num_servers = 1,
      mem = sample_mem, log = [], world = \<lparr>pairs = [''k'' \<mapsto> ''old''], leader_host = ''b''\<rparr>,
      live_stubs = (if host = None then 0 else 1), live_threads = (if host = None then 0 else 1), live_calls = 0\<rparr>"

lemma sample_opens: "opens (sample_env hosts)"
  by (simp add: opens_def sample_env_def)

lemma sample_delivers: "delivers (env_cq_next (sample_env hosts)) q q []"
proof (induction q)
  case Nil
  show ?case by (rule delivers.drained) (simp add: sample_env_def)
next
  case (Cons call q)
  show ?case by (rule delivers.event [OF _ Cons.IH, of _ _ True]) (simp add: sample_env_def)
qed

lemma sample_queues_drain: "queues_drain (sample_env hosts)"
  using sample_delivers [of hosts] unfolding queues_drain_def by (force simp: sample_env_def)

lemma sample_connected: "connected (sample_client host) [host]"
  by (simp add: connected_def sample_client_def)

lemma sample_strings:
  "std_string sample_mem 16 = Some ''k''" "std_string sample_mem 32 = Some ''new''"
  "std_string sample_mem 48 = Some ''c''"
  by (simp_all add: std_string_def c_string.simps sample_mem_def)

lemma sample_buffer: "accessible sample_mem 4096 2048"
  by (simp add: accessible_def sample_mem_def)

lemma sample_overlap: "accessible sample_mem 32 (Suc (Suc (Suc (Suc 0))))"
proof -
  have "i = 0 \<or> i = 1 \<or> i = 2 \<or> i = 3" if "i < Suc (Suc (Suc (Suc 0)))" for i :: nat
    using that by linarith
  then show ?thesis by (force simp: accessible_def sample_mem_def)
qed

lemma sample_host [simp]: "hosts_of [c] = [[c]]" if "c \<noteq> CHR '';''"
  using that by (intro getline_all_last) auto

lemma sample_inv: "client_inv (Suc 0) (sample_state host)"
  by (cases host) (auto simp: client_inv_def sample_state_def intro!: exI [of _ "[_]"] sample_connected)

text \<open>
  A cluster whose leader has moved to \<open>b\<close>: every other server answers with a redirection. With
  no value to report, \<open>b\<close> redirects to itself.
\<close>

definition moved_env :: "string option \<Rightarrow> (sample_world, async_call list) env" where
  "moved_env v = (sample_env [''a'', ''b''])\<lparr>env_contact := (\<lambda>deadline stub r w.
     if stub_url stub = server_url ''b'' \<and> v \<noteq> None then (Val (Status_OK, sample_reply v (req_type r)), w)
     else (Exc (Leader_Redirect ''b''), w))\<rparr>"

lemma moved_env_ok: "opens (moved_env v)" "queues_drain (moved_env v)"
  using sample_opens sample_queues_drain
  by (simp_all add: moved_env_def opens_def queues_drain_def sample_env_def)

lemma moved_uniform: "uniform (moved_env v) 1"
proof -
  have "length (hosts_of ''a'') = 1" "length (hosts_of ''b'') = 1" by simp_all
  then show ?thesis
    unfolding uniform_def using moved_env_ok by (auto simp: moved_env_def sample_env_def split: if_splits)
qed

lemma moved_init: "\<exists>t. kv739_init (moved_env v) 48 (sample_state None) = (Val 0, t) \<and> current_leader t = ''b''"
  by (simp add: kv739_init_def init_loop.simps try_server_def try_catch_def connect_def KvstoreRPCClient_def
      bind_def external_def with_client_def assign_client_def destroy_KvstoreRPCClient_def AsyncCompleteRpc.simps
      slot_def moved_env_def sample_env_def sample_state_def sample_strings server_url_def Let_def)

text \<open>A cluster that redirects every request to one given address.\<close>

definition wide_env :: "string \<Rightarrow> (sample_world, async_call list) env" where
  "wide_env a = (sample_env [''a''])\<lparr>env_contact := (\<lambda>deadline stub r w. (Exc (Leader_Redirect a), w))\<rparr>"

lemma wide_env_ok: "opens (wide_env a)" "queues_drain (wide_env a)"
  using sample_opens sample_queues_drain
  by (simp_all add: wide_env_def opens_def queues_drain_def sample_env_def)

lemma sample_two_hosts: "hosts_of ''b;c'' = [''b'', ''c'']" "hosts_of ''a;b'' = [''a'', ''b'']"
  using getline_all_join [of "[''b'', ''c'']" "CHR '';''"] getline_all_join [of "[''a'', ''b'']" "CHR '';''"]
  by simp_all

end
