(* ===== verification/Client_Properties.thy ===== *)
theory Client_Properties
  imports Kv_Client Sample_Env
begin

text \<open>
  The properties of the C++ client: the functional behaviour of the five entry points on
  every branch, what they may write, how redirections are followed, and the ownership of
  stubs and threads by the global client pointer.
\<close>

section \<open>kv739\_get\<close>

text \<open>
  C1. When the key is present, \<open>kv739_get\<close> returns 0 and the caller's buffer holds, as a C
  string, the stored value cut at 2047 bytes (and at its first NUL byte, if it has one). Nothing
  outside the 2048 bytes of the buffer changes.
\<close>

theorem kv739_get_found:
  assumes client: "kv_client s = Some c" "slot (servers c) 0 = Some stub"
    and key: "key \<noteq> NULL" "std_string (mem s) key = Some k"
    and buffer: "v \<noteq> NULL" "accessible (mem s) v (Suc (min 2047 (length (resp_value response))))"
      "v + 2047 < addr_limit"
    and reply: "env_contact E 500 stub (get_request k) (world s) = (Val (Status_OK, response), w)"
      "resp_found response" "length (resp_value response) < 2 ^ 64"
  shows "\<exists>t. kv739_get E key v s = (Val 0, t) \<and>
           c_string (mem t) v = Some (takeWhile (\<lambda>b. b \<noteq> NUL) (take 2047 (resp_value response))) \<and>
           buffer_frame v s t \<and> world t = w"
proof -
  let ?u = "s\<lparr>log := log s @ [Log_Sent 0], world := w\<rparr>"
  have send: "with_client (\<lambda>c. sendRequest E c (get_request k) 0) s = (Val response, ?u)"
    using client sendRequest_ok [OF _ reply(1), of c 0] by (simp add: with_client_def)
  obtain m where m: "copy_out (mem s) v (resp_value response) = Some m"
    using copy_out_enough [OF buffer(2) reply(3)] by blast
  note exchange = blocking.exchange_found [where f = resp_value, OF send reply(2) m]
  have "kv739_get E key v s = (Val 0, ?u\<lparr>mem := m\<rparr>)"
    using key buffer(1) exchange by (simp add: kv739_get_def)
  moreover have "buffer_frame v s (?u\<lparr>mem := m\<rparr>)"
    using blocking.exchange_frame exchange by (rule keepsD)
  ultimately show ?thesis
    using copy_out_reads_back [OF m reply(3) buffer(3)] by simp
qed

theorem kv739_get_found_witness:
  "\<exists>t. kv739_get (sample_env []) 16 4096 (sample_state (Some ''b'')) = (Val 0, t) \<and>
     c_string (mem t) 4096 = Some ''old'' \<and>
     buffer_frame 4096 (sample_state (Some ''b'')) t"
proof -
  let ?s = "sample_state (Some ''b'')" and ?E = "sample_env []"
  have "\<exists>t. kv739_get ?E 16 4096 ?s = (Val 0, t) \<and>
     c_string (mem t) 4096 = Some (takeWhile (\<lambda>b. b \<noteq> NUL) (take 2047 (resp_value (sample_reply (Some ''old'') GET_REQ)))) \<and>
     buffer_frame 4096 ?s t \<and> world t = world ?s"
  proof (rule kv739_get_found)
    show "kv_client ?s = Some (sample_client ''b'')" by (simp add: sample_state_def)
    show "slot (servers (sample_client ''b'')) 0 = Some \<lparr>stub_url = server_url ''b'', stub_cq = []\<rparr>"
      by (simp add: sample_client_def slot_def)
    show "env_contact ?E 500 \<lparr>stub_url = server_url ''b'', stub_cq = []\<rparr> (get_request ''k'') (world ?s) =
        (Val (Status_OK, sample_reply (Some ''old'') GET_REQ), world ?s)"
      by (simp add: sample_env_def sample_contact_def sample_state_def get_request_def)
  qed (simp_all add: sample_state_def sample_strings sample_reply_def accessible_mono [OF sample_buffer])
  then show ?thesis by (auto simp: sample_reply_def)
qed

text \<open>
  When the server answers that the key is absent, \<open>kv739_get\<close> returns 1; when the call
  fails, it returns -1. In both cases the caller's memory is untouched.
\<close>

theorem kv739_get_not_found:
  assumes "kv_client s = Some c" and "slot (servers c) 0 = Some stub"
    and "key \<noteq> NULL" and "v \<noteq> NULL" and "std_string (mem s) key = Some k"
    and "env_contact E 500 stub (get_request k) (world s) = (Val (st, response), w)"
    and "st = Status_OK \<Longrightarrow> \<not> resp_found response"
  shows "\<exists>t. kv739_get E key v s = (Val (if st = Status_OK then 1 else - 1), t) \<and> only_io s t"
proof (cases st)
  case Status_OK
  let ?u = "s\<lparr>log := log s @ [Log_Sent 0], world := w\<rparr>"
  have "with_client (\<lambda>c. sendRequest E c (get_request k) 0) s = (Val response, ?u)"
    using assms(1,2,6) Status_OK sendRequest_ok [of c 0 stub E "get_request k" s response w]
    by (simp add: with_client_def)
  then show ?thesis
    using assms Status_OK by (simp add: kv739_get_def only_io_iff)
next
  case (Status_Error code msg)
  then have "with_client (\<lambda>c. sendRequest E c (get_request k) 0) s =
      (Exc (Runtime_Error ''Failed to send request to server.''),
       s\<lparr>log := log s @ [Log_Send_Failure code msg], world := w\<rparr>)"
    using assms(1,2,6) sendRequest_failed [of c 0 stub E "get_request k" s code msg response w]
    by (simp add: with_client_def)
  then show ?thesis
    using assms(3-5) Status_Error by (simp add: kv739_get_def catch_std_def only_io_iff)
qed

theorem kv739_get_not_found_witness:
  "\<exists>t. kv739_get (sample_env []) 32 4096 (sample_state (Some ''b'')) = (Val 1, t) \<and>
     only_io (sample_state (Some ''b'')) t"
proof -
  let ?s = "sample_state (Some ''b'')" and ?E = "sample_env []"
  have "\<exists>t. kv739_get ?E 32 4096 ?s = (Val (if Status_OK = Status_OK then 1 else - 1), t) \<and> only_io ?s t"
  proof (rule kv739_get_not_found)
    show "kv_client ?s = Some (sample_client ''b'')" by (simp add: sample_state_def)
    show "slot (servers (sample_client ''b'')) 0 = Some \<lparr>stub_url = server_url ''b'', stub_cq = []\<rparr>"
      by (simp add: sample_client_def slot_def)
    show "env_contact ?E 500 \<lparr>stub_url = server_url ''b'', stub_cq = []\<rparr> (get_request ''new'') (world ?s) =
        (Val (Status_OK, sample_reply None GET_REQ), world ?s)"
      by (simp add: sample_env_def sample_contact_def sample_state_def get_request_def)
  qed (simp_all add: sample_state_def sample_strings sample_reply_def)
  then show ?thesis by simp
qed

text \<open>
  C26. Whatever the servers and the network do and however the call ends, \<open>kv739_get\<close>
  changes nothing but the 2048 bytes of the caller's buffer, the diagnostics and the world:
  no other byte, no global, no stub, no thread.
\<close>

theorem kv739_get_safe: "buffer_frame v s (snd (kv739_get E key v s))"
  by (rule kv739_get_frame)

section \<open>kv739\_put\<close>

text \<open>
  C2. When the key had a value, \<open>kv739_put\<close> sends the key and the value the caller passed and
  returns 0 with the old value in the caller's buffer, cut at 2047 bytes. The buffer may overlap
  the key and the value: both are read before anything is written.
\<close>

theorem kv739_put_found:
  assumes client: "kv_client s = Some c" "slot (servers c) 0 = Some stub"
    and args: "key \<noteq> NULL" "v \<noteq> NULL" "std_string (mem s) key = Some k" "std_string (mem s) v = Some x"
    and buffer: "old \<noteq> NULL" "accessible (mem s) old (Suc (min 2047 (length (resp_old_value response))))"
      "old + 2047 < addr_limit"
    and reply: "env_contact E 500 stub (put_request k x) (world s) = (Val (Status_OK, response), w)"
      "resp_found response" "length (resp_old_value response) < 2 ^ 64"
  shows "\<exists>t. kv739_put E key v old s = (Val 0, t) \<and>
           c_string (mem t) old = Some (takeWhile (\<lambda>b. b \<noteq> NUL) (take 2047 (resp_old_value response))) \<and>
           buffer_frame old s t \<and> world t = w"
proof -
  let ?u = "s\<lparr>log := log s @ [Log_Sent 0], world := w\<rparr>"
  have send: "with_client (\<lambda>c. sendRequest E c (put_request k x) 0) s = (Val response, ?u)"
    using client sendRequest_ok [OF _ reply(1), of c 0] by (simp add: with_client_def)
  obtain m where m: "copy_out (mem s) old (resp_old_value response) = Some m"
    using copy_out_enough [OF buffer(2) reply(3)] by blast
  note exchange = blocking.exchange_found [where f = resp_old_value, OF send reply(2) m]
  have "kv739_put E key v old s = (Val 0, ?u\<lparr>mem := m\<rparr>)"
    using args buffer(1) exchange by (simp add: kv739_put_def numeral_3_eq_3 put_attempt_def)
  moreover have "buffer_frame old s (?u\<lparr>mem := m\<rparr>)"
    using blocking.exchange_frame exchange by (rule keepsD)
  ultimately show ?thesis
    using copy_out_reads_back [OF m reply(3) buffer(3)] by simp
qed

theorem kv739_put_found_witness:
  "\<exists>t. kv739_put (sample_env []) 16 32 32 (sample_state (Some ''b'')) = (Val 0, t) \<and>
     c_string (mem t) 32 = Some ''old'' \<and> pairs (world t) ''k'' = Some ''new''"
proof -
  let ?s = "sample_state (Some ''b'')" and ?E = "sample_env []"
  let ?w = "(world ?s)\<lparr>pairs := (pairs (world ?s))(''k'' \<mapsto> ''new'')\<rparr>"
  have "\<exists>t. kv739_put ?E 16 32 32 ?s = (Val 0, t) \<and>
     c_string (mem t) 32 = Some (takeWhile (\<lambda>b. b \<noteq> NUL) (take 2047 (resp_old_value (sample_reply (Some ''old'') PUT_REQ)))) \<and>
     buffer_frame 32 ?s t \<and> world t = ?w"
  proof (rule kv739_put_found)
    show "kv_client ?s = Some (sample_client ''b'')" by (simp add: sample_state_def)
    show "slot (servers (sample_client ''b'')) 0 = Some \<lparr>stub_url = server_url ''b'', stub_cq = []\<rparr>"
      by (simp add: sample_client_def slot_def)
    show "env_contact ?E 500 \<lparr>stub_url = server_url ''b'', stub_cq = []\<rparr> (put_request ''k'' ''new'') (world ?s) =
        (Val (Status_OK, sample_reply (Some ''old'') PUT_REQ), ?w)"
      by (simp add: sample_env_def sample_contact_def sample_state_def put_request_def)
    show "accessible (mem ?s) 32 (Suc (min 2047 (length (resp_old_value (sample_reply (Some ''old'') PUT_REQ)))))"
      using sample_overlap by (simp add: sample_reply_def sample_state_def)
  qed (simp_all add: sample_state_def sample_strings sample_reply_def)
  then show ?thesis by (auto simp: sample_reply_def)
qed

text \<open>
  C25. Whatever the servers answer, and over all its retries and reconnections, \<open>kv739_put\<close>
  writes no byte outside the 2048 bytes of the caller's old-value buffer.
\<close>

theorem kv739_put_safe: "mem_frame old s (snd (kv739_put E key v old s))"
proof -
  have buffer: "keeps (mem_frame old) m" if "keeps (buffer_frame old) m" for m :: "(('a, 'b) client_state, exn, int) prog"
    using that by (rule keeps_mono) (simp add: buffer_frame_def)
  have attempt: "keeps (mem_frame old) (put_attempt E k x old)" for k x
    unfolding put_attempt_def by (rule buffer [OF blocking.exchange_frame])
  have "keeps (mem_frame old) (put_loop E k x old n)" for k x n
  proof (induction n)
    case 0
    show ?case unfolding put_loop.simps by (intro keeps_rules)
  next
    case (Suc n)
    have "keeps (mem_frame old) (case e of
        Leader_Redirect address \<Rightarrow> bind (write_log (Log_Redirected address)) (\<lambda>_.
          bind (modify (\<lambda>s. s\<lparr>current_leader := address\<rparr>)) (\<lambda>_.
          bind (connect E address) (\<lambda>_. put_loop E k x old n)))
      | _ \<Rightarrow> catch_std E (\<lambda>e. bind (write_log (Log_Put_Failed e)) (\<lambda>_. ret (- 1))) e)" for e
      by (cases e) (simp_all only: exn.case, (intro keeps_rules Suc.IH; simp add: mem_frame_def)+)
    with attempt show ?case unfolding put_loop.simps by (intro keeps_try_catch mem_frame_order)
  qed
  then show ?thesis
    by (auto simp: kv739_put_def keeps_def mem_frame_def split: option.split)
qed

text \<open>
  C27. \<open>kv739_put\<close> follows at most three redirections, whatever the servers answer.
\<close>

theorem kv739_put_redirects: "redirects (snd (kv739_put E key v old s)) \<le> redirects s + 3"
proof -
  have "redirects (snd (put_loop E k x old 3 s)) \<le> redirects s + 3" for k x
    using redirects_put_loop [of 3 E k x old] by (simp add: keeps_def redirects_upto_def)
  then show ?thesis by (simp add: kv739_put_def split: option.split)
qed

text \<open>
  C24. A redirection is followed: \<open>kv739_put\<close> connects to the address it was given, which
  becomes the current leader, sends the same request there and returns 0 with the old value
  that the new leader reports. The replaced object releases its stubs and threads.
\<close>

theorem kv739_put_follows_redirect:
  assumes world_ok: "opens E" "queues_drain E"
    and client: "kv_client s = Some c" "slot (servers c) 0 = Some stub" "client_inv n s" "0 < n" "n < 2 ^ 32"
    and args: "key \<noteq> NULL" "v \<noteq> NULL" "std_string (mem s) key = Some k" "std_string (mem s) v = Some x"
    and buffer: "old \<noteq> NULL" "accessible (mem s) old (Suc (min 2047 (length (resp_old_value response))))"
      "old + 2047 < addr_limit"
    and redirect: "env_contact E 500 stub (put_request k x) (world s) = (Exc (Leader_Redirect a), w)"
      "length (hosts_of a) = n"
    and reply: "\<And>stub' w'. stub_url stub' = server_url (hosts_of a ! 0) \<Longrightarrow>
        env_contact E 500 stub' (put_request k x) w' = (Val (Status_OK, response), g w')"
      "resp_found response" "length (resp_old_value response) < 2 ^ 64"
  shows "\<exists>t. kv739_put E key v old s = (Val 0, t) \<and> current_leader t = a \<and> client_inv n t \<and>
           c_string (mem t) old = Some (takeWhile (\<lambda>b. b \<noteq> NUL) (take 2047 (resp_old_value response)))"
proof -
  obtain c' u where u: "put_loop E k x old (Suc 2) s = put_loop E k x old 2 u" "kv_client u = Some c'"
    "connected c' (hosts_of a)" "client_inv n u" "current_leader u = a" "mem u = mem s"
    using put_loop_redirected [OF world_ok client(1-3) redirect(2) client(5) redirect(1)] by blast
  obtain stub' where stub': "slot (servers c') 0 = Some stub'" "stub_url stub' = server_url (hosts_of a ! 0)"
    using connected_slot [OF u(3), of 0] redirect(2) client(4) by auto
  let ?t = "u\<lparr>log := log u @ [Log_Sent 0], world := g (world u)\<rparr>"
  have send: "with_client (\<lambda>c. sendRequest E c (put_request k x) 0) u = (Val response, ?t)"
    using u(2) stub' sendRequest_ok [OF _ reply(1), of c' 0 stub'] by (simp add: with_client_def)
  obtain m where m: "copy_out (mem u) old (resp_old_value response) = Some m"
    using copy_out_enough [OF buffer(2) reply(3)] u(6) by auto
  have second: "put_attempt E k x old u = (Val 0, ?t\<lparr>mem := m\<rparr>)"
    using blocking.exchange_found [where f = resp_old_value, OF send reply(2) m] by (simp add: put_attempt_def)
  have "kv739_put E key v old s = (Val 0, ?t\<lparr>mem := m\<rparr>)"
    using args buffer(1) u(1) second by (simp add: kv739_put_def eval_nat_numeral)
  moreover have "client_inv n (?t\<lparr>mem := m\<rparr>)"
    using u(4) by simp
  ultimately show ?thesis
    using u(5) copy_out_reads_back [OF m reply(3) buffer(3)] by simp
qed

theorem kv739_put_follows_redirect_witness:
  "\<exists>t. kv739_put (moved_env (Some ''old'')) 16 32 4096 (sample_state (Some ''a'')) = (Val 0, t) \<and>
     current_leader t = ''b'' \<and> client_inv 1 t \<and> c_string (mem t) 4096 = Some ''old''"
proof -
  let ?s = "sample_state (Some ''a'')" and ?E = "moved_env (Some ''old'')"
  let ?r = "sample_reply (Some ''old'') PUT_REQ"
  have "\<exists>t. kv739_put ?E 16 32 4096 ?s = (Val 0, t) \<and> current_leader t = ''b'' \<and> client_inv 1 t \<and>
     c_string (mem t) 4096 = Some (takeWhile (\<lambda>b. b \<noteq> NUL) (take 2047 (resp_old_value ?r)))"
  proof (rule kv739_put_follows_redirect [where g = "\<lambda>w. w"])
    show "kv_client ?s = Some (sample_client ''a'')" by (simp add: sample_state_def)
    show "slot (servers (sample_client ''a'')) 0 = Some \<lparr>stub_url = server_url ''a'', stub_cq = []\<rparr>"
      by (simp add: sample_client_def slot_def)
    show "env_contact ?E 500 \<lparr>stub_url = server_url ''a'', stub_cq = []\<rparr> (put_request ''k'' ''new'') (world ?s) =
        (Exc (Leader_Redirect ''b''), world ?s)"
      by (simp add: moved_env_def server_url_def)
    show "env_contact ?E 500 stub' (put_request ''k'' ''new'') w' = (Val (Status_OK, ?r), w')"
      if "stub_url stub' = server_url (hosts_of ''b'' ! 0)" for stub' w'
      using that by (simp add: moved_env_def sample_host put_request_def)
    show "client_inv 1 ?s" using sample_inv by simp
  qed (simp_all add: moved_env_ok sample_state_def sample_strings sample_reply_def
      accessible_mono [OF sample_buffer])
  then show ?thesis by (simp add: sample_reply_def)
qed

text \<open>The url of the first host of an address, to which requests go.\<close>

abbreviation first_url :: "string \<Rightarrow> string" where
  "first_url a \<equiv> server_url (hosts_of a ! 0)"

text \<open>
  C28. A client whose servers all answer a put with a redirection, each to an address of its own choice, follows exactly
  three of them: it returns -1, the current leader is the address that the server at the second address named, and
  the client is connected to the hosts of that address, with no stub or thread left behind and no memory changed.
\<close>

theorem kv739_put_gives_up:
  assumes world_ok: "opens E" "queues_drain E"
    and client: "kv_client s = Some c" "slot (servers c) 0 = Some stub" "client_inv n s" "0 < n" "n < 2 ^ 32"
    and args: "key \<noteq> NULL" "v \<noteq> NULL" "old \<noteq> NULL" "std_string (mem s) key = Some k" "std_string (mem s) v = Some x"
    and redirect: "\<And>stub w. \<exists>w'. env_contact E 500 stub (put_request k x) w = (Exc (Leader_Redirect (hop (stub_url stub))), w')"
      "\<And>url. length (hosts_of (hop url)) = n"
  defines "leader \<equiv> hop (first_url (hop (first_url (hop (stub_url stub)))))"
  shows "\<exists>t c'. kv739_put E key v old s = (Val (- 1), t) \<and> current_leader t = leader \<and> kv_client t = Some c' \<and>
    connected c' (hosts_of leader) \<and> client_inv n t \<and> mem t = mem s"
proof -
  have step: "\<exists>c' stub' u. put_loop E k x old (Suc m) s = put_loop E k x old m u \<and> kv_client u = Some c' \<and>
      slot (servers c') 0 = Some stub' \<and> stub_url stub' = first_url (hop (stub_url stub)) \<and>
      connected c' (hosts_of (hop (stub_url stub))) \<and> current_leader u = hop (stub_url stub) \<and> client_inv n u \<and> mem u = mem s"
    if now: "kv_client s = Some c" "slot (servers c) 0 = Some stub" "client_inv n s" for m s c stub
  proof -
    obtain w where w: "env_contact E 500 stub (put_request k x) (world s) = (Exc (Leader_Redirect (hop (stub_url stub))), w)"
      using redirect(1) by blast
    obtain c' u where u: "put_loop E k x old (Suc m) s = put_loop E k x old m u" "kv_client u = Some c'"
      "connected c' (hosts_of (hop (stub_url stub)))" "client_inv n u" "current_leader u = hop (stub_url stub)" "mem u = mem s"
      using put_loop_redirected [OF world_ok now redirect(2) client(5) w] by blast
    moreover obtain stub' where "slot (servers c') 0 = Some stub'" "stub_url stub' = first_url (hop (stub_url stub))"
      using connected_slot [OF u(3), of 0] redirect(2) client(4) by metis
    ultimately show ?thesis by blast
  qed
  obtain c1 stub1 s1 where s1: "put_loop E k x old (Suc 2) s = put_loop E k x old 2 s1" "kv_client s1 = Some c1"
    "slot (servers c1) 0 = Some stub1" "stub_url stub1 = first_url (hop (stub_url stub))" "client_inv n s1" "mem s1 = mem s"
    using step [OF client(1-3)] by blast
  obtain c2 stub2 s2 where s2: "put_loop E k x old (Suc 1) s1 = put_loop E k x old 1 s2" "kv_client s2 = Some c2"
    "slot (servers c2) 0 = Some stub2" "stub_url stub2 = first_url (hop (stub_url stub1))" "client_inv n s2" "mem s2 = mem s1"
    using step [OF s1(2,3,5)] by blast
  obtain c3 s3 where s3: "put_loop E k x old (Suc 0) s2 = put_loop E k x old 0 s3" "kv_client s3 = Some c3"
    "connected c3 (hosts_of (hop (stub_url stub2)))" "current_leader s3 = hop (stub_url stub2)" "client_inv n s3" "mem s3 = mem s2"
    using step [OF s2(2,3,5)] by blast
  have "put_loop E k x old 3 s = (Val (- 1), s3)"
    using s1(1) s2(1) s3(1) by (simp add: numeral_3_eq_3 numeral_2_eq_2 del: put_loop.simps(2))
  then show ?thesis using args s3 s1(4,6) s2(4,6) by (simp add: kv739_put_def leader_def)
qed

theorem kv739_put_gives_up_witness:
  "\<exists>t. kv739_put (moved_env None) 16 32 4096 (sample_state (Some ''a'')) = (Val (- 1), t) \<and>
     current_leader t = ''b'' \<and> client_inv 1 t \<and> mem t = sample_mem"
proof -
  let ?s = "sample_state (Some ''a'')" and ?E = "moved_env None" and ?hop = "\<lambda>_ :: string. ''b''"
  have "\<exists>t c'. kv739_put ?E 16 32 4096 ?s = (Val (- 1), t) \<and>
     current_leader t = ?hop (first_url (?hop (first_url (?hop (stub_url \<lparr>stub_url = server_url ''a'', stub_cq = []\<rparr>))))) \<and>
     kv_client t = Some c' \<and>
     connected c' (hosts_of (?hop (first_url (?hop (first_url (?hop (stub_url \<lparr>stub_url = server_url ''a'', stub_cq = []\<rparr>))))))) \<and>
     client_inv 1 t \<and> mem t = mem ?s"
  proof (rule kv739_put_gives_up [where hop = ?hop])
    show "\<exists>w'. env_contact ?E 500 stub (put_request ''k'' ''new'') w = (Exc (Leader_Redirect ''b''), w')" for stub w
      by (simp add: moved_env_def)
    show "client_inv 1 ?s" using sample_inv by simp
    show "kv_client ?s = Some (sample_client ''a'')" by (simp add: sample_state_def)
    show "slot (servers (sample_client ''a'')) 0 = Some \<lparr>stub_url = server_url ''a'', stub_cq = []\<rparr>"
      by (simp add: sample_client_def slot_def)
  qed (simp_all add: moved_env_ok sample_state_def sample_strings)
  then show ?thesis by (auto simp: sample_state_def)
qed

section \<open>kv739\_init, kv739\_shutdown, kv739\_die\<close>

text \<open>
  C29. \<open>kv739_init\<close> asks the servers of the configuration in order, each of which says that it leads, says that it does
  not, or makes \<open>IsLeader\<close> throw a standard exception, depending on the server only; stubs and threads can be made, and all
  addresses name equally many hosts. It stops at the first server that says it leads: it returns 0, records that server
  and stays connected to it; the ones before it, those that throw included, are skipped. When none does it returns -1 and leaves the
  recorded leader alone. The connections it tries on the way are released.
\<close>

theorem kv739_init_finds_leader:
  assumes world_ok: "opens E" "queues_drain E"
    and client: "client_inv n s" "n < 2 ^ 32"
    and config: "std_string (mem s) config_file = Some path"
      "env_read_server_list E path (world s) = (Val sl, w)" "\<forall>a \<in> set sl. length (hosts_of a) = n"
    and leads: "\<And>c w. \<exists>w'. env_is_leader E c w = (says (map (map_option stub_url) (servers c)), w')"
      "\<And>urls. (\<exists>b. says urls = Val b) \<or> (\<exists>e. says urls = Exc e \<and> is_std E e)"
  defines "leader \<equiv> find (\<lambda>a. says (map (\<lambda>h. Some (server_url h)) (hosts_of a)) = Val True) sl"
  shows "\<exists>t. kv739_init E config_file s = (Val (if leader = None then - 1 else 0), t) \<and>
           current_leader t = (case leader of None \<Rightarrow> current_leader s | Some a \<Rightarrow> a) \<and>
           server_list t = sl \<and> client_inv n t \<and> mem t = mem s \<and>
           (\<forall>a. leader = Some a \<longrightarrow> (\<exists>c. kv_client t = Some c \<and> connected c (hosts_of a)))"
proof -
  let ?says = "\<lambda>a. says (map (\<lambda>h. Some (server_url h)) (hosts_of a))" and ?leads = "\<lambda>a. says (map (\<lambda>h. Some (server_url h)) (hosts_of a)) = Val True"
  have loop: "\<exists>t. init_loop E sl s = (Val (if find ?leads sl = None then - 1 else 0), t) \<and>
      current_leader t = (case find ?leads sl of None \<Rightarrow> current_leader s | Some a \<Rightarrow> a) \<and>
      server_list t = server_list s \<and> client_inv n t \<and> mem t = mem s \<and>
      (\<forall>a. find ?leads sl = Some a \<longrightarrow> (\<exists>c. kv_client t = Some c \<and> connected c (hosts_of a)))"
    if "client_inv n s" "\<forall>a \<in> set sl. length (hosts_of a) = n" for sl s
    using that
  proof (induction sl arbitrary: s)
    case Nil
    then show ?case by simp
  next
    case (Cons a sl)
    obtain c u where u: "connect E a s = (Val (), u)" "kv_client u = Some c" "connected c (hosts_of a)"
      "client_inv n u" "server_list u = server_list s" "current_leader u = current_leader s" "mem u = mem s"
      using connect_ok [OF world_ok _ client(2), of a s] Cons.prems by auto
    obtain w where asked: "env_is_leader E c (world u) = (?says a, w)"
      using leads(1) [of c "world u"] u(3) by (auto simp: connected_def)
    have round: "try_server E a s = (case ?says a of
        Val b \<Rightarrow> if b then (Val (Some 0), u\<lparr>world := w, current_leader := a\<rparr>) else (Val None, u\<lparr>world := w\<rparr>)
      | Exc e \<Rightarrow> (Val None, u\<lparr>world := w, log := log u @ [Log_Connect_Error a e]\<rparr>))"
      using u(1,2) asked leads(2) [of "map (\<lambda>h. Some (server_url h)) (hosts_of a)"]
      by (auto simp: try_server_def try_catch_def bind_def with_client_def external_apply catch_std_def)
    show ?case
    proof (cases "?leads a")
      case True
      then show ?thesis using u round by simp
    next
      case False
      obtain v where v: "try_server E a s = (Val None, v)" "client_inv n v" "server_list v = server_list s"
        "current_leader v = current_leader s" "mem v = mem s"
        using False round u(4-7) leads(2) [of "map (\<lambda>h. Some (server_url h)) (hosts_of a)"] by fastforce
      then have "init_loop E (a # sl) s = init_loop E sl v" by simp
      moreover have "find ?leads (a # sl) = find ?leads sl" using False by simp
      ultimately show ?thesis
        using Cons.IH [OF v(2), unfolded v(3-5)] Cons.prems(2) by simp
    qed
  qed
  let ?s = "s\<lparr>world := w, server_list := sl\<rparr>"
  have "client_inv n ?s" using client(1) by simp
  from loop [OF this config(3)] obtain t where t:
    "init_loop E sl ?s = (Val (if leader = None then - 1 else 0), t)"
    "current_leader t = (case leader of None \<Rightarrow> current_leader ?s | Some a \<Rightarrow> a)"
    "server_list t = server_list ?s" "client_inv n t" "mem t = mem ?s"
    "\<forall>a. leader = Some a \<longrightarrow> (\<exists>c. kv_client t = Some c \<and> connected c (hosts_of a))"
    unfolding leader_def by blast
  moreover have "kv739_init E config_file s = init_loop E sl ?s"
    using config(1,2) by (simp add: kv739_init_def bind_def external_def)
  ultimately show ?thesis by (intro exI [of _ t]) (simp split: option.split)
qed

text \<open>An environment in which the first server throws and the second one leads.\<close>

definition throwing_answers :: "string option list \<Rightarrow> (exn, bool) outcome" where
  "throwing_answers urls = (if urls = [Some (server_url ''a'')] then Exc (Runtime_Error ''down'') else Val (urls = [Some (server_url ''b'')]))"

definition throwing_env :: "(sample_world, async_call list) env" where
  "throwing_env = (sample_env [''a'', ''b'', ''c''])\<lparr>env_is_leader := \<lambda>c w. (throwing_answers (map (map_option stub_url) (servers c)), w)\<rparr>"

theorem kv739_init_finds_leader_witness:
  "\<exists>t. kv739_init throwing_env 48 (sample_state None) = (Val 0, t) \<and> current_leader t = ''b'' \<and> client_inv 1 t"
proof -
  let ?s = "sample_state None" and ?sl = "[''a'', ''b'', ''c'']"
  let ?leader = "find (\<lambda>a. throwing_answers (map (\<lambda>h. Some (server_url h)) (hosts_of a)) = Val True) ?sl"
  have b: "?leader = Some ''b''" by (simp add: throwing_answers_def server_url_def)
  have "\<exists>t. kv739_init throwing_env 48 ?s = (Val (if ?leader = None then - 1 else 0), t) \<and>
           current_leader t = (case ?leader of None \<Rightarrow> current_leader ?s | Some a \<Rightarrow> a) \<and>
           server_list t = ?sl \<and> client_inv 1 t \<and> mem t = mem ?s \<and>
           (\<forall>a. ?leader = Some a \<longrightarrow> (\<exists>c. kv_client t = Some c \<and> connected c (hosts_of a)))"
  proof (rule kv739_init_finds_leader)
    show "opens throwing_env" using sample_opens by (simp add: throwing_env_def opens_def)
    show "queues_drain throwing_env" using sample_queues_drain by (simp add: throwing_env_def queues_drain_def)
    show "client_inv 1 ?s" using sample_inv by simp
    show "env_read_server_list throwing_env ''c'' (world ?s) = (Val ?sl, world ?s)" by (simp add: throwing_env_def sample_env_def)
    show "\<exists>w'. env_is_leader throwing_env c w = (throwing_answers (map (map_option stub_url) (servers c)), w')" for c w
      by (simp add: throwing_env_def)
    show "(\<exists>b. throwing_answers urls = Val b) \<or> (\<exists>e. throwing_answers urls = Exc e \<and> is_std throwing_env e)" for urls
      by (simp add: throwing_answers_def)
  qed (simp_all add: sample_state_def sample_strings)
  then show ?thesis unfolding b by auto
qed

text \<open>
  \<open>kv739_shutdown\<close> with no client returns 0 and does nothing; otherwise it calls
  \<open>Shutdown\<close> and then either releases every stub and thread and leaves a null client with
  result 0, or, when \<open>Shutdown\<close> throws a standard exception, returns -1 and keeps the client.
\<close>

theorem kv739_shutdown_spec:
  assumes "queues_drain E" and "client_inv n s"
    and "\<And>c w. fst (env_shutdown E c w) = Val () \<or> (\<exists>e. fst (env_shutdown E c w) = Exc e \<and> is_std E e)"
  shows "\<exists>r t. kv739_shutdown E s = (Val r, t) \<and> client_inv n t \<and>
           (r = 0 \<and> kv_client t = None \<and> live_stubs t = 0 \<and> live_threads t = 0 \<or>
            r = - 1 \<and> kv_client t = kv_client s)"
  using assms by (rule kv739_shutdown_ok)

theorem kv739_shutdown_spec_witness:
  "\<exists>r t. kv739_shutdown (sample_env []) (sample_state (Some ''b'')) = (Val r, t) \<and> client_inv 1 t \<and>
     (r = 0 \<and> kv_client t = None \<and> live_stubs t = 0 \<and> live_threads t = 0 \<or>
      r = - 1 \<and> kv_client t = kv_client (sample_state (Some ''b'')))"
  by (rule kv739_shutdown_spec) (use sample_inv in \<open>simp_all add: sample_queues_drain, simp add: sample_env_def\<close>)

text \<open>
  Before a client is connected (and again after \<open>kv739_shutdown\<close>), \<open>kv739_get\<close>,
  \<open>kv739_put\<close> and \<open>kv739_die\<close> with well-formed arguments dereference a null pointer.
\<close>

theorem unconnected_calls_undefined:
  assumes "kv_client s = None" and "std_string (mem s) key = Some k" and "std_string (mem s) v = Some x"
    and "b \<noteq> NULL"
  shows "fst (kv739_get E key b s) = UB \<and> fst (kv739_put E key v b s) = UB \<and> fst (kv739_die E key clean s) = UB"
proof -
  have "key \<noteq> NULL" "v \<noteq> NULL" using assms(2,3) by (auto simp: std_string_def split: if_splits)
  then show ?thesis
    using assms
    by (simp_all add: kv739_get_def kv739_put_def kv739_die_def put_attempt_def numeral_3_eq_3
        try_catch_def bind_def with_client_def)
qed

theorem unconnected_calls_undefined_witness:
  "fst (kv739_get (sample_env []) 16 4096 (sample_state None)) = UB \<and>
   fst (kv739_put (sample_env []) 16 32 4096 (sample_state None)) = UB \<and>
   fst (kv739_die (sample_env []) 16 1 (sample_state None)) = UB"
  using unconnected_calls_undefined [of "sample_state None" 16 "''k''" 32 "''new''" 4096 "sample_env []" 1]
  by (simp add: sample_state_def sample_strings)

section \<open>Ownership of stubs and threads\<close>

text \<open>
  C3. In every session that starts with no client, in which the constructors of stubs and threads do not throw, queues
  that were shut down drain, and all addresses name the same number of hosts, after every call the global client owns
  exactly the live stubs and threads: nothing leaks and nothing is released twice, over any sequence of initialisations,
  requests, redirections and shutdowns, including the calls whose requests throw.
\<close>

theorem session_owns_resources:
  assumes "uniform E n" and "fresh s" and "(session_step E)\<^sup>*\<^sup>* s t"
  shows "client_inv n t"
proof -
  have "(\<lambda>s t. uniform E n \<and> session_step E s t)\<^sup>*\<^sup>* s t"
    using assms(1,3) by simp
  with assms(2) show ?thesis by (rule session.inv_reachable)
qed

theorem session_owns_resources_witness:
  "\<exists>t. (session_step (moved_env None))\<^sup>*\<^sup>* (sample_state None) t \<and> current_leader t = ''b'' \<and> client_inv 1 t"
proof -
  obtain t where init: "kv739_init (moved_env None) 48 (sample_state None) = (Val 0, t)" "current_leader t = ''b''"
    using moved_init by blast
  then have "session_step (moved_env None) (sample_state None) t"
    by (intro session_step.returns [of _ "Init 48"]) simp
  then have run: "(session_step (moved_env None))\<^sup>*\<^sup>* (sample_state None) t" by blast
  have "client_inv 1 t"
    by (rule session_owns_resources [OF moved_uniform _ run]) (simp add: fresh_def sample_state_def)
  with run init(2) show ?thesis by blast
qed

text \<open>
  C39. When a redirection names more hosts than the present client has, following it runs the
  old object's destructor with the new, larger count: undefined behaviour.
\<close>

theorem kv739_put_wider_redirect_undefined:
  assumes "opens E" and "queues_drain E"
    and "kv_client s = Some c" and "connected c hosts" and "slot (servers c) 0 = Some stub"
    and "key \<noteq> NULL" and "v \<noteq> NULL" and "old \<noteq> NULL"
    and "std_string (mem s) key = Some k" and "std_string (mem s) v = Some x"
    and "env_contact E 500 stub (put_request k x) (world s) = (Exc (Leader_Redirect a), w)"
    and "length hosts < length (hosts_of a)" and "length (hosts_of a) < 2 ^ 32"
  shows "fst (kv739_put E key v old s) = UB"
proof -
  let ?s = "s\<lparr>world := w, log := log s @ [Log_Redirected a], current_leader := a\<rparr>"
  have first: "put_attempt E k x old s = (Exc (Leader_Redirect a), s\<lparr>world := w\<rparr>)"
    using assms(3,5) sendRequest_throws [OF _ assms(11), of c 0]
    by (simp add: put_attempt_def with_client_def bind_def)
  obtain c' u where u: "KvstoreRPCClient E a ?s = (Val c', u)" "same_globals ?s u"
    "unat (g_num_servers u) = length (hosts_of a)"
    using KvstoreRPCClient_connects [OF assms(1,13), of ?s] by auto
  have "fst (destroy_KvstoreRPCClient E c (u\<lparr>kv_client := Some c'\<rparr>)) = UB"
    using destroy_KvstoreRPCClient_overrun [OF assms(2,4)] u(3) assms(12) by simp
  then obtain u' where "connect E a ?s = (UB, u')"
    using u(1,2) assms(3) by (cases "destroy_KvstoreRPCClient E c (u\<lparr>kv_client := Some c'\<rparr>)")
      (simp add: connect_def assign_client_def same_globals_iff)
  then show ?thesis
    using assms(6-10) first by (simp add: kv739_put_def numeral_3_eq_3)
qed

theorem kv739_put_wider_redirect_undefined_witness:
  "fst (kv739_put (wide_env ''b;c'') 16 32 4096 (sample_state (Some ''a''))) = UB"
proof (rule kv739_put_wider_redirect_undefined)
  let ?s = "sample_state (Some ''a'')" and ?E = "wide_env ''b;c''"
  show "kv_client ?s = Some (sample_client ''a'')" by (simp add: sample_state_def)
  show "connected (sample_client ''a'') [''a'']" by (rule sample_connected)
  show "slot (servers (sample_client ''a'')) 0 = Some \<lparr>stub_url = server_url ''a'', stub_cq = []\<rparr>"
    by (simp add: sample_client_def slot_def)
  show "env_contact ?E 500 \<lparr>stub_url = server_url ''a'', stub_cq = []\<rparr> (put_request ''k'' ''new'') (world ?s) =
      (Exc (Leader_Redirect ''b;c''), world ?s)"
    by (simp add: wide_env_def)
qed (simp_all add: wide_env_ok sample_state_def sample_strings sample_two_hosts)

section \<open>The RPC client object\<close>

text \<open>
  C38. When the constructors of stubs and threads do not throw, the constructor splits its argument at the semicolons and makes, in order, one stub per
  host at port 50051 and one thread per stub, for any number of hosts below \<open>2 ^ 32\<close>; it
  touches nothing else but \<open>g_num_servers\<close>, the diagnostics and the world.
\<close>

theorem constructor_connects_every_host:
  assumes "opens E" and "hosts \<noteq> []" and "last hosts \<noteq> []" and "\<forall>h \<in> set hosts. CHR '';'' \<notin> set h"
    and "length hosts < 2 ^ 32"
  shows "\<exists>c t. KvstoreRPCClient E (join_with (CHR '';'') hosts) s = (Val c, t) \<and>
           map (map_option stub_url) (servers c) = map (\<lambda>h. Some (h @ '':50051'')) hosts \<and>
           threads c = map Some [0..<length hosts] \<and> same_globals s t \<and>
           unat (g_num_servers t) = length hosts \<and>
           live_stubs t = live_stubs s + int (length hosts) \<and>
           live_threads t = live_threads s + int (length hosts)"
proof -
  have split: "hosts_of (join_with (CHR '';'') hosts) = hosts"
    using assms(2-4) by (intro getline_all_join) auto
  have url: "server_url h = h @ '':50051''" for h
    by (simp add: server_url_def to_string.simps digit_char_def char_of_def bit_0)
  show ?thesis
    using KvstoreRPCClient_connects [OF assms(1), of "join_with (CHR '';'') hosts" s] assms(5)
    unfolding split connected_def url by blast
qed

theorem constructor_connects_every_host_witness:
  "\<exists>c t. KvstoreRPCClient (sample_env []) ''a;b'' (sample_state None) = (Val c, t) \<and>
     map (map_option stub_url) (servers c) = [Some ''a:50051'', Some ''b:50051''] \<and> live_stubs t = 2"
  using constructor_connects_every_host [OF sample_opens, of "[''a'', ''b'']" "[]" "sample_state None"]
  by (auto simp: sample_state_def)

text \<open>
  Destroying an object with the count it was made with shuts every queue down, joins and
  deletes every thread and deletes every stub: after construction and destruction the ledgers
  are as they were.
\<close>

theorem destructor_releases_everything:
  assumes "opens E" and "queues_drain E" and "length (getline_all (CHR '';'') hosts) < 2 ^ 32"
    and "KvstoreRPCClient E hosts s = (Val c, t)"
  shows "\<exists>u. destroy_KvstoreRPCClient E c t = (Val (), u) \<and> same_globals s u \<and>
           live_stubs u = live_stubs s \<and> live_threads u = live_threads s"
proof -
  have t: "connected c (hosts_of hosts)" "same_globals s t" "unat (g_num_servers t) = length (hosts_of hosts)"
    "live_stubs t = live_stubs s + int (length (hosts_of hosts))"
    "live_threads t = live_threads s + int (length (hosts_of hosts))"
    using KvstoreRPCClient_connects [OF assms(1,3), of s] assms(4) by auto
  then show ?thesis
    using destroy_KvstoreRPCClient_ok [OF assms(2) t(1,3)] by (auto simp: same_globals_iff)
qed

theorem destructor_releases_everything_witness:
  "\<exists>c t u. KvstoreRPCClient (sample_env []) ''a;b'' (sample_state None) = (Val c, t) \<and>
     destroy_KvstoreRPCClient (sample_env []) c t = (Val (), u) \<and> live_stubs t = 2 \<and> live_stubs u = 0"
proof -
  have w: "length (hosts_of ''a;b'') < 2 ^ 32" by (simp add: sample_two_hosts)
  obtain c t where t: "KvstoreRPCClient (sample_env []) ''a;b'' (sample_state None) = (Val c, t)"
    "live_stubs t = live_stubs (sample_state None) + int (length (hosts_of ''a;b''))"
    using KvstoreRPCClient_connects [OF sample_opens w] by blast
  show ?thesis
    using destructor_releases_everything [OF sample_opens sample_queues_drain w t(1)] t
    by (auto simp: sample_two_hosts sample_state_def)
qed

text \<open>
  C30. A completion thread returns exactly when its queue is drained, after it has reported
  every completed call in order; it deletes the calls that succeeded and no others, so each
  failed call leaves one \<open>AsyncClientCall\<close> behind.
\<close>

theorem completion_loop_spec:
  "AsyncCompleteRpc next node_id q logs live = Some (q', logs', live') \<longleftrightarrow>
     (\<exists>calls. delivers next q calls q' \<and> logs' = logs @ map (completion_event node_id) calls \<and>
        live' = live - int (length (filter (\<lambda>call. call_status call = Status_OK) calls)))"
proof
  assume run: "AsyncCompleteRpc next node_id q logs live = Some (q', logs', live')"
  then obtain calls q'' where d: "delivers next q calls q''"
    using AsyncCompleteRpc_returns [OF run] by blast
  from AsyncCompleteRpc_delivers [OF d, of node_id logs live] run d
  show "\<exists>calls. delivers next q calls q' \<and> logs' = logs @ map (completion_event node_id) calls \<and>
      live' = live - int (length (filter (\<lambda>call. call_status call = Status_OK) calls))"
    by (auto simp: succeeded_def)
next
  assume "\<exists>calls. delivers next q calls q' \<and> logs' = logs @ map (completion_event node_id) calls \<and>
      live' = live - int (length (filter (\<lambda>call. call_status call = Status_OK) calls))"
  then show "AsyncCompleteRpc next node_id q logs live = Some (q', logs', live')"
    using AsyncCompleteRpc_delivers by (fastforce simp: succeeded_def)
qed

section \<open>The test driver\<close>

text \<open>
  The driver, started in a fresh process with readable arrays, in an environment whose addresses
  name equally many hosts and whose calls return or throw standard exceptions: it ends with exit code
  -1 when the initialisation failed and 0 otherwise, never dereferences a null client, and its client
  owns exactly the stubs and threads that are still alive.
\<close>

theorem driver_ends:
  assumes "uniform E n" and "civil E" and "fresh s"
    and "std_string (mem s) config_file = Some path" and "std_string (mem s) server_name = Some name"
  shows "\<exists>r t. test_kv739_die E config_file server_name s = (Val r, t) \<and> client_inv n t \<and>
    (if fst (kv739_init E config_file s) = Val 0 then r = 0
     else r = - 1 \<and> log t = log (snd (kv739_init E config_file s)) @ [Log_Driver ''Client initialization failed.''])"
proof -
  have "client_inv n s" using assms(3) by (simp add: fresh_def client_inv_def)
  then obtain r u where u: "kv739_init E config_file s = (Val r, u)" "client_inv n u" "mem u = mem s"
    "r = - 1 \<or> r = 0 \<and> kv_client u \<noteq> None"
    using kv739_init_returns [OF assms(1,2) _ assms(4)] by blast
  show ?thesis
  proof (cases "r = 0")
    case True
    obtain result v where v: "kv739_die E server_name 1 u = (Val result, v)" "client_inv n v"
      using kv739_die_returns [OF assms(2) u(2), of server_name name 1] u(3,4) assms(5) True by auto
    let ?v = "v\<lparr>log := log v @ [Log_Driver (if result = 0 then ''Server terminated successfully.'' else ''Failed to terminate server.'')]\<rparr>"
    have "queues_drain E" "client_inv n ?v" using assms(1) v(2) by (simp_all add: uniform_def)
    moreover have "fst (env_shutdown E c w) = Val () \<or> (\<exists>e. fst (env_shutdown E c w) = Exc e \<and> is_std E e)" for c w
      using assms(2) by (simp add: civil_def answers_def)
    ultimately obtain q t where t: "kv739_shutdown E ?v = (Val q, t)" "client_inv n t"
      using kv739_shutdown_ok [of E n ?v] by blast
    then show ?thesis using True u(1) v(1) by (simp add: test_kv739_die_def write_log_def)
  next
    case False
    then show ?thesis using u by (simp add: test_kv739_die_def write_log_def)
  qed
qed

theorem driver_ends_witness:
  "\<exists>r t. test_kv739_die (moved_env None) 48 48 (sample_state None) = (Val r, t) \<and> client_inv 1 t"
proof -
  have "\<exists>r t. test_kv739_die (moved_env None) 48 48 (sample_state None) = (Val r, t) \<and> client_inv 1 t \<and>
    (if fst (kv739_init (moved_env None) 48 (sample_state None)) = Val 0 then r = 0
     else r = - 1 \<and> log t = log (snd (kv739_init (moved_env None) 48 (sample_state None))) @ [Log_Driver ''Client initialization failed.''])"
    by (rule driver_ends [OF moved_uniform])
       (simp_all add: civil_def answers_def moved_env_def sample_env_def fresh_def sample_state_def sample_strings)
  then show ?thesis by blast
qed

end
