(* ===== verification/Java_Support.thy ===== *)
theory Java_Support
  imports Prelude
begin

text \<open>
  The parts of Java that the server uses: the exceptions it can meet, 64-bit and 32-bit
  two's-complement arithmetic, \<open>String.split\<close> on a single character and \<open>Integer.parseInt\<close>.
\<close>

datatype jexn =
    SQLException
  | RuntimeException string
  | NullPointerException
  | ClassCastException
  | ArrayIndexOutOfBoundsException
  | NumberFormatException
  | RejectedExecutionException
  | IllegalArgumentException
  | IOException

section \<open>Integers\<close>

text \<open>The value of a \<open>long\<close> expression: the integer result wrapped to 64 bits.\<close>

definition jlong :: "int \<Rightarrow> int" where
  "jlong x = (x + 2 ^ 63) mod 2 ^ 64 - 2 ^ 63"

definition is_long :: "int \<Rightarrow> bool" where
  "is_long x \<longleftrightarrow> - (2 ^ 63) \<le> x \<and> x < 2 ^ 63"

lemma jlong_id [simp]: "is_long x \<Longrightarrow> jlong x = x"
  by (simp add: jlong_def is_long_def)

lemma jlong_is_long [simp]: "is_long (jlong x)"
proof -
  have "0 \<le> (x + 2 ^ 63) mod 2 ^ 64" "(x + 2 ^ 63) mod 2 ^ 64 < 2 ^ 64"
    by simp_all
  then show ?thesis unfolding jlong_def is_long_def by auto
qed

lemma jlong_overflow: "jlong (2 ^ 63 - 1 + 1) = - (2 ^ 63)"
  by (simp add: jlong_def)

section \<open>Strings\<close>

text \<open>
  \<open>s.split(d)\<close> for a single character that has no meaning in a regular expression: the pieces
  between the delimiters, without the empty pieces at the end; a string with no delimiter is its
  own single piece, the empty string included.
\<close>

fun split_all :: "char \<Rightarrow> string \<Rightarrow> string list" where
  "split_all d [] = [[]]"
| "split_all d (c # cs) =
     (if c = d then [] # split_all d cs
      else case split_all d cs of [] \<Rightarrow> [[c]] | p # ps \<Rightarrow> (c # p) # ps)"

definition java_split :: "char \<Rightarrow> string \<Rightarrow> string list" where
  "java_split d s =
     (if d \<notin> set s then [s] else rev (dropWhile (\<lambda>p. p = []) (rev (split_all d s))))"

lemma split_all_no_delim: "d \<notin> set s \<Longrightarrow> split_all d s = [s]"
  by (induction s) auto

lemma split_all_append: "d \<notin> set p \<Longrightarrow> split_all d (p @ d # s) = p # split_all d s"
  by (induction p) auto

lemma java_split_pair:
  assumes "d \<notin> set a" and "d \<notin> set b" and "b \<noteq> []"
  shows "java_split d (a @ d # b) = [a, b]"
  using assms by (simp add: java_split_def split_all_append split_all_no_delim)

text \<open>
  \<open>Integer.parseInt(s)\<close>: an optional sign, then one or more decimal digits, with a value in
  the range of \<open>int\<close>.
\<close>

definition parseInt :: "string \<Rightarrow> (jexn, int) outcome" where
  "parseInt s =
     (let (negative, body) = (case s of
            [] \<Rightarrow> (False, [])
          | c # cs \<Rightarrow> if c = CHR ''-'' then (True, cs) else if c = CHR ''+'' then (False, cs) else (False, s))
      in case (if body = [] then None else parse_digits 0 body) of
           None \<Rightarrow> Exc NumberFormatException
         | Some n \<Rightarrow>
             let v = (if negative then - int n else int n) in
             if - (2 ^ 31) \<le> v \<and> v < 2 ^ 31 then Val v else Exc NumberFormatException)"

lemma digit_char_sign: "d < 10 \<Longrightarrow> digit_char d \<noteq> CHR ''-'' \<and> digit_char d \<noteq> CHR ''+'' \<and> digit_char d \<noteq> CHR '':''"
proof -
  assume "d < 10"
  then have "of_char (digit_char d) = 48 + d" by (simp add: digit_char_def)
  then show ?thesis using \<open>d < 10\<close> by auto
qed

lemma to_string_chars: "c \<in> set (to_string n) \<Longrightarrow> c \<noteq> CHR ''-'' \<and> c \<noteq> CHR ''+'' \<and> c \<noteq> CHR '':''"
proof (induction n rule: to_string.induct)
  case (1 n)
  have "c = digit_char (n mod 10) \<or> \<not> n < 10 \<and> c \<in> set (to_string (n div 10))"
    using "1.prems" by (subst (asm) to_string.simps) (auto split: if_splits)
  then show ?case using "1.IH" digit_char_sign [of "n mod 10"] by auto
qed

lemma to_string_nonempty: "to_string n \<noteq> []"
  by (subst to_string.simps) simp

lemma parseInt_to_string: "n < 2 ^ 31 \<Longrightarrow> parseInt (to_string n) = Val (int n)"
proof -
  assume "n < 2 ^ 31"
  obtain c cs where s: "to_string n = c # cs" using to_string_nonempty by (cases "to_string n") auto
  then have "c \<noteq> CHR ''-''" "c \<noteq> CHR ''+''" using to_string_chars [of c n] by auto
  then show ?thesis
    using \<open>n < 2 ^ 31\<close> s parse_to_string [of n] by (simp add: parseInt_def)
qed

end
