(* ===== verification/Raft_State.thy ===== *)
theory Raft_State
  imports Java_Support
begin

text \<open>
  \<open>src/server/src/main/java/com/kvstore/raft/RaftState.java\<close>: the role, the term and a vote
  field of a node, with its transitions. The term is a \<open>long\<close>; only \<open>becomeCandidate\<close>
  computes with it.
\<close>

datatype role = FOLLOWER | CANDIDATE | LEADER

record raft_state =
  currentRole :: role
  currentTerm :: int
  rs_votedFor :: "string option"

definition newRaftState :: raft_state where
  "newRaftState = \<lparr>currentRole = FOLLOWER, currentTerm = 0, rs_votedFor = None\<rparr>"

definition isLeader :: "raft_state \<Rightarrow> bool" where
  "isLeader r \<longleftrightarrow> currentRole r = LEADER"

definition becomeFollower :: "int \<Rightarrow> raft_state \<Rightarrow> raft_state" where
  "becomeFollower t r = r\<lparr>currentRole := FOLLOWER, currentTerm := t, rs_votedFor := None\<rparr>"

definition becomeCandidate :: "raft_state \<Rightarrow> raft_state" where
  "becomeCandidate r = r\<lparr>currentRole := CANDIDATE, currentTerm := jlong (currentTerm r + 1)\<rparr>"

definition role_becomeLeader :: "raft_state \<Rightarrow> raft_state" where
  "role_becomeLeader r = r\<lparr>currentRole := LEADER\<rparr>"

definition setCurrentTerm :: "int \<Rightarrow> raft_state \<Rightarrow> raft_state" where
  "setCurrentTerm t r = r\<lparr>currentTerm := t\<rparr>"

lemma role_simps [simp]:
  "currentRole newRaftState = FOLLOWER" "currentTerm newRaftState = 0"
  "currentRole (becomeFollower t r) = FOLLOWER" "currentTerm (becomeFollower t r) = t"
  "currentRole (becomeCandidate r) = CANDIDATE" "currentTerm (becomeCandidate r) = jlong (currentTerm r + 1)"
  "currentRole (role_becomeLeader r) = LEADER" "currentTerm (role_becomeLeader r) = currentTerm r"
  "currentRole (setCurrentTerm t r) = currentRole r" "currentTerm (setCurrentTerm t r) = t"
  by (simp_all add: newRaftState_def becomeFollower_def becomeCandidate_def role_becomeLeader_def setCurrentTerm_def)

end
