(* ===== verification/Storage_Interface.thy ===== *)
theory Storage_Interface
  imports Prelude
begin

text \<open>
  What the Raft node relies on from its storage, as two contracts over computations on an
  abstract state: a log of entries numbered from 1 (\<open>log_store\<close>), whose operations leave the
  rest of the state alone, and a table of key-value
  pairs (\<open>kv_table\<close>). The consequences the node's proofs use are derived here once.
\<close>

locale log_store =
  fixes usable :: "'s \<Rightarrow> bool"
    and entries :: "'s \<Rightarrow> 'e list"
    and rest :: "'s \<Rightarrow> 'r"
    and stored :: "'e \<Rightarrow> 'e"
    and last_index :: "('s, 'x, int) prog"
    and get_entry :: "int \<Rightarrow> ('s, 'x, 'e option) prog"
    and get_range :: "int \<Rightarrow> int \<Rightarrow> ('s, 'x, 'e list) prog"
    and append_entry :: "'e \<Rightarrow> ('s, 'x, int) prog"
    and delete_from :: "int \<Rightarrow> ('s, 'x, unit) prog"
  assumes last_index: "usable s \<Longrightarrow> last_index s = (Val (int (length (entries s))), s)"
    and get_entry: "usable s \<Longrightarrow>
      get_entry i s = (Val (if 1 \<le> i \<and> i \<le> int (length (entries s)) then Some (entries s ! nat (i - 1)) else None), s)"
    and get_range: "usable s \<Longrightarrow> 1 \<le> i \<Longrightarrow>
      get_range i (int (length (entries s))) s = (Val (drop (nat (i - 1)) (entries s)), s)"
    and append_entry: "usable s \<Longrightarrow>
      \<exists>t. append_entry e s = (Val (int (length (entries s)) + 1), t) \<and> usable t \<and> entries t = entries s @ [stored e] \<and> rest t = rest s"
    and delete_from: "usable s \<Longrightarrow> 1 \<le> i \<Longrightarrow>
      \<exists>t. delete_from i s = (Val (), t) \<and> usable t \<and> entries t = take (nat (i - 1)) (entries s) \<and> rest t = rest s"
begin

lemma get_entry_present:
  "usable s \<Longrightarrow> 1 \<le> i \<Longrightarrow> i \<le> int (length (entries s)) \<Longrightarrow> get_entry i s = (Val (Some (entries s ! nat (i - 1))), s)"
  by (simp add: get_entry)

lemma append_then_get:
  assumes "usable s"
  shows "\<exists>t i. append_entry e s = (Val i, t) \<and> last_index t = (Val i, t) \<and> get_entry i t = (Val (Some (stored e)), t)"
proof -
  obtain t where t: "append_entry e s = (Val (int (length (entries s)) + 1), t)" "usable t"
    "entries t = entries s @ [stored e]"
    using append_entry [OF assms] by blast
  then show ?thesis by (auto simp: last_index get_entry)
qed

text \<open>Replacing a conflicting suffix: what stood before it, then the new entry.\<close>

lemma delete_then_append:
  assumes "usable s" and "1 \<le> i" and "i \<le> int (length (entries s))"
  shows "\<exists>t. bind (delete_from i) (\<lambda>_. append_entry e) s = (Val i, t) \<and> usable t \<and>
           entries t = take (nat (i - 1)) (entries s) @ [stored e] \<and> rest t = rest s"
proof -
  obtain u where u: "delete_from i s = (Val (), u)" "usable u" "entries u = take (nat (i - 1)) (entries s)" "rest u = rest s"
    using delete_from [OF assms(1,2)] by blast
  moreover have "length (entries u) = nat (i - 1)"
    using u(3) assms(2,3) by simp
  ultimately show ?thesis using append_entry [OF u(2), of e] assms(2) by auto
qed

end

locale kv_table =
  fixes ready :: "'s \<Rightarrow> bool"
    and lookup :: "'s \<Rightarrow> 'k \<Rightarrow> 'v option"
    and upsert :: "'k \<Rightarrow> 'v \<Rightarrow> ('s, 'x, unit) prog"
    and select :: "'k \<Rightarrow> ('s, 'x, 'v option) prog"
  assumes select: "ready s \<Longrightarrow> select k s = (Val (lookup s k), s)"
    and upsert: "ready s \<Longrightarrow> \<exists>t. upsert k v s = (Val (), t) \<and> ready t \<and> lookup t = (lookup s)(k \<mapsto> v)"
begin

lemma select_after_upsert:
  assumes "ready s"
  shows "\<exists>t. upsert k v s = (Val (), t) \<and> select k' t = (Val (if k' = k then Some v else lookup s k'), t)"
  using upsert [OF assms, of k v] select by fastforce

end

end
