(* ===== verification/Sqlite_Storage.thy ===== *)
theory Sqlite_Storage
  imports Java_Support Storage_Interface
begin

text \<open>
  \<open>src/server/src/main/java/com/kvstore/storage/SQLiteStorage.java\<close>: the Raft log, the applied
  key-value pairs and the indices of a node, in three SQL tables. A method runs one statement;
  the statement's meaning is written out on the tables, kept in row-id order. Whether the
  database raises \<open>SQLException\<close> for a statement is a parameter of every method (\<open>faults\<close>);
  a closed connection always does. A method either turns the exception into a
  \<open>RuntimeException\<close> or prints it and returns a default, as the source does.
\<close>

section \<open>Log entries\<close>

text \<open>The message \<open>LogEntry\<close> of \<open>raft.proto\<close>; the builders of the source never set its index.\<close>

record log_entry =
  le_term :: int
  le_key :: string
  le_value :: string
  le_index :: int

definition new_entry :: "int \<Rightarrow> string \<Rightarrow> string \<Rightarrow> log_entry" where
  "new_entry t k v = \<lparr>le_term = t, le_key = k, le_value = v, le_index = 0\<rparr>"

section \<open>Tables\<close>

record log_row =
  row_index :: int
  row_term :: int
  row_key :: string
  row_value :: string

record state_row =
  st_lastApplied :: int
  st_commitIndex :: int
  st_currentTerm :: int
  st_votedFor :: "string option"

record db =
  conn_open :: bool
  kv_store :: "string \<rightharpoonup> string"
  logs :: "log_row list"
  state_rows :: "state_row list"

text \<open>The statements of the source.\<close>

datatype sql =
    Create_Kv | Create_Logs | Create_State | Insert_State
  | Insert_Log | Select_Range | Select_Entry | Select_Max
  | Select_Commit | Update_Commit | Select_Applied | Update_Applied
  | Delete_From | Upsert_Kv | Select_Kv

type_synonym faults = "db \<Rightarrow> sql \<Rightarrow> bool"

definition stmt :: "faults \<Rightarrow> sql \<Rightarrow> (db \<Rightarrow> 'a \<times> db) \<Rightarrow> (db, jexn, 'a) prog" where
  "stmt F q f = (\<lambda>d.
     if conn_open d \<and> \<not> F d q then (case f d of (x, d') \<Rightarrow> (Val x, d')) else (Exc SQLException, d))"

definition or_throw :: "string \<Rightarrow> (db, jexn, 'a) prog \<Rightarrow> (db, jexn, 'a) prog" where
  "or_throw msg m = try_catch m (\<lambda>e. if e = SQLException then throw (RuntimeException msg) else throw e)"

definition or_print :: "'a \<Rightarrow> (db, jexn, 'a) prog \<Rightarrow> (db, jexn, 'a) prog" where
  "or_print x m = try_catch m (\<lambda>e. if e = SQLException then ret x else throw e)"

section \<open>Opening and closing\<close>

definition initializeDatabase :: "faults \<Rightarrow> (db, jexn, unit) prog" where
  "initializeDatabase F = or_throw ''Failed to initialize database tables''
     (bind (stmt F Create_Kv (\<lambda>d. ((), d))) (\<lambda>_.
      bind (stmt F Create_Logs (\<lambda>d. ((), d))) (\<lambda>_.
      bind (stmt F Create_State (\<lambda>d. ((), d))) (\<lambda>_.
      stmt F Insert_State (\<lambda>d. ((), d\<lparr>state_rows := state_rows d @
        [\<lparr>st_lastApplied = 0, st_commitIndex = 0, st_currentTerm = 0, st_votedFor = None\<rparr>]\<rparr>))))))"

text \<open>
  \<open>connects\<close>: whether the driver manager opens a connection to the URL. The tables are what the
  file already holds.
\<close>

definition SQLiteStorage :: "faults \<Rightarrow> (string \<Rightarrow> bool) \<Rightarrow> string \<Rightarrow> (db, jexn, unit) prog" where
  "SQLiteStorage F connects dbUrl =
     bind (or_throw ''Failed to initialize database''
             (\<lambda>d. if connects dbUrl then (Val (), d\<lparr>conn_open := True\<rparr>) else (Exc SQLException, d))) (\<lambda>_.
     initializeDatabase F)"

definition close_storage :: "(db, jexn, unit) prog" where
  "close_storage = modify (\<lambda>d. d\<lparr>conn_open := False\<rparr>)"

section \<open>The log table\<close>

text \<open>\<open>MAX(index)\<close>, read with \<open>getLong\<close>: 0 for the null of an empty table.\<close>

fun max_index :: "log_row list \<Rightarrow> int" where
  "max_index [] = 0"
| "max_index [r] = row_index r"
| "max_index (r # rs) = max (row_index r) (max_index rs)"

definition entry_of :: "log_row \<Rightarrow> log_entry" where
  "entry_of r = new_entry (row_term r) (row_key r) (row_value r)"

text \<open>The index column is the row id, which the database makes one larger than the largest.\<close>

definition appendLogEntry :: "faults \<Rightarrow> log_entry \<Rightarrow> (db, jexn, int) prog" where
  "appendLogEntry F e = or_throw ''Failed to append log entry''
     (stmt F Insert_Log (\<lambda>d.
        let i = max_index (logs d) + 1 in
        (i, d\<lparr>logs := logs d @ [\<lparr>row_index = i, row_term = le_term e, row_key = le_key e, row_value = le_value e\<rparr>]\<rparr>)))"

definition getLogEntries :: "faults \<Rightarrow> int \<Rightarrow> int \<Rightarrow> (db, jexn, log_entry list) prog" where
  "getLogEntries F startIdx endIdx = or_throw ''Failed to get log entries''
     (stmt F Select_Range (\<lambda>d.
        (map entry_of (filter (\<lambda>r. startIdx \<le> row_index r \<and> row_index r \<le> endIdx) (logs d)), d)))"

text \<open>\<open>null\<close> when there is no such row.\<close>

definition getLogEntry :: "faults \<Rightarrow> int \<Rightarrow> (db, jexn, log_entry option) prog" where
  "getLogEntry F i = or_throw ''Failed to get log entry''
     (stmt F Select_Entry (\<lambda>d. (map_option entry_of (find (\<lambda>r. row_index r = i) (logs d)), d)))"

definition getLastLogIndex :: "faults \<Rightarrow> (db, jexn, int) prog" where
  "getLastLogIndex F = or_throw ''Failed to get log index'' (stmt F Select_Max (\<lambda>d. (max_index (logs d), d)))"

definition getLastLogTerm :: "faults \<Rightarrow> (db, jexn, int) prog" where
  "getLastLogTerm F =
     bind (getLastLogIndex F) (\<lambda>lastIndex.
     if lastIndex > 0 then
       bind (getLogEntry F lastIndex) (\<lambda>entry. ret (case entry of None \<Rightarrow> 0 | Some e \<Rightarrow> le_term e))
     else ret 0)"

definition deleteLogEntriesFrom :: "faults \<Rightarrow> int \<Rightarrow> (db, jexn, unit) prog" where
  "deleteLogEntriesFrom F i = or_print ()
     (stmt F Delete_From (\<lambda>d. ((), d\<lparr>logs := filter (\<lambda>r. \<not> i \<le> row_index r) (logs d)\<rparr>)))"

section \<open>The state table\<close>

text \<open>Reads take the first row; updates have no condition and reach every row.\<close>

definition getCommitIndex :: "faults \<Rightarrow> (db, jexn, int) prog" where
  "getCommitIndex F = or_print 0
     (stmt F Select_Commit (\<lambda>d. (case state_rows d of [] \<Rightarrow> 0 | r # _ \<Rightarrow> st_commitIndex r, d)))"

definition setCommitIndex :: "faults \<Rightarrow> int \<Rightarrow> (db, jexn, unit) prog" where
  "setCommitIndex F c = or_print ()
     (stmt F Update_Commit (\<lambda>d. ((), d\<lparr>state_rows := map (\<lambda>r. r\<lparr>st_commitIndex := c\<rparr>) (state_rows d)\<rparr>)))"

definition getLastApplied :: "faults \<Rightarrow> (db, jexn, int) prog" where
  "getLastApplied F = or_print 0
     (stmt F Select_Applied (\<lambda>d. (case state_rows d of [] \<Rightarrow> 0 | r # _ \<Rightarrow> st_lastApplied r, d)))"

definition setLastApplied :: "faults \<Rightarrow> int \<Rightarrow> (db, jexn, unit) prog" where
  "setLastApplied F a = or_print ()
     (stmt F Update_Applied (\<lambda>d. ((), d\<lparr>state_rows := map (\<lambda>r. r\<lparr>st_lastApplied := a\<rparr>) (state_rows d)\<rparr>)))"

section \<open>The key-value table\<close>

definition updateKeyValue :: "faults \<Rightarrow> string \<Rightarrow> string \<Rightarrow> (db, jexn, unit) prog" where
  "updateKeyValue F k v = or_print () (stmt F Upsert_Kv (\<lambda>d. ((), d\<lparr>kv_store := (kv_store d)(k \<mapsto> v)\<rparr>)))"

definition put_kv :: "faults \<Rightarrow> string \<Rightarrow> string \<Rightarrow> (db, jexn, unit) prog" where
  "put_kv F k v = updateKeyValue F k v"

definition get_kv :: "faults \<Rightarrow> string \<Rightarrow> (db, jexn, string option) prog" where
  "get_kv F k = or_print None (stmt F Select_Kv (\<lambda>d. (kv_store d k, d)))"

section \<open>Statements that succeed\<close>

text \<open>The database accepts every statement.\<close>

definition accepts :: "faults \<Rightarrow> bool" where
  "accepts F \<longleftrightarrow> (\<forall>d q. \<not> F d q)"

lemma stmt_ok: "accepts F \<Longrightarrow> conn_open d \<Longrightarrow> stmt F q f d = (Val (fst (f d)), snd (f d))"
  by (simp add: stmt_def accepts_def split: prod.split)

lemma or_ok [simp]:
  "m d = (Val x, d') \<Longrightarrow> or_throw msg m d = (Val x, d')"
  "m d = (Val x, d') \<Longrightarrow> or_print y m d = (Val x, d')"
  by (simp_all add: or_throw_def or_print_def)

lemma or_fails [simp]:
  "m d = (Exc SQLException, d') \<Longrightarrow> or_throw msg m d = (Exc (RuntimeException msg), d')"
  "m d = (Exc SQLException, d') \<Longrightarrow> or_print y m d = (Val y, d')"
  by (simp_all add: or_throw_def or_print_def)

lemma stmt_fails [simp]: "\<not> conn_open d \<or> F d q \<Longrightarrow> stmt F q f d = (Exc SQLException, d)"
  by (auto simp: stmt_def)

lemmas storage_defs = appendLogEntry_def getLogEntries_def getLogEntry_def getLastLogIndex_def
  deleteLogEntriesFrom_def getCommitIndex_def setCommitIndex_def getLastApplied_def setLastApplied_def
  updateKeyValue_def get_kv_def

section \<open>The log is numbered from 1\<close>

definition indexed :: "log_row list \<Rightarrow> bool" where
  "indexed rows \<longleftrightarrow> map row_index rows = map (\<lambda>i. int i + 1) [0..<length rows]"

definition log_entries :: "db \<Rightarrow> log_entry list" where
  "log_entries d = map entry_of (logs d)"

definition rest_db :: "db \<Rightarrow> bool \<times> (string \<rightharpoonup> string) \<times> state_row list" where
  "rest_db d = (conn_open d, kv_store d, state_rows d)"

definition usable_log :: "faults \<Rightarrow> db \<Rightarrow> bool" where
  "usable_log F d \<longleftrightarrow> accepts F \<and> conn_open d \<and> indexed (logs d)"

lemma indexed_nth: "indexed rows \<Longrightarrow> i < length rows \<Longrightarrow> row_index (rows ! i) = int i + 1"
  unfolding indexed_def by (metis (no_types, lifting) add_0 diff_zero length_upt nth_map nth_upt)

lemma indexed_small [simp]: "indexed []" "indexed [r] \<longleftrightarrow> row_index r = 1"
  by (simp_all add: indexed_def)

lemma indexed_snoc [simp]: "indexed (rows @ [r]) \<longleftrightarrow> indexed rows \<and> row_index r = int (length rows) + 1"
  by (auto simp: indexed_def)

lemma max_index_snoc: "rows \<noteq> [] \<Longrightarrow> max_index (rows @ [r]) = max (max_index rows) (row_index r)"
  by (induction rows rule: max_index.induct) auto

lemma max_index_indexed: "indexed rows \<Longrightarrow> max_index rows = int (length rows)"
proof (induction rows rule: rev_induct)
  case (snoc r rows)
  then show ?case by (cases "rows = []") (simp_all add: max_index_snoc)
qed simp

lemma find_indexed:
  assumes "indexed rows"
  shows "find (\<lambda>r. row_index r = i) rows =
    (if 1 \<le> i \<and> i \<le> int (length rows) then Some (rows ! nat (i - 1)) else None)"
  using assms
proof (induction rows rule: rev_induct)
  case (snoc r rows)
  have "find (\<lambda>r. row_index r = i) (rows @ [r]) =
      (case find (\<lambda>r. row_index r = i) rows of None \<Rightarrow> if row_index r = i then Some r else None | Some x \<Rightarrow> Some x)"
    by (induction rows) auto
  with snoc show ?case by (auto simp: nth_append)
qed simp

lemma filter_indexed_less:
  assumes "indexed rows" and "1 \<le> i"
  shows "filter (\<lambda>r. \<not> i \<le> row_index r) rows = take (nat (i - 1)) rows"
  using assms
proof (induction rows rule: rev_induct)
  case (snoc r rows)
  then show ?case by (auto simp: take_Cons' split: if_splits)
qed simp

lemma filter_indexed_range:
  assumes "indexed rows" and "1 \<le> i"
  shows "filter (\<lambda>r. i \<le> row_index r \<and> row_index r \<le> j) rows = drop (nat (i - 1)) (take (nat j) rows)"
  using assms
proof (induction rows rule: rev_induct)
  case (snoc r rows)
  then show ?case by (cases "nat j \<le> length rows") (auto simp: drop_Cons' split: if_splits)
qed simp

lemma filter_indexed_from:
  "indexed rows \<Longrightarrow> 1 \<le> i \<Longrightarrow> int (length rows) \<le> j \<Longrightarrow>
     filter (\<lambda>r. i \<le> row_index r \<and> row_index r \<le> j) rows = drop (nat (i - 1)) rows"
  by (simp add: filter_indexed_range)

lemma indexed_take: "indexed rows \<Longrightarrow> indexed (take n rows)"
proof (induction rows rule: rev_induct)
  case (snoc r rows)
  show ?case
  proof (cases "n \<le> length rows")
    case True
    with snoc show ?thesis by simp
  next
    case False
    then have "take n (rows @ [r]) = rows @ [r]" by simp
    with snoc.prems show ?thesis by simp
  qed
qed simp

interpretation sqlite: log_store "usable_log F" log_entries rest_db "\<lambda>e. new_entry (le_term e) (le_key e) (le_value e)"
  "getLastLogIndex F" "getLogEntry F" "getLogEntries F" "appendLogEntry F" "deleteLogEntriesFrom F"
  for F
proof unfold_locales
  fix s i e
  assume u: "usable_log F s"
  then have ok: "accepts F" "conn_open s" "indexed (logs s)" by (simp_all add: usable_log_def)
  show "getLastLogIndex F s = (Val (int (length (log_entries s))), s)"
    using ok by (simp add: getLastLogIndex_def stmt_ok max_index_indexed log_entries_def)
  show "getLogEntry F i s =
      (Val (if 1 \<le> i \<and> i \<le> int (length (log_entries s)) then Some (log_entries s ! nat (i - 1)) else None), s)"
    using ok by (auto simp: getLogEntry_def stmt_ok find_indexed log_entries_def)
  show "\<exists>t. appendLogEntry F e s = (Val (int (length (log_entries s)) + 1), t) \<and> usable_log F t \<and>
      log_entries t = log_entries s @ [new_entry (le_term e) (le_key e) (le_value e)] \<and> rest_db t = rest_db s"
    using ok by (simp add: rest_db_def appendLogEntry_def stmt_ok Let_def max_index_indexed log_entries_def usable_log_def entry_of_def)
  assume i: "1 \<le> i"
  show "getLogEntries F i (int (length (log_entries s))) s = (Val (drop (nat (i - 1)) (log_entries s)), s)"
    using ok i by (simp add: getLogEntries_def stmt_ok filter_indexed_from log_entries_def drop_map)
  show "\<exists>t. deleteLogEntriesFrom F i s = (Val (), t) \<and> usable_log F t \<and>
      log_entries t = take (nat (i - 1)) (log_entries s) \<and> rest_db t = rest_db s"
    using ok i by (simp add: rest_db_def deleteLogEntriesFrom_def stmt_ok filter_indexed_less log_entries_def take_map
        usable_log_def indexed_take)
qed

interpretation sqlite_kv: kv_table "\<lambda>d. accepts F \<and> conn_open d" kv_store "updateKeyValue F" "get_kv F"
  for F
  by unfold_locales (simp_all add: updateKeyValue_def get_kv_def stmt_ok)

section \<open>The indices\<close>

definition commit_of :: "db \<Rightarrow> int" where
  "commit_of d = (case state_rows d of [] \<Rightarrow> 0 | r # _ \<Rightarrow> st_commitIndex r)"

definition applied_of :: "db \<Rightarrow> int" where
  "applied_of d = (case state_rows d of [] \<Rightarrow> 0 | r # _ \<Rightarrow> st_lastApplied r)"

definition with_commit :: "int \<Rightarrow> db \<Rightarrow> db" where
  "with_commit c d = d\<lparr>state_rows := map (\<lambda>r. r\<lparr>st_commitIndex := c\<rparr>) (state_rows d)\<rparr>"

definition with_applied :: "int \<Rightarrow> db \<Rightarrow> db" where
  "with_applied a d = d\<lparr>state_rows := map (\<lambda>r. r\<lparr>st_lastApplied := a\<rparr>) (state_rows d)\<rparr>"

lemma index_ops:
  assumes "accepts F" and "conn_open d"
  shows "getCommitIndex F d = (Val (commit_of d), d)" "getLastApplied F d = (Val (applied_of d), d)"
    and "setCommitIndex F c d = (Val (), with_commit c d)" "setLastApplied F a d = (Val (), with_applied a d)"
    and "updateKeyValue F k v d = (Val (), d\<lparr>kv_store := (kv_store d)(k \<mapsto> v)\<rparr>)"
  using assms by (simp_all add: storage_defs stmt_ok commit_of_def applied_of_def with_commit_def with_applied_def)

lemma index_laws [simp]:
  "state_rows d \<noteq> [] \<Longrightarrow> commit_of (with_commit c d) = c" "state_rows d \<noteq> [] \<Longrightarrow> applied_of (with_applied a d) = a"
  "commit_of (with_applied a d) = commit_of d" "applied_of (with_commit c d) = applied_of d"
  "kv_store (with_commit c d) = kv_store d" "kv_store (with_applied a d) = kv_store d"
  "logs (with_commit c d) = logs d" "logs (with_applied a d) = logs d"
  "conn_open (with_commit c d) = conn_open d" "conn_open (with_applied a d) = conn_open d"
  "state_rows (with_commit c d) = [] \<longleftrightarrow> state_rows d = []" "state_rows (with_applied a d) = [] \<longleftrightarrow> state_rows d = []"
  "commit_of (d\<lparr>kv_store := m\<rparr>) = commit_of d" "applied_of (d\<lparr>kv_store := m\<rparr>) = applied_of d"
  by (auto simp: commit_of_def applied_of_def with_commit_def with_applied_def split: list.splits)

lemma rest_db_eq:
  "rest_db d' = rest_db d \<Longrightarrow> conn_open d' = conn_open d \<and> kv_store d' = kv_store d \<and> state_rows d' = state_rows d \<and>
     commit_of d' = commit_of d \<and> applied_of d' = applied_of d"
  by (simp add: rest_db_def commit_of_def applied_of_def)

end
