(* ===== verification/Raft_Node.thy ===== *)
theory Raft_Node
  imports Raft_State Sqlite_Storage "HOL-Library.AList"
begin

text \<open>
  \<open>src/server/src/main/java/com/kvstore/raft/RaftNode.java\<close>: elections, log replication,
  commitment and application of entries. Every method is a computation on the node's state,
  with its exceptions; work handed to an executor is a pending task. The concurrent hash maps
  are association lists with distinct keys, in an arbitrary iteration order.

  Indices are unbounded integers: each is at most one larger than a row id that exists, so no
  \<open>long\<close> among them can overflow before the log table has \<open>2 ^ 63 - 1\<close> rows.
\<close>

section \<open>State\<close>

record node_info =
  ni_id :: string
  ni_host :: string
  ni_port :: int

text \<open>
  Tasks handed to the worker pool: sending to a follower, one vote request (with the log
  position captured when the election started), and the callback that counts the votes.
\<close>

datatype task = Send_Task string | Vote_Task string int int | Election_Callback

record raft_node =
  nodeId :: string
  peers :: "(string \<times> node_info) list"
  storage :: db
  state :: raft_state
  grpcChannels :: "(string \<times> string \<times> int) list"
  nextIndex :: "(string \<times> int) list"
  matchIndex :: "(string \<times> int) list"
  votedFor :: "string option"
  electionTimer :: "int option"
  random :: "nat \<Rightarrow> int"
  random_calls :: nat
  tasks :: "task list"
  running :: bool

text \<open>
  \<open>random k\<close> is the value of \<open>(long) (Math.random() * 150)\<close> at the \<open>k\<close>-th call, between 0
  and 149.
\<close>

type_synonym 'a raft = "(raft_node, jexn, 'a) prog"

definition on_db :: "(db, jexn, 'a) prog \<Rightarrow> 'a raft" where
  "on_db m = (\<lambda>n. case m (storage n) of (r, d) \<Rightarrow> (r, n\<lparr>storage := d\<rparr>))"

text \<open>Calling a method on a reference that may be null.\<close>

definition deref :: "'a option \<Rightarrow> 'a raft" where
  "deref x = (case x of None \<Rightarrow> throw NullPointerException | Some y \<Rightarrow> ret y)"

definition read_node :: "(raft_node \<Rightarrow> 'a) \<Rightarrow> 'a raft" where
  "read_node f = (\<lambda>n. (Val (f n), n))"

fun for_each :: "('a \<Rightarrow> unit raft) \<Rightarrow> 'a list \<Rightarrow> unit raft" where
  "for_each f [] = ret ()"
| "for_each f (x # xs) = bind (f x) (\<lambda>_. for_each f xs)"

section \<open>Construction\<close>

definition initializeGrpcChannels :: "(string \<times> node_info) list \<Rightarrow> string list \<Rightarrow> (string \<times> string \<times> int) list" where
  "initializeGrpcChannels ps peerIds =
     fold (\<lambda>id channels. case map_of ps id of
             None \<Rightarrow> channels
           | Some info \<Rightarrow> AList.update id (ni_host info, ni_port info) channels) peerIds []"

definition RaftNode :: "(nat \<Rightarrow> int) \<Rightarrow> string \<Rightarrow> string list \<Rightarrow> db \<Rightarrow> raft_node" where
  "RaftNode rnd node peerIds d =
     (let ps = fold (\<lambda>id. AList.update id \<lparr>ni_id = id, ni_host = ''localhost'', ni_port = 50051\<rparr>) peerIds [] in
      \<lparr>nodeId = node, peers = ps, storage = d, state = newRaftState,
       grpcChannels = initializeGrpcChannels ps peerIds, nextIndex = [], matchIndex = [], votedFor = None,
       electionTimer = None, random = rnd, random_calls = 0, tasks = [], running = True\<rparr>)"

section \<open>Applying committed entries\<close>

definition applyToStateMachine :: "faults \<Rightarrow> log_entry option \<Rightarrow> unit raft" where
  "applyToStateMachine F entry = bind (deref entry) (\<lambda>e. on_db (updateKeyValue F (le_key e) (le_value e)))"

definition applyCommittedEntries :: "faults \<Rightarrow> unit raft" where
  "applyCommittedEntries F =
     bind (on_db (getLastApplied F)) (\<lambda>lastApplied.
     bind (on_db (getCommitIndex F)) (\<lambda>commitIndex.
     bind (for_each (\<lambda>i. bind (on_db (getLogEntry F i)) (applyToStateMachine F)) [lastApplied + 1..commitIndex]) (\<lambda>_.
     on_db (setLastApplied F (max lastApplied commitIndex)))))"

section \<open>Receiving entries\<close>

text \<open>
  The pending timer is cancelled and a new one scheduled; a scheduler that has been shut down
  rejects it.
\<close>

definition resetElectionTimer :: "unit raft" where
  "resetElectionTimer =
     bind (modify (\<lambda>n. n\<lparr>electionTimer := None\<rparr>)) (\<lambda>_.
     bind (read_node (\<lambda>n. 150 + random n (random_calls n))) (\<lambda>timeout.
     bind (modify (\<lambda>n. n\<lparr>random_calls := random_calls n + 1\<rparr>)) (\<lambda>_.
     bind (read_node running) (\<lambda>up.
     if up then modify (\<lambda>n. n\<lparr>electionTimer := Some timeout\<rparr>) else throw RejectedExecutionException))))"

text \<open>The loop over the entries; \<open>index\<close> is the position of the first of those that are left.\<close>

fun append_loop :: "faults \<Rightarrow> int \<Rightarrow> log_entry list \<Rightarrow> unit raft" where
  "append_loop F index [] = ret ()"
| "append_loop F index (e # es) =
     bind (on_db (getLastLogIndex F)) (\<lambda>l.
     if index \<le> l then
       bind (on_db (getLogEntry F index)) (\<lambda>x.
       bind (deref x) (\<lambda>old.
       if le_term old \<noteq> le_term e then
         bind (on_db (deleteLogEntriesFrom F index)) (\<lambda>_.
         bind (on_db (appendLogEntry F e)) (\<lambda>_. append_loop F (index + 1) es))
       else append_loop F (index + 1) es))
     else bind (on_db (appendLogEntry F e)) (\<lambda>_. append_loop F (index + 1) es))"

text \<open>\<open>prevLogIndex > 0 && storage.getLogEntry(prevLogIndex).getTerm() != prevLogTerm\<close>\<close>

definition prev_differs :: "faults \<Rightarrow> int \<Rightarrow> int \<Rightarrow> bool raft" where
  "prev_differs F prevLogIndex prevLogTerm =
     (if prevLogIndex > 0 then
        bind (on_db (getLogEntry F prevLogIndex)) (\<lambda>x. bind (deref x) (\<lambda>e. ret (le_term e \<noteq> prevLogTerm)))
      else ret False)"

definition appendEntries :: "faults \<Rightarrow> string \<Rightarrow> int \<Rightarrow> int \<Rightarrow> int \<Rightarrow> log_entry list \<Rightarrow> int \<Rightarrow> bool raft" where
  "appendEntries F leaderId tm prevLogIndex prevLogTerm entries leaderCommit =
     bind (read_node (\<lambda>n. currentTerm (state n))) (\<lambda>current.
     if tm < current then ret False else
     bind (modify (\<lambda>n. if tm > current
                       then n\<lparr>state := becomeFollower tm (setCurrentTerm tm (state n)), votedFor := None\<rparr>
                       else n)) (\<lambda>_.
     bind resetElectionTimer (\<lambda>_.
     bind (on_db (getLastLogIndex F)) (\<lambda>l.
     bind (if l < prevLogIndex then ret True else prev_differs F prevLogIndex prevLogTerm) (\<lambda>mismatch.
     if mismatch then ret False else
     bind (append_loop F (prevLogIndex + 1) entries) (\<lambda>_.
     bind (on_db (getCommitIndex F)) (\<lambda>c.
     bind (if leaderCommit > c then
             bind (on_db (getLastLogIndex F)) (\<lambda>l'.
             bind (on_db (setCommitIndex F (min leaderCommit l'))) (\<lambda>_. applyCommittedEntries F))
           else ret ()) (\<lambda>_.
     ret True))))))))"

section \<open>Sending entries and committing\<close>

definition replicationCount :: "raft_node \<Rightarrow> int \<Rightarrow> int" where
  "replicationCount n i = 1 + int (length (filter (\<lambda>m. i \<le> m) (map snd (matchIndex n))))"

definition peersSize :: "raft_node \<Rightarrow> int" where
  "peersSize n = int (length (peers n))"

text \<open>The test of commitment and of elections: \<open>count > peers.size() / 2\<close>.\<close>

definition quorum :: "int \<Rightarrow> int \<Rightarrow> bool" where
  "quorum counted n_peers \<longleftrightarrow> counted > n_peers div 2"

text \<open>The body of the loop over the indices.\<close>

definition commit_check :: "faults \<Rightarrow> int \<Rightarrow> unit raft" where
  "commit_check F i =
     bind (on_db (getLogEntry F i)) (\<lambda>x.
     bind (deref x) (\<lambda>e.
     bind (read_node (\<lambda>n. le_term e = currentTerm (state n) \<and> quorum (replicationCount n i) (peersSize n))) (\<lambda>commit.
     if commit then bind (on_db (setCommitIndex F i)) (\<lambda>_. applyCommittedEntries F) else ret ())))"

definition updateCommitIndex :: "faults \<Rightarrow> unit raft" where
  "updateCommitIndex F =
     bind (on_db (getLastLogIndex F)) (\<lambda>lastLogIndex.
     bind (on_db (getCommitIndex F)) (\<lambda>commitIndex.
     for_each (commit_check F) [commitIndex + 1..lastLogIndex]))"

definition getOrDefault :: "(string \<times> int) list \<Rightarrow> string \<Rightarrow> int \<Rightarrow> int" where
  "getOrDefault m k v = (case map_of m k of None \<Rightarrow> v | Some x \<Rightarrow> x)"

text \<open>The entries are sent by calling \<open>appendEntries\<close> of the node itself.\<close>

definition sendAppendEntries :: "faults \<Rightarrow> string \<Rightarrow> unit raft" where
  "sendAppendEntries F follower =
     bind (read_node (\<lambda>n. getOrDefault (nextIndex n) follower 1)) (\<lambda>nextIdx.
     bind (on_db (getLastLogIndex F)) (\<lambda>l.
     bind (on_db (getLogEntries F nextIdx l)) (\<lambda>entries.
     bind (if nextIdx - 1 > 0
           then bind (on_db (getLogEntry F (nextIdx - 1))) (\<lambda>x. bind (deref x) (\<lambda>e. ret (le_term e)))
           else ret 0) (\<lambda>prevLogTerm.
     bind (read_node (\<lambda>n. currentTerm (state n))) (\<lambda>tm.
     bind (on_db (getCommitIndex F)) (\<lambda>commitIndex.
     bind (appendEntries F follower tm (nextIdx - 1) prevLogTerm entries commitIndex) (\<lambda>success.
     if success then
       bind (on_db (getLastLogIndex F)) (\<lambda>l1.
       bind (modify (\<lambda>n. n\<lparr>nextIndex := AList.update follower (l1 + 1) (nextIndex n)\<rparr>)) (\<lambda>_.
       bind (on_db (getLastLogIndex F)) (\<lambda>l2.
       bind (modify (\<lambda>n. n\<lparr>matchIndex := AList.update follower l2 (matchIndex n)\<rparr>)) (\<lambda>_.
       updateCommitIndex F))))
     else modify (\<lambda>n. n\<lparr>nextIndex :=
            AList.update follower (max 1 (getOrDefault (nextIndex n) follower 1 - 1)) (nextIndex n)\<rparr>))))))))"

definition replicateEntry :: "faults \<Rightarrow> bool raft" where
  "replicateEntry F =
     bind (read_node (\<lambda>n. map fst (peers n))) (\<lambda>ids.
     bind (for_each (sendAppendEntries F) ids) (\<lambda>_.
     bind (updateCommitIndex F) (\<lambda>_. ret True)))"

definition proposeEntry :: "faults \<Rightarrow> string \<Rightarrow> string \<Rightarrow> bool raft" where
  "proposeEntry F key v =
     bind (read_node state) (\<lambda>st.
     if currentRole st \<noteq> LEADER then ret False else
     bind (on_db (appendLogEntry F (new_entry (currentTerm st) key v))) (\<lambda>_.
     bind (on_db (getLastLogIndex F)) (\<lambda>_. replicateEntry F)))"

text \<open>Handing a task to the worker pool, which rejects it after its shutdown.\<close>

definition submit :: "task \<Rightarrow> unit raft" where
  "submit t = bind (read_node running) (\<lambda>up.
     if up then modify (\<lambda>n. n\<lparr>tasks := tasks n @ [t]\<rparr>) else throw RejectedExecutionException)"

definition heartbeatTask :: "unit raft" where
  "heartbeatTask =
     bind (read_node (\<lambda>n. currentRole (state n))) (\<lambda>r.
     if r = LEADER
     then bind (read_node (\<lambda>n. map fst (peers n))) (for_each (\<lambda>p. submit (Send_Task p)))
     else ret ())"

section \<open>Elections\<close>

definition becomeLeader :: "faults \<Rightarrow> unit raft" where
  "becomeLeader F =
     bind (modify (\<lambda>n. n\<lparr>state := role_becomeLeader (state n)\<rparr>)) (\<lambda>_.
     bind (on_db (getLastLogIndex F)) (\<lambda>l.
     modify (\<lambda>n. n\<lparr>nextIndex := fold (\<lambda>id. AList.update id (l + 1)) (map fst (peers n)) (nextIndex n),
                   matchIndex := fold (\<lambda>id. AList.update id 0) (map fst (peers n)) (matchIndex n)\<rparr>)))"

text \<open>
  What \<open>join\<close> on an element of \<open>voteFutures\<close> returns. The elements are made by
  \<open>supplyAsync(() -> requestVote(...))\<close>, and \<open>requestVote\<close> itself returns a future, so they
  complete with that inner future; \<open>Boolean::booleanValue\<close> casts it.
\<close>

datatype joined = Boolean_Value bool | Future_Value string

fun count_true :: "joined list \<Rightarrow> (jexn, int) outcome" where
  "count_true [] = Val 0"
| "count_true (Future_Value p # vs) = Exc ClassCastException"
| "count_true (Boolean_Value b # vs) =
     (case count_true vs of Val k \<Rightarrow> Val (if b then k + 1 else k) | r \<Rightarrow> r)"

definition voteFutures :: "raft_node \<Rightarrow> joined list" where
  "voteFutures n = map (\<lambda>p. Future_Value (fst p)) (peers n)"

text \<open>
  The \<open>thenAccept\<close> callback: counting the votes, then becoming the leader on a majority. An
  exception in it completes a future that nobody reads.
\<close>

definition countVotes :: "int raft" where
  "countVotes = (\<lambda>n. (count_true (voteFutures n), n))"

definition electionCallback :: "faults \<Rightarrow> unit raft" where
  "electionCallback F = try_catch
     (bind countVotes (\<lambda>k.
      bind (read_node peersSize) (\<lambda>n_peers.
      if quorum (k + 1) n_peers then becomeLeader F else ret ())))
     (\<lambda>e. ret ())"

text \<open>
  \<open>allOf\<close> of no futures is complete at once, so that without peers the callback runs within the
  call; otherwise it waits for the votes.
\<close>

definition startElection :: "faults \<Rightarrow> unit raft" where
  "startElection F =
     bind (modify (\<lambda>n. n\<lparr>state := becomeCandidate (state n), votedFor := Some (nodeId n)\<rparr>)) (\<lambda>_.
     bind (on_db (getLastLogIndex F)) (\<lambda>lastLogIndex.
     bind (on_db (getLastLogTerm F)) (\<lambda>lastLogTerm.
     bind (read_node (\<lambda>n. map fst (peers n))) (\<lambda>ids.
     bind (for_each (\<lambda>p. submit (Vote_Task p lastLogIndex lastLogTerm)) ids) (\<lambda>_.
     if ids = [] then electionCallback F
     else modify (\<lambda>n. n\<lparr>tasks := tasks n @ [Election_Callback]\<rparr>))))))"

definition leaderElectionTask :: "faults \<Rightarrow> unit raft" where
  "leaderElectionTask F = (\<lambda>n. if currentRole (state n) \<noteq> LEADER then startElection F n else (Val (), n))"

record vote_request =
  vr_term :: int
  vr_candidateId :: string
  vr_lastLogIndex :: int
  vr_lastLogTerm :: int

record vote_response =
  vs_term :: int
  vs_voteGranted :: bool

text \<open>
  The RPC's answer is a parameter; \<open>None\<close> is an exception from the stub. A call that never returns, which the code allows since it sets no deadline, is not
  a run of this definition; it is in \<open>Locked_Threads\<close>, where it matters that the lock is held.
\<close>

definition requestVote :: "(string \<Rightarrow> vote_request \<Rightarrow> vote_response option) \<Rightarrow> string \<Rightarrow> int \<Rightarrow> int \<Rightarrow> bool raft" where
  "requestVote rpc peer lastLogIndex lastLogTerm = (\<lambda>n.
     case rpc peer \<lparr>vr_term = currentTerm (state n), vr_candidateId = nodeId n,
                    vr_lastLogIndex = lastLogIndex, vr_lastLogTerm = lastLogTerm\<rparr> of
       None \<Rightarrow> (Val False, n)
     | Some response \<Rightarrow>
         if vs_term response > currentTerm (state n) then
           (Val False, n\<lparr>state := becomeFollower (vs_term response) (setCurrentTerm (vs_term response) (state n)),
                         votedFor := None\<rparr>)
         else (Val (vs_voteGranted response), n))"

section \<open>Shutdown\<close>

definition shutdown_node :: "unit raft" where
  "shutdown_node = bind (modify (\<lambda>n. n\<lparr>running := False\<rparr>)) (\<lambda>_. on_db close_storage)"

end
