(* ===== verification/Raft_Log.thy ===== *)
theory Raft_Log
  imports Raft_Node
begin

text \<open>
  The log of a node: the abstract effect of receiving entries (\<open>log_splice\<close>), the replay of applied
  entries, and the invariant that ties the key-value table to the log. The node's methods are
  shown to refine these.
\<close>

section \<open>Specifications\<close>

text \<open>
  Receiving entries at position \<open>i\<close> (counted from 0): entries whose terms agree stay, the first
  disagreement cuts the log there, entries beyond the end are added.
\<close>

abbreviation stored :: "log_entry \<Rightarrow> log_entry" where
  "stored e \<equiv> new_entry (le_term e) (le_key e) (le_value e)"

fun log_splice :: "log_entry list \<Rightarrow> nat \<Rightarrow> log_entry list \<Rightarrow> log_entry list" where
  "log_splice l i [] = l"
| "log_splice l i (e # es) =
     (if i < length l then
        if le_term (l ! i) \<noteq> le_term e then log_splice (take i l @ [stored e]) (Suc i) es
        else log_splice l (Suc i) es
      else log_splice (l @ [stored e]) (Suc i) es)"

fun replay :: "log_entry list \<Rightarrow> (string \<rightharpoonup> string) \<Rightarrow> (string \<rightharpoonup> string)" where
  "replay [] m = m"
| "replay (e # es) m = replay es (m(le_key e \<mapsto> le_value e))"

abbreviation node_log :: "raft_node \<Rightarrow> log_entry list" where
  "node_log n \<equiv> log_entries (storage n)"

abbreviation node_commit :: "raft_node \<Rightarrow> int" where
  "node_commit n \<equiv> commit_of (storage n)"

abbreviation node_applied :: "raft_node \<Rightarrow> int" where
  "node_applied n \<equiv> applied_of (storage n)"

text \<open>
  The database answers, the log is numbered from 1, the applied and the committed index are in
  order and within the log, and the key-value table is what applying the log up to
  \<open>lastApplied\<close> gives.
\<close>

definition node_inv :: "faults \<Rightarrow> raft_node \<Rightarrow> bool" where
  "node_inv F n \<longleftrightarrow> usable_log F (storage n) \<and> state_rows (storage n) \<noteq> [] \<and>
     0 \<le> node_applied n \<and> node_applied n \<le> node_commit n \<and> node_commit n \<le> int (length (node_log n)) \<and>
     kv_store (storage n) = replay (take (nat (node_applied n)) (node_log n)) Map.empty"

definition rest_node :: "raft_node \<Rightarrow> raft_node" where
  "rest_node n = n\<lparr>storage := (storage n)\<lparr>logs := []\<rparr>\<rparr>"

section \<open>Laws of the specifications\<close>

lemma replay_append: "replay (xs @ ys) m = replay ys (replay xs m)"
  by (induction xs arbitrary: m) auto

lemma log_splice_prefix: "i \<le> length l \<Longrightarrow> take i (log_splice l i es) = take i l"
proof (induction l i es rule: log_splice.induct)
  case (2 l i e es)
  show ?case
  proof (cases "i < length l \<and> le_term (l ! i) = le_term e")
    case True
    with 2 have "take (Suc i) (log_splice l (Suc i) es) = take (Suc i) l" by simp
    then have "take i (take (Suc i) (log_splice l (Suc i) es)) = take i (take (Suc i) l)" by simp
    with True show ?thesis by (simp add: min_def)
  next
    case False
    let ?l = "take i l @ [stored e]"
    have eq: "log_splice l i (e # es) = log_splice ?l (Suc i) es"
      using False "2.prems" by auto
    have "take (Suc i) (log_splice ?l (Suc i) es) = take (Suc i) ?l"
      using False "2.IH" "2.prems" by (cases "i < length l") auto
    then have "take i (take (Suc i) (log_splice ?l (Suc i) es)) = take i (take (Suc i) ?l)" by simp
    with eq "2.prems" show ?thesis by (simp add: min_def)
  qed
qed simp

lemma log_splice_step:
  assumes "i \<le> length l"
  obtains l' where "log_splice l i (e # es) = log_splice l' (Suc i) es" and "Suc i \<le> length l'"
    and "take i l' = take i l" and "le_term (l' ! i) = le_term e"
proof (cases "i < length l \<and> le_term (l ! i) = le_term e")
  case True
  then show thesis using that [of l] by auto
next
  case False
  then show thesis using that [of "take i l @ [stored e]"] assms
    by (auto simp: new_entry_def nth_append)
qed

text \<open>The received terms are in the log, in place.\<close>

lemma log_splice_terms:
  "i \<le> length l \<Longrightarrow> j < length es \<Longrightarrow>
     i + j < length (log_splice l i es) \<and> le_term (log_splice l i es ! (i + j)) = le_term (es ! j)"
proof (induction es arbitrary: l i j)
  case (Cons e es)
  obtain l' where l': "log_splice l i (e # es) = log_splice l' (Suc i) es" "Suc i \<le> length l'" "le_term (l' ! i) = le_term e"
    using Cons.prems(1) by (rule log_splice_step)
  show ?case
  proof (cases j)
    case 0
    have "take (Suc i) (log_splice l' (Suc i) es) = take (Suc i) l'"
      using l'(2) by (rule log_splice_prefix)
    moreover from this have "i < length (log_splice l' (Suc i) es)"
      using l'(2) by (metis Suc_le_eq length_take min.absorb2 min_less_iff_conj lessI)
    ultimately show ?thesis
      using 0 l' by (metis add.right_neutral lessI nth_Cons_0 nth_take)
  next
    case (Suc k)
    with Cons.IH [OF l'(2), of k] Cons.prems(2) l'(1) show ?thesis by simp
  qed
qed simp

text \<open>Nothing that the received entries agree with is lost.\<close>

lemma log_splice_agree:
  "(\<And>j. j < length es \<Longrightarrow> i + j < length l \<Longrightarrow> le_term (l ! (i + j)) = le_term (es ! j)) \<Longrightarrow> i \<le> length l \<Longrightarrow>
     log_splice l i es = l @ map stored (drop (length l - i) es)"
proof (induction es arbitrary: l i)
  case (Cons e es)
  show ?case
  proof (cases "i < length l")
    case True
    have "le_term (l ! i) = le_term e" using Cons.prems(1) [of 0] True by simp
    moreover have "log_splice l (Suc i) es = l @ map stored (drop (length l - Suc i) es)"
    proof (rule Cons.IH)
      fix j assume "j < length es" "Suc i + j < length l"
      then show "le_term (l ! (Suc i + j)) = le_term (es ! j)" using Cons.prems(1) [of "Suc j"] by simp
    qed (use True in simp)
    moreover have "length l - i = Suc (length l - Suc i)" using True by simp
    ultimately show ?thesis using True by simp
  next
    case False
    then have i: "i = length l" using Cons.prems(2) by simp
    have "log_splice (l @ [stored e]) (Suc i) es = (l @ [stored e]) @ map stored (drop (length (l @ [stored e]) - Suc i) es)"
      by (rule Cons.IH) (use i in auto)
    with i show ?thesis by simp
  qed
qed simp

lemma log_splice_self: "log_splice l i (drop i l) = l" if "i \<le> length l"
  using that by (subst log_splice_agree) (auto simp: nth_append)

text \<open>
  If equal terms at equal positions mean equal entries (the log matching property), then a log
  that agrees with the leader's up to \<open>i\<close> agrees with it to the end after receiving the
  rest of it.
\<close>

definition matching :: "log_entry list \<Rightarrow> log_entry list \<Rightarrow> bool" where
  "matching l k \<longleftrightarrow> (\<forall>j. j < length l \<and> j < length k \<and> le_term (l ! j) = le_term (k ! j) \<longrightarrow> l ! j = k ! j)"

lemma log_splice_leader:
  "take i l = take i k \<Longrightarrow> i \<le> length k \<Longrightarrow> i \<le> length l \<Longrightarrow> matching l k \<Longrightarrow> \<forall>e\<in>set k. stored e = e \<Longrightarrow>
     take (length k) (log_splice l i (drop i k)) = k"
proof (induction "drop i k" arbitrary: l i)
  case (Cons e es)
  have i: "i < length k" "e = k ! i" "es = drop (Suc i) k"
    using Cons.hyps(2) by (metis drop_eq_Nil list.simps(3) not_le, metis list.sel(1) drop_eq_Nil hd_drop_conv_nth list.simps(3) not_le,
        metis list.sel(3) drop_Suc tl_drop)
  have fix_e: "stored e = e" using Cons.prems(5) i by auto
  have k: "take (Suc i) k = take i k @ [e]" using i by (simp add: take_Suc_conv_app_nth)
  show ?case
  proof (cases "i < length l \<and> le_term (l ! i) = le_term e")
    case True
    then have "l ! i = e" using Cons.prems(4) i by (auto simp: matching_def)
    then have "take (Suc i) l = take (Suc i) k" using True Cons.prems(1) k by (simp add: take_Suc_conv_app_nth)
    then have "take (length k) (log_splice l (Suc i) (drop (Suc i) k)) = k"
      using Cons.prems True i by (intro Cons.hyps(1)) auto
    then show ?thesis using True Cons.hyps(2) i by (metis log_splice.simps(2))
  next
    case False
    let ?l = "take i k @ [e]"
    have "take (length k) (log_splice ?l (Suc i) (drop (Suc i) k)) = k"
      using Cons.prems i k by (intro Cons.hyps(1)) (auto simp: matching_def nth_append less_Suc_eq)
    moreover have "log_splice l i (drop i k) = log_splice ?l (Suc i) (drop (Suc i) k)"
      using False Cons.prems(1,3) Cons.hyps(2) i fix_e by (auto simp flip: Cons.hyps(2))
    ultimately show ?thesis by simp
  qed
qed simp

section \<open>Storage operations on the node\<close>

lemma on_db_eq [simp]: "m (storage n) = (r, d) \<Longrightarrow> on_db m n = (r, n\<lparr>storage := d\<rparr>)"
  by (simp add: on_db_def)

lemma read_node_eq [simp]: "read_node f n = (Val (f n), n)"
  by (simp add: read_node_def)

lemma deref_eq [simp]: "deref (Some x) = ret x" "deref None = throw NullPointerException"
  by (simp_all add: deref_def)

abbreviation usable :: "faults \<Rightarrow> raft_node \<Rightarrow> bool" where
  "usable F n \<equiv> usable_log F (storage n)"

lemma usable_open: "usable F n \<Longrightarrow> accepts F \<and> conn_open (storage n)"
  by (simp add: usable_log_def)

lemma rest_node_db: "rest_db d = rest_db (storage n) \<Longrightarrow> rest_node (n\<lparr>storage := d\<rparr>) = rest_node n"
  by (simp add: rest_node_def rest_db_def)

interpretation node_store: log_store "usable F" node_log rest_node "\<lambda>e. stored e"
  "on_db (getLastLogIndex F)" "\<lambda>i. on_db (getLogEntry F i)" "\<lambda>i j. on_db (getLogEntries F i j)"
  "\<lambda>e. on_db (appendLogEntry F e)" "\<lambda>i. on_db (deleteLogEntriesFrom F i)"
  for F
proof unfold_locales
  fix n i e
  assume u: "usable F n"
  show "on_db (getLastLogIndex F) n = (Val (int (length (node_log n))), n)"
    using sqlite.last_index [OF u] by simp
  show "on_db (getLogEntry F i) n =
      (Val (if 1 \<le> i \<and> i \<le> int (length (node_log n)) then Some (node_log n ! nat (i - 1)) else None), n)"
    using sqlite.get_entry [OF u, of i] by simp
  show "\<exists>t. on_db (appendLogEntry F e) n = (Val (int (length (node_log n)) + 1), t) \<and> usable F t \<and>
      node_log t = node_log n @ [stored e] \<and> rest_node t = rest_node n"
    using sqlite.append_entry [OF u, of e] by (force intro: rest_node_db)
  assume i: "1 \<le> i"
  show "on_db (getLogEntries F i (int (length (node_log n)))) n = (Val (drop (nat (i - 1)) (node_log n)), n)"
    using sqlite.get_range [OF u i] by simp
  show "\<exists>t. on_db (deleteLogEntriesFrom F i) n = (Val (), t) \<and> usable F t \<and>
      node_log t = take (nat (i - 1)) (node_log n) \<and> rest_node t = rest_node n"
    using sqlite.delete_from [OF u i] by (force intro: rest_node_db)
qed

lemma rest_node_eq:
  "rest_node m = rest_node n \<Longrightarrow>
     state m = state n \<and> peers m = peers n \<and> nodeId m = nodeId n \<and> nextIndex m = nextIndex n \<and> matchIndex m = matchIndex n \<and>
     votedFor m = votedFor n \<and> running m = running n \<and> tasks m = tasks n \<and> electionTimer m = electionTimer n \<and>
     random m = random n \<and> random_calls m = random_calls n \<and> grpcChannels m = grpcChannels n \<and>
     rest_db (storage m) = rest_db (storage n)"
  by (cases m, cases n, cases "storage m", cases "storage n") (simp add: rest_node_def rest_db_def)

section \<open>Receiving entries\<close>

lemma append_loop_refines:
  "usable F n \<Longrightarrow> i \<le> length (node_log n) \<Longrightarrow>
     \<exists>m. append_loop F (int i + 1) es n = (Val (), m) \<and> usable F m \<and>
         node_log m = log_splice (node_log n) i es \<and> rest_node m = rest_node n"
proof (induction es arbitrary: i n)
  case (Cons e es)
  note u = Cons.prems(1)
  have step: ?case
    if m: "append_loop F (int i + 1) (e # es) n = append_loop F (int (Suc i) + 1) es m" "usable F m"
      "rest_node m = rest_node n" "Suc i \<le> length (node_log m)"
      "log_splice (node_log n) i (e # es) = log_splice (node_log m) (Suc i) es" for m
    using Cons.IH [OF m(2,4)] m by auto
  consider "i < length (node_log n)" "le_term (node_log n ! i) = le_term e"
    | "i < length (node_log n)" "le_term (node_log n ! i) \<noteq> le_term e" | "i = length (node_log n)"
    using Cons.prems(2) by linarith
  then show ?case
  proof cases
    case 1
    then show ?thesis
      using u by (intro step [of n]) (auto simp: node_store.last_index node_store.get_entry add.commute)
  next
    case 2
    obtain m where m: "bind (on_db (deleteLogEntriesFrom F (int i + 1))) (\<lambda>_. on_db (appendLogEntry F e)) n = (Val (int i + 1), m)"
      "usable F m" "node_log m = take i (node_log n) @ [stored e]" "rest_node m = rest_node n"
      using node_store.delete_then_append [OF u, of "int i + 1" e] 2 by auto
    have "append_loop F (int i + 1) (e # es) n = append_loop F (int (Suc i) + 1) es m"
      using 2 u m(1) by (auto simp: node_store.last_index node_store.get_entry bind_Val_iff add.commute)
    then show ?thesis using m(2-4) 2 by (intro step [of m]) auto
  next
    case 3
    obtain m where m: "on_db (appendLogEntry F e) n = (Val (int i + 1), m)" "usable F m"
      "node_log m = node_log n @ [stored e]" "rest_node m = rest_node n"
      using node_store.append_entry [OF u, of e] 3 by auto
    have "append_loop F (int i + 1) (e # es) n = append_loop F (int (Suc i) + 1) es m"
      using 3 u m(1) by (simp add: node_store.last_index add.commute)
    then show ?thesis using m(2-4) 3 by (intro step [of m]) auto
  qed
qed simp

end
