(* ===== verification/Raft_Replication.thy ===== *)
theory Raft_Replication
  imports Raft_Log
begin

text \<open>
  Receiving, committing, applying and proposing entries: the node's methods against the
  specifications of \<open>Raft_Log\<close>. Every lemma says that the method returns, what it returns and
  what it leaves in the log, in the indices and in the key-value table.
\<close>

section \<open>Applying and committing\<close>

definition apply_committed :: "raft_node \<Rightarrow> raft_node" where
  "apply_committed n = n\<lparr>storage := with_applied (max (node_applied n) (node_commit n))
     ((storage n)\<lparr>kv_store := replay (drop (nat (node_applied n)) (take (nat (node_commit n)) (node_log n))) (kv_store (storage n))\<rparr>)\<rparr>"

definition commit_to :: "int \<Rightarrow> raft_node \<Rightarrow> raft_node" where
  "commit_to c n = apply_committed (n\<lparr>storage := with_commit c (storage n)\<rparr>)"

lemma log_entries_simps [simp]:
  "log_entries (with_commit c d) = log_entries d" "log_entries (with_applied c d) = log_entries d"
  "log_entries (d\<lparr>kv_store := kv\<rparr>) = log_entries d"
  by (simp_all add: log_entries_def)

lemma usable_simps [simp]:
  "usable_log F (with_commit c d) = usable_log F d" "usable_log F (with_applied c d) = usable_log F d"
  "usable_log F (d\<lparr>kv_store := kv\<rparr>) = usable_log F d"
  by (simp_all add: usable_log_def)

lemma node_index_ops:
  assumes "usable F n"
  shows "on_db (getCommitIndex F) n = (Val (node_commit n), n)" "on_db (getLastApplied F) n = (Val (node_applied n), n)"
    and "on_db (setCommitIndex F c) n = (Val (), n\<lparr>storage := with_commit c (storage n)\<rparr>)"
    and "on_db (setLastApplied F c) n = (Val (), n\<lparr>storage := with_applied c (storage n)\<rparr>)"
    and "on_db (updateKeyValue F k v) n = (Val (), n\<lparr>storage := (storage n)\<lparr>kv_store := (kv_store (storage n))(k \<mapsto> v)\<rparr>\<rparr>)"
  using usable_open [OF assms] index_ops by simp_all

lemma apply_range:
  "usable F n \<Longrightarrow> i \<le> j \<Longrightarrow> j \<le> length (node_log n) \<Longrightarrow>
     for_each (\<lambda>i. bind (on_db (getLogEntry F i)) (applyToStateMachine F)) [int i + 1..int j] n =
       (Val (), n\<lparr>storage := (storage n)\<lparr>kv_store := replay (drop i (take j (node_log n))) (kv_store (storage n))\<rparr>\<rparr>)"
proof (induction "j - i" arbitrary: i n)
  case (Suc d)
  let ?e = "node_log n ! i"
  let ?m = "n\<lparr>storage := (storage n)\<lparr>kv_store := (kv_store (storage n))(le_key ?e \<mapsto> le_value ?e)\<rparr>\<rparr>"
  have i: "i < j" using Suc.hyps(2) by simp
  then have range: "[int i + 1..int j] = (int i + 1) # [int (Suc i) + 1..int j]"
    by (subst upto_rec1) (auto simp: add.commute)
  have entry: "drop i (take j (node_log n)) = ?e # drop (Suc i) (take j (node_log n))"
    using i Suc.prems(3) by (subst Cons_nth_drop_Suc [symmetric]) auto
  have "bind (on_db (getLogEntry F (int i + 1))) (applyToStateMachine F) n = (Val (), ?m)"
    using Suc.prems i by (simp add: node_store.get_entry applyToStateMachine_def node_index_ops)
  moreover have "usable F ?m" "node_log ?m = node_log n" using Suc.prems(1) by simp_all
  ultimately show ?case
    using Suc.hyps(1) [of "Suc i" ?m] Suc.hyps(2) Suc.prems i unfolding range entry by simp
qed simp

lemma applyCommittedEntries_ok:
  assumes "usable F n" and "0 \<le> node_applied n" and "node_commit n \<le> int (length (node_log n))"
  shows "applyCommittedEntries F n = (Val (), apply_committed n)"
proof (cases "node_applied n \<le> node_commit n")
  case True
  show ?thesis
    using apply_range [OF assms(1), of "nat (node_applied n)" "nat (node_commit n)"] assms True
    by (simp add: applyCommittedEntries_def node_index_ops apply_committed_def nat_le_iff)
next
  case False
  moreover from this have "drop (nat (node_applied n)) (take (nat (node_commit n)) (node_log n)) = []" by simp
  ultimately show ?thesis
    using assms by (simp add: applyCommittedEntries_def node_index_ops apply_committed_def)
qed

lemma commit_to_effect:
  assumes "node_inv F n" and "node_commit n \<le> c" and "c \<le> int (length (node_log n))"
  shows "bind (on_db (setCommitIndex F c)) (\<lambda>_. applyCommittedEntries F) n = (Val (), commit_to c n)"
    and "node_commit (commit_to c n) = c" and "node_applied (commit_to c n) = c" and "node_log (commit_to c n) = node_log n"
    and "kv_store (storage (commit_to c n)) = replay (take (nat c) (node_log n)) Map.empty"
    and "node_inv F (commit_to c n)"
proof -
  note inv = assms(1) [unfolded node_inv_def]
  show "bind (on_db (setCommitIndex F c)) (\<lambda>_. applyCommittedEntries F) n = (Val (), commit_to c n)"
    using inv assms by (simp add: node_index_ops applyCommittedEntries_ok commit_to_def)
  show commit: "node_commit (commit_to c n) = c" and log: "node_log (commit_to c n) = node_log n"
    and applied: "node_applied (commit_to c n) = c"
    using inv assms(2) by (simp_all add: commit_to_def apply_committed_def)
  have "take (nat c) (node_log n) =
      take (nat (node_applied n)) (node_log n) @ drop (nat (node_applied n)) (take (nat c) (node_log n))"
    using inv assms(2) by (metis append_take_drop_id min.absorb1 nat_mono order_trans take_take)
  then show kv: "kv_store (storage (commit_to c n)) = replay (take (nat c) (node_log n)) Map.empty"
    using inv by (simp add: commit_to_def apply_committed_def flip: replay_append)
  show "node_inv F (commit_to c n)"
    unfolding node_inv_def commit log applied kv using inv assms by (simp add: commit_to_def apply_committed_def)
qed

lemma commit_to_frame: "commit_to c n = n\<lparr>storage := storage (commit_to c n)\<rparr>"
  by (simp add: commit_to_def apply_committed_def)

text \<open>The commit index never goes back, and whenever it moves everything up to it has been applied.\<close>

definition advances :: "db \<Rightarrow> db \<Rightarrow> bool" where
  "advances d d' \<longleftrightarrow> commit_of d \<le> commit_of d' \<and>
     (applied_of d' = commit_of d' \<or> commit_of d' = commit_of d \<and> applied_of d' = applied_of d)"

lemma advances_refl [simp]: "advances d d"
  by (simp add: advances_def)

lemma advances_trans: "advances d d' \<Longrightarrow> advances d' d'' \<Longrightarrow> advances d d''"
  by (auto simp: advances_def split: if_splits)

lemma commit_to_advances:
  "node_inv F n \<Longrightarrow> node_commit n < c \<Longrightarrow> c \<le> int (length (node_log n)) \<Longrightarrow> advances (storage n) (storage (commit_to c n))"
  using commit_to_effect(2,3) [of F n c] by (simp add: advances_def)

section \<open>Choosing what to commit\<close>

text \<open>The entry is of the leader's term and enough nodes hold it; the last such entry is committed.\<close>

definition committable :: "raft_node \<Rightarrow> int \<Rightarrow> bool" where
  "committable n i \<longleftrightarrow> le_term (node_log n ! nat (i - 1)) = currentTerm (state n) \<and> quorum (replicationCount n i) (peersSize n)"

definition commit_target :: "raft_node \<Rightarrow> int" where
  "commit_target n = last (node_commit n # filter (committable n) [node_commit n + 1..int (length (node_log n))])"

lemma commit_check_ok:
  assumes "node_inv F n" and "node_commit n < i" and "i \<le> int (length (node_log n))"
  shows "commit_check F i n = (Val (), if committable n i then commit_to i n else n)"
proof -
  have u: "usable F n" "1 \<le> i" "node_commit n \<le> i" using assms by (auto simp: node_inv_def)
  then show ?thesis
    using commit_to_effect(1) [OF assms(1) u(3) assms(3)] assms(3)
    by (simp add: commit_check_def node_store.get_entry committable_def)
qed

lemma committable_commit_to: "committable (commit_to c n) = committable n"
  by (simp add: fun_eq_iff committable_def replicationCount_def peersSize_def commit_to_def apply_committed_def)

lemma commit_loop:
  "node_inv F n \<Longrightarrow> sorted_wrt (<) (node_commit n # xs) \<Longrightarrow> \<forall>i\<in>set xs. i \<le> int (length (node_log n)) \<Longrightarrow>
     \<exists>d. for_each (commit_check F) xs n = (Val (), n\<lparr>storage := d\<rparr>) \<and> node_inv F (n\<lparr>storage := d\<rparr>) \<and>
       log_entries d = node_log n \<and> commit_of d = last (node_commit n # filter (committable n) xs) \<and> advances (storage n) d"
proof (induction xs arbitrary: n)
  case Nil
  then show ?case by (intro exI [of _ "storage n"]) simp
next
  case (Cons i xs)
  have i: "node_commit n < i" "i \<le> int (length (node_log n))" "node_commit n \<le> i" using Cons.prems(2,3) by auto
  note check = commit_check_ok [OF Cons.prems(1) i(1,2)]
  show ?case
  proof (cases "committable n i")
    case True
    note effect = commit_to_effect [OF Cons.prems(1) i(3,2)]
    have "\<exists>d. for_each (commit_check F) xs (commit_to i n) = (Val (), (commit_to i n)\<lparr>storage := d\<rparr>) \<and>
        node_inv F ((commit_to i n)\<lparr>storage := d\<rparr>) \<and> log_entries d = node_log n \<and>
        commit_of d = last (i # filter (committable n) xs) \<and> advances (storage (commit_to i n)) d"
      using Cons.IH [OF effect(6)] Cons.prems(2,3) effect(2,4) by (simp add: committable_commit_to)
    moreover have "(commit_to i n)\<lparr>storage := d\<rparr> = n\<lparr>storage := d\<rparr>" for d
      by (subst commit_to_frame) simp
    ultimately show ?thesis
      using True check advances_trans [OF commit_to_advances [OF Cons.prems(1) i(1,2)]] by auto
  next
    case False
    then show ?thesis using Cons.IH [OF Cons.prems(1)] Cons.prems(2,3) check by simp
  qed
qed

lemma updateCommitIndex_ok:
  assumes "node_inv F n"
  shows "\<exists>d. updateCommitIndex F n = (Val (), n\<lparr>storage := d\<rparr>) \<and> node_inv F (n\<lparr>storage := d\<rparr>) \<and>
           log_entries d = node_log n \<and> commit_of d = commit_target n \<and> advances (storage n) d"
proof -
  let ?xs = "[node_commit n + 1..int (length (node_log n))]"
  have u: "usable F n" using assms by (simp add: node_inv_def)
  have "\<exists>d. for_each (commit_check F) ?xs n = (Val (), n\<lparr>storage := d\<rparr>) \<and> node_inv F (n\<lparr>storage := d\<rparr>) \<and>
      log_entries d = node_log n \<and> commit_of d = last (node_commit n # filter (committable n) ?xs) \<and> advances (storage n) d"
    by (rule commit_loop [OF assms]) simp_all
  moreover have "updateCommitIndex F n = for_each (commit_check F) ?xs n"
    using u by (simp add: updateCommitIndex_def node_store.last_index node_index_ops)
  ultimately show ?thesis unfolding commit_target_def by simp
qed

lemma commit_target_ge: "node_commit n \<le> commit_target n"
  using last_in_set [of "filter (committable n) [node_commit n + 1..int (length (node_log n))]"]
  by (fastforce simp: commit_target_def)

lemma last_sorted_Max:
  fixes c :: int
  assumes "sorted_wrt (<) (c # xs)"
  shows "last (c # xs) = Max (insert c (set xs))"
proof -
  have "\<forall>x\<in>set (c # xs). x \<le> last (c # xs)"
    using assms by (induction xs rule: rev_induct) (auto simp: sorted_wrt_append)
  moreover have "last (c # xs) \<in> set (c # xs)" by (rule last_in_set) simp
  ultimately have "Max (set (c # xs)) = last (c # xs)"
    using Max_eqI [OF finite_set] by blast
  then show ?thesis by simp
qed

lemma commit_target_Max:
  "commit_target n = Max (insert (node_commit n) {i. node_commit n < i \<and> i \<le> int (length (node_log n)) \<and> committable n i})"
proof -
  let ?xs = "filter (committable n) [node_commit n + 1..int (length (node_log n))]"
  have "sorted_wrt (<) (node_commit n # ?xs)" by (auto intro: sorted_wrt_filter)
  moreover have "set ?xs = {i. node_commit n < i \<and> i \<le> int (length (node_log n)) \<and> committable n i}" by auto
  ultimately show ?thesis unfolding commit_target_def using last_sorted_Max by metis
qed

lemma commit_target_last:
  assumes "committable n (int (length (node_log n)))" and "node_commit n \<le> int (length (node_log n))"
  shows "commit_target n = int (length (node_log n))"
proof (cases "node_commit n = int (length (node_log n))")
  case False
  then have "[node_commit n + 1..int (length (node_log n))] = [node_commit n + 1..int (length (node_log n)) - 1] @ [int (length (node_log n))]"
    using assms(2) by (subst upto_rec2) auto
  then show ?thesis using assms(1) by (simp add: commit_target_def)
qed (simp add: commit_target_def)

section \<open>The receiver\<close>

lemma log_splice_keeps:
  "(\<forall>j<length es. i + j < c \<longrightarrow> le_term (l ! (i + j)) = le_term (es ! j)) \<Longrightarrow> c \<le> length l \<Longrightarrow> i \<le> length l \<Longrightarrow>
     c \<le> length (log_splice l i es) \<and> take c (log_splice l i es) = take c l"
proof (induction es arbitrary: l i)
  case (Cons e es)
  let ?l = "if i < length l \<and> le_term (l ! i) = le_term e then l else take i l @ [stored e]"
  have step: "log_splice l i (e # es) = log_splice ?l (Suc i) es"
    using Cons.prems(3) by (auto simp: not_less)
  have c: "c \<le> length ?l \<and> take c ?l = take c l" "Suc i \<le> length ?l"
    using Cons.prems by auto
  have nth: "j < c \<Longrightarrow> ?l ! j = l ! j" for j
    using c(1) by (metis nth_take)
  have "\<forall>j<length es. Suc i + j < c \<longrightarrow> le_term (?l ! (Suc i + j)) = le_term (es ! j)"
  proof (intro allI impI)
    fix j assume "j < length es" "Suc i + j < c"
    then show "le_term (?l ! (Suc i + j)) = le_term (es ! j)"
      using Cons.prems(1) nth [of "Suc i + j"] by (auto dest!: spec [of _ "Suc j"])
  qed
  from Cons.IH [OF this] c show ?case unfolding step by simp
qed simp

text \<open>The node after a message of a term that is not stale: a newer term makes it a follower, and the timer restarts.\<close>

definition heard :: "int \<Rightarrow> raft_node \<Rightarrow> raft_node" where
  "heard tm n =
     (let m = (if tm > currentTerm (state n)
               then n\<lparr>state := becomeFollower tm (setCurrentTerm tm (state n)), votedFor := None\<rparr> else n)
      in m\<lparr>electionTimer := Some (150 + random m (random_calls m)), random_calls := random_calls m + 1\<rparr>)"

definition prev_matches :: "raft_node \<Rightarrow> int \<Rightarrow> int \<Rightarrow> bool" where
  "prev_matches n prev prev_term \<longleftrightarrow>
     prev \<le> int (length (node_log n)) \<and> (prev > 0 \<longrightarrow> le_term (node_log n ! nat (prev - 1)) = prev_term)"

lemma heard_simps [simp]:
  "storage (heard tm n) = storage n" "peers (heard tm n) = peers n" "nodeId (heard tm n) = nodeId n"
  "nextIndex (heard tm n) = nextIndex n" "matchIndex (heard tm n) = matchIndex n" "running (heard tm n) = running n"
  "tasks (heard tm n) = tasks n" "node_inv F (heard tm n) = node_inv F n"
  "currentTerm (state (heard tm n)) = max tm (currentTerm (state n))"
  "currentRole (state (heard tm n)) = (if tm > currentTerm (state n) then FOLLOWER else currentRole (state n))"
  "votedFor (heard tm n) = (if tm > currentTerm (state n) then None else votedFor n)"
  "tm = currentTerm (state n) \<Longrightarrow> state (heard tm n) = state n"
  "electionTimer (heard tm n) = Some (150 + random n (random_calls n))"
  by (simp_all add: heard_def Let_def node_inv_def)

lemma resetElectionTimer_ok:
  "running n \<Longrightarrow> resetElectionTimer n =
     (Val (), n\<lparr>electionTimer := Some (150 + random n (random_calls n)), random_calls := random_calls n + 1\<rparr>)"
  by (simp add: resetElectionTimer_def)

lemma prev_check_ok:
  assumes "usable F n"
  shows "(if int (length (node_log n)) < prev then ret True else prev_differs F prev prev_term) n =
           (Val (\<not> prev_matches n prev prev_term), n)"
  using assms by (auto simp: prev_differs_def prev_matches_def node_store.get_entry)

text \<open>What is left of \<open>appendEntries\<close> once the previous entry matches.\<close>

definition accept_entries :: "faults \<Rightarrow> int \<Rightarrow> log_entry list \<Rightarrow> int \<Rightarrow> bool raft" where
  "accept_entries F prev es leaderCommit =
     bind (append_loop F (prev + 1) es) (\<lambda>_.
     bind (on_db (getCommitIndex F)) (\<lambda>c.
     bind (if leaderCommit > c then
             bind (on_db (getLastLogIndex F)) (\<lambda>l'.
             bind (on_db (setCommitIndex F (min leaderCommit l'))) (\<lambda>_. applyCommittedEntries F))
           else ret ()) (\<lambda>_. ret True)))"

text \<open>A message that is not outdated first changes the term and the timer.\<close>

lemma appendEntries_heard:
  assumes "running n" and "currentTerm (state n) \<le> tm"
  shows "appendEntries F leader tm prev prev_term es leaderCommit n =
    bind (on_db (getLastLogIndex F)) (\<lambda>l.
    bind (if l < prev then ret True else prev_differs F prev prev_term) (\<lambda>mismatch.
    if mismatch then ret False else accept_entries F prev es leaderCommit)) (heard tm n)"
proof -
  let ?n = "if tm > currentTerm (state n)
    then n\<lparr>state := becomeFollower tm (setCurrentTerm tm (state n)), votedFor := None\<rparr> else n"
  have "resetElectionTimer ?n = (Val (), heard tm n)"
    using assms(1) by (simp add: resetElectionTimer_ok heard_def Let_def)
  then show ?thesis using assms(2) unfolding appendEntries_def accept_entries_def by simp
qed

lemma appendEntries_cases:
  assumes "usable F n" and "running n"
  shows "appendEntries F leader tm prev prev_term es leaderCommit n =
    (if tm < currentTerm (state n) then (Val False, n)
     else if \<not> prev_matches n prev prev_term then (Val False, heard tm n)
     else accept_entries F prev es leaderCommit (heard tm n))"
proof (cases "tm < currentTerm (state n)")
  case True
  then show ?thesis by (simp add: appendEntries_def)
next
  case False
  have u: "usable F (heard tm n)" using assms(1) by simp
  then show ?thesis
    using False assms(2) prev_check_ok [OF u, of prev prev_term]
    by (simp add: appendEntries_heard node_store.last_index prev_matches_def)
qed

lemma accept_entries_ok:
  assumes inv: "node_inv F n" and prev: "0 \<le> prev" "prev \<le> int (length (node_log n))"
    and agree: "\<forall>j<length es. nat prev + j < nat (node_commit n) \<longrightarrow> le_term (node_log n ! (nat prev + j)) = le_term (es ! j)"
  shows "\<exists>d. accept_entries F prev es leaderCommit n = (Val True, n\<lparr>storage := d\<rparr>) \<and> node_inv F (n\<lparr>storage := d\<rparr>) \<and>
    log_entries d = log_splice (node_log n) (nat prev) es \<and>
    commit_of d = (if leaderCommit > node_commit n then min leaderCommit (int (length (log_entries d))) else node_commit n) \<and>
    advances (storage n) d"
proof -
  note n = inv [unfolded node_inv_def]
  have np: "nat prev \<le> length (node_log n)" "nat (node_commit n) \<le> length (node_log n)" using prev n by linarith+
  obtain m where m: "append_loop F (prev + 1) es n = (Val (), m)" "usable F m"
    "node_log m = log_splice (node_log n) (nat prev) es" "rest_node m = rest_node n"
    using append_loop_refines [of F n "nat prev" es] n prev np by auto
  note rest = rest_node_eq [OF m(4)]
  then have db: "state_rows (storage m) = state_rows (storage n)" "kv_store (storage m) = kv_store (storage n)"
    "node_commit m = node_commit n" "node_applied m = node_applied n"
    using rest_db_eq [of "storage m" "storage n"] by auto
  have keep: "nat (node_commit n) \<le> length (node_log m)" "take (nat (node_commit n)) (node_log m) = take (nat (node_commit n)) (node_log n)"
    using log_splice_keeps [OF agree np(2,1)] unfolding m(3) by auto
  then have "take (nat (node_applied n)) (node_log m) = take (nat (node_applied n)) (node_log n)"
    using n by (metis min.absorb1 nat_mono take_take)
  then have inv_m: "node_inv F m" using n m(2) keep(1) unfolding node_inv_def db by auto
  have frame: "m\<lparr>storage := d\<rparr> = n\<lparr>storage := d\<rparr>" for d
    using m(4) unfolding rest_node_def by (cases m, cases n) simp
  show ?thesis
  proof (cases "leaderCommit > node_commit n")
    case True
    let ?c = "min leaderCommit (int (length (node_log m)))"
    have c: "node_commit m \<le> ?c" "?c \<le> int (length (node_log m))" using True keep(1) db(3) by auto
    note effect = commit_to_effect [OF inv_m c]
    have "bind (on_db (getLastLogIndex F)) (\<lambda>l'. bind (on_db (setCommitIndex F (min leaderCommit l')))
        (\<lambda>_. applyCommittedEntries F)) m = (Val (), commit_to ?c m)"
      using effect(1) by (simp add: node_store.last_index [OF m(2)])
    then have "accept_entries F prev es leaderCommit n = (Val True, commit_to ?c m)"
      using m(1) node_index_ops(1) [OF m(2)] True db(3) by (simp add: accept_entries_def)
    moreover have "commit_to ?c m = n\<lparr>storage := storage (commit_to ?c m)\<rparr>"
      using commit_to_frame [of ?c m] frame by metis
    moreover have "advances (storage n) (storage (commit_to ?c m))"
      using effect(2,3) db(3) True keep(1) n by (auto simp: advances_def)
    ultimately show ?thesis using effect(2,4,6) m(3) True by (intro exI [of _ "storage (commit_to ?c m)"]) simp
  next
    case False
    then have "accept_entries F prev es leaderCommit n = (Val True, m)"
      using m(1,2) db(3) by (simp add: accept_entries_def node_index_ops)
    moreover have "m = n\<lparr>storage := storage m\<rparr>" using frame [of "storage m"] by (cases m) simp
    moreover have "advances (storage n) (storage m)" using db(3,4) by (simp add: advances_def)
    ultimately show ?thesis using inv_m m(3) False db(3) by metis
  qed
qed

lemma appendEntries_ok:
  assumes "node_inv F n" and "running n" and "currentTerm (state n) \<le> tm" and "prev_matches n prev prev_term" and "0 \<le> prev"
    and "\<forall>j<length es. nat prev + j < nat (node_commit n) \<longrightarrow> le_term (node_log n ! (nat prev + j)) = le_term (es ! j)"
  shows "\<exists>m. appendEntries F leader tm prev prev_term es leaderCommit n = (Val True, m) \<and> node_inv F m \<and>
    node_log m = log_splice (node_log n) (nat prev) es \<and>
    node_commit m = (if leaderCommit > node_commit n then min leaderCommit (int (length (node_log m))) else node_commit n) \<and>
    currentTerm (state m) = tm \<and> advances (storage n) (storage m)"
proof -
  let ?h = "heard tm n"
  have u: "usable F n" using assms(1) by (simp add: node_inv_def)
  have h: "node_inv F ?h" "prev \<le> int (length (node_log ?h))" using assms(1,4) by (simp_all add: prev_matches_def)
  obtain d where d: "accept_entries F prev es leaderCommit ?h = (Val True, ?h\<lparr>storage := d\<rparr>)" "node_inv F (?h\<lparr>storage := d\<rparr>)"
    "log_entries d = log_splice (node_log n) (nat prev) es"
    "commit_of d = (if leaderCommit > node_commit n then min leaderCommit (int (length (log_entries d))) else node_commit n)" "advances (storage n) d"
    using accept_entries_ok [OF h(1) assms(5) h(2), unfolded heard_simps, OF assms(6), of leaderCommit] by blast
  have "appendEntries F leader tm prev prev_term es leaderCommit n = (Val True, ?h\<lparr>storage := d\<rparr>)"
    using assms(3,4) d(1) by (simp add: appendEntries_cases [OF u assms(2)])
  moreover have "currentTerm (state (?h\<lparr>storage := d\<rparr>)) = tm" using assms(3) by simp
  moreover have "storage (?h\<lparr>storage := d\<rparr>) = d" by simp
  ultimately show ?thesis using d(2-5) by metis
qed

section \<open>The sender\<close>

text \<open>The node runs, and the next index of every follower is within the log or just after it.\<close>

definition send_inv :: "faults \<Rightarrow> raft_node \<Rightarrow> bool" where
  "send_inv F n \<longleftrightarrow> node_inv F n \<and> running n \<and>
     (\<forall>p v. map_of (nextIndex n) p = Some v \<longrightarrow> 1 \<le> v \<and> v \<le> int (length (node_log n)) + 1)"

lemma next_index_bounds:
  "send_inv F n \<Longrightarrow> 1 \<le> getOrDefault (nextIndex n) p 1 \<and> getOrDefault (nextIndex n) p 1 \<le> int (length (node_log n)) + 1"
  by (auto simp: send_inv_def getOrDefault_def split: option.splits)

text \<open>Sending to oneself what the log already holds changes neither the log nor the commit index.\<close>

lemma self_append:
  assumes inv: "node_inv F n" "running n" and prev: "0 \<le> prev" "prev \<le> int (length (node_log n))"
    and prev_term: "prev > 0 \<longrightarrow> prev_term = le_term (node_log n ! nat (prev - 1))"
  shows "\<exists>d. appendEntries F p (currentTerm (state n)) prev prev_term (drop (nat prev) (node_log n)) (node_commit n) n =
      (Val True, (heard (currentTerm (state n)) n)\<lparr>storage := d\<rparr>) \<and>
    node_inv F (n\<lparr>storage := d\<rparr>) \<and> log_entries d = node_log n \<and> commit_of d = node_commit n \<and> advances (storage n) d"
proof -
  let ?n = "heard (currentTerm (state n)) n"
  have u: "usable F n" using inv by (simp add: node_inv_def)
  have match: "prev_matches n prev prev_term" using prev prev_term by (simp add: prev_matches_def)
  have "\<exists>d. accept_entries F prev (drop (nat prev) (node_log n)) (node_commit n) ?n = (Val True, ?n\<lparr>storage := d\<rparr>) \<and>
      node_inv F (?n\<lparr>storage := d\<rparr>) \<and> log_entries d = log_splice (node_log ?n) (nat prev) (drop (nat prev) (node_log n)) \<and>
      commit_of d = (if node_commit n > node_commit ?n then min (node_commit n) (int (length (log_entries d))) else node_commit ?n) \<and>
      advances (storage ?n) d"
    by (rule accept_entries_ok) (use inv prev in auto)
  then obtain d where d: "accept_entries F prev (drop (nat prev) (node_log n)) (node_commit n) ?n = (Val True, ?n\<lparr>storage := d\<rparr>)"
    "node_inv F (?n\<lparr>storage := d\<rparr>)" "log_entries d = log_splice (node_log n) (nat prev) (drop (nat prev) (node_log n))"
    "commit_of d = node_commit n" "advances (storage n) d"
    by auto
  have "nat prev \<le> length (node_log n)" using prev by linarith
  with d(3) have "log_entries d = node_log n" by (simp add: log_splice_self)
  moreover have "node_inv F (n\<lparr>storage := d\<rparr>)" using d(2) by (simp add: node_inv_def)
  ultimately show ?thesis using d(1,4,5) match appendEntries_cases [OF u inv(2)] by auto
qed

lemma sendAppendEntries_ok:
  assumes "send_inv F n"
  shows "\<exists>m. sendAppendEntries F p n = (Val (), m) \<and> send_inv F m \<and> node_log m = node_log n \<and> advances (storage n) (storage m) \<and>
    state m = state n \<and> peers m = peers n \<and> matchIndex m = AList.update p (int (length (node_log n))) (matchIndex n)"
proof -
  let ?i = "getOrDefault (nextIndex n) p 1"
  let ?len = "int (length (node_log n))"
  have inv: "node_inv F n" "running n" using assms by (simp_all add: send_inv_def)
  have u: "usable F n" using inv by (simp add: node_inv_def)
  have i: "1 \<le> ?i" "?i \<le> ?len + 1" using next_index_bounds [OF assms] by auto
  let ?pt = "if ?i - 1 > 0 then le_term (node_log n ! nat (?i - 1 - 1)) else 0"
  have prev_term: "(if ?i - 1 > 0
      then bind (on_db (getLogEntry F (?i - 1))) (\<lambda>x. bind (deref x) (\<lambda>e. ret (le_term e))) else ret 0) n = (Val ?pt, n)"
    using u i by (simp add: node_store.get_entry)
  have "0 \<le> ?i - 1" "?i - 1 \<le> ?len" "?i - 1 > 0 \<longrightarrow> ?pt = le_term (node_log n ! nat (?i - 1 - 1))"
    using i by auto
  from self_append [OF inv this] obtain d where
    d: "appendEntries F p (currentTerm (state n)) (?i - 1) ?pt (drop (nat (?i - 1)) (node_log n)) (node_commit n) n =
      (Val True, (heard (currentTerm (state n)) n)\<lparr>storage := d\<rparr>)"
    "node_inv F (n\<lparr>storage := d\<rparr>)" "log_entries d = node_log n" "advances (storage n) d"
    by blast
  let ?h = "(heard (currentTerm (state n)) n)\<lparr>storage := d\<rparr>"
  let ?m = "?h\<lparr>nextIndex := AList.update p (?len + 1) (nextIndex n), matchIndex := AList.update p ?len (matchIndex n)\<rparr>"
  have inv_m: "node_inv F ?m" using d(2) by (simp add: node_inv_def)
  then have u': "usable F ?h" using d(2) by (simp add: node_inv_def)
  have "sendAppendEntries F p n = updateCommitIndex F ?m"
    unfolding sendAppendEntries_def
    using prev_term d(1,3) u u' node_store.get_range [OF u i(1)]
    by (simp add: node_store.last_index node_index_ops)
  moreover obtain d' where "updateCommitIndex F ?m = (Val (), ?m\<lparr>storage := d'\<rparr>)" "node_inv F (?m\<lparr>storage := d'\<rparr>)"
    "log_entries d' = node_log ?m" "advances (storage ?m) d'"
    using updateCommitIndex_ok [OF inv_m] by blast
  ultimately show ?thesis
    using d(3) advances_trans [OF d(4)] assms inv(2) by (auto simp: send_inv_def update_conv')
qed

lemma send_all_ok:
  "send_inv F n \<Longrightarrow>
     \<exists>m. for_each (sendAppendEntries F) ids n = (Val (), m) \<and> send_inv F m \<and> node_log m = node_log n \<and>
       advances (storage n) (storage m) \<and> state m = state n \<and> peers m = peers n \<and>
       (\<forall>p. map_of (matchIndex m) p = (if p \<in> set ids then Some (int (length (node_log n))) else map_of (matchIndex n) p))"
proof (induction ids arbitrary: n)
  case (Cons p ids)
  obtain m where m: "sendAppendEntries F p n = (Val (), m)" "send_inv F m" "node_log m = node_log n" "advances (storage n) (storage m)"
    "state m = state n" "peers m = peers n" "matchIndex m = AList.update p (int (length (node_log n))) (matchIndex n)"
    using sendAppendEntries_ok [OF Cons.prems] by blast
  from Cons.IH [OF m(2)] m(1,3,5-7) advances_trans [OF m(4)] show ?case by (force simp: update_conv')
qed simp

lemma replicated_everywhere:
  fixes l :: int
  assumes "\<forall>p\<in>set ps. map_of m p = Some l" and "distinct ps"
  shows "length ps \<le> length (filter (\<lambda>v. l \<le> v) (map snd m))"
proof -
  let ?fm = "filter (\<lambda>x. l \<le> snd x) m"
  have "p \<in> fst ` set ?fm" if "p \<in> set ps" for p
    by (rule image_eqI [of _ _ "(p, l)"]) (use map_of_SomeD [of m p l] assms(1) that in auto)
  then have "set ps \<subseteq> set (map fst ?fm)" by auto
  then have "card (set ps) \<le> length (map fst ?fm)"
    by (meson card_length card_mono finite_set order_trans)
  then show ?thesis using assms(2) by (simp add: distinct_card filter_map comp_def)
qed

lemma proposeEntry_ok:
  assumes "send_inv F n" and "currentRole (state n) = LEADER" and "distinct (map fst (peers n))"
  shows "\<exists>m. proposeEntry F k v n = (Val True, m) \<and> send_inv F m \<and> state m = state n \<and> peers m = peers n \<and>
    node_log m = node_log n @ [new_entry (currentTerm (state n)) k v] \<and>
    node_commit m = int (length (node_log m)) \<and> node_applied m = node_commit m \<and>
    kv_store (storage m) = replay (node_log m) Map.empty"
proof -
  let ?e = "new_entry (currentTerm (state n)) k v"
  have u: "usable F n" using assms(1) by (simp add: send_inv_def node_inv_def)
  obtain a where a: "on_db (appendLogEntry F ?e) n = (Val (int (length (node_log n)) + 1), a)" "usable F a"
    "node_log a = node_log n @ [stored ?e]" "rest_node a = rest_node n"
    using node_store.append_entry [OF u, of ?e] by blast
  note rest = rest_node_eq [OF a(4)]
  note db = rest_db_eq [of "storage a" "storage n"]
  have e: "stored ?e = ?e" by (simp add: new_entry_def)
  have "send_inv F a"
    using assms(1) a(2,3) rest db unfolding send_inv_def node_inv_def by fastforce
  then obtain m where m: "for_each (sendAppendEntries F) (map fst (peers n)) a = (Val (), m)" "send_inv F m"
    "node_log m = node_log a" "state m = state n" "peers m = peers n"
    "\<forall>p\<in>set (map fst (peers n)). map_of (matchIndex m) p = Some (int (length (node_log a)))" "advances (storage a) (storage m)"
    using send_all_ok [of F a "map fst (peers n)"] rest by auto
  obtain d where d: "updateCommitIndex F m = (Val (), m\<lparr>storage := d\<rparr>)" "node_inv F (m\<lparr>storage := d\<rparr>)"
    "log_entries d = node_log m" "commit_of d = commit_target m" "advances (storage m) d"
    using updateCommitIndex_ok [of F m] m(2) unfolding send_inv_def by blast
  have len: "int (length (node_log m)) = int (length (node_log n)) + 1" using m(3) a(3) by simp
  have "replicationCount m (int (length (node_log m))) \<ge> 1 + peersSize m"
    using replicated_everywhere [OF m(6) assms(3)] m(3,5) by (simp add: replicationCount_def peersSize_def)
  moreover have "peersSize m \<ge> 0" by (simp add: peersSize_def)
  ultimately have "committable m (int (length (node_log m)))"
    using m(3,4) a(3) e by (simp add: committable_def quorum_def nth_append new_entry_def len)
  then have commit: "commit_of d = int (length (node_log m))"
    using m(2) d(4) commit_target_last [of m] by (simp add: send_inv_def node_inv_def)
  moreover have "node_commit a < int (length (node_log m))"
    using assms(1) db rest len by (auto simp: send_inv_def node_inv_def)
  ultimately have applied: "applied_of d = commit_of d"
    using advances_trans [OF m(7) d(5)] by (auto simp: advances_def)
  have "proposeEntry F k v n = (Val True, m\<lparr>storage := d\<rparr>)"
    using assms(2) a(1,2) m(1) d(1) rest by (simp add: proposeEntry_def replicateEntry_def node_store.last_index)
  moreover have "send_inv F (m\<lparr>storage := d\<rparr>)" using m(2) d(2,3) by (simp add: send_inv_def)
  ultimately show ?thesis
    using m(3-5) a(3) e d(2,3) commit applied by (auto simp: node_inv_def)
qed

end
