(* ===== verification/Raft_Steps.thy ===== *)
theory Raft_Steps
  imports Raft_Replication
begin

text \<open>
  A running node as a transition system: the scheduled tasks, the election timer, the work that
  was handed to the pool (in any order) and the calls from outside, each one step. Methods are
  atomic steps here, as when they run one after the other; the code runs them on several threads, and what holds when their
  statements interleave is in \<open>Raft_Threads\<close> and the theories that use it. Within a method the model follows the code's order. The network's answer
  to a vote request is arbitrary; a request that is never answered is a step that is not taken.
\<close>

section \<open>Steps\<close>

definition run_task :: "faults \<Rightarrow> (string \<Rightarrow> vote_request \<Rightarrow> vote_response option) \<Rightarrow> task \<Rightarrow> unit raft" where
  "run_task F rpc t = (case t of
     Send_Task p \<Rightarrow> sendAppendEntries F p
   | Vote_Task p lastLogIndex lastLogTerm \<Rightarrow> bind (requestVote rpc p lastLogIndex lastLogTerm) (\<lambda>_. ret ())
   | Election_Callback \<Rightarrow> electionCallback F)"

text \<open>What the server's own threads do.\<close>

inductive local_step :: "faults \<Rightarrow> raft_node \<Rightarrow> raft_node \<Rightarrow> bool" for F where
  tick: "running n \<Longrightarrow> leaderElectionTask F n = (r, m) \<Longrightarrow> local_step F n m"
| timer: "electionTimer n = Some t \<Longrightarrow> startElection F (n\<lparr>electionTimer := None\<rparr>) = (r, m) \<Longrightarrow> local_step F n m"
| heartbeat: "running n \<Longrightarrow> heartbeatTask n = (r, m) \<Longrightarrow> local_step F n m"
| work: "tasks n = ts @ t # us \<Longrightarrow> run_task F rpc t (n\<lparr>tasks := ts @ us\<rparr>) = (r, m) \<Longrightarrow> local_step F n m"
| propose: "proposeEntry F k v n = (b, m) \<Longrightarrow> local_step F n m"

text \<open>Those, entries received from another node and the shutdown.\<close>

inductive node_step :: "faults \<Rightarrow> raft_node \<Rightarrow> raft_node \<Rightarrow> bool" for F where
  own: "local_step F n m \<Longrightarrow> node_step F n m"
| receive: "appendEntries F leader tm prev prev_term es leaderCommit n = (b, m) \<Longrightarrow> node_step F n m"
| stop: "shutdown_node n = (r, m) \<Longrightarrow> node_step F n m"

section \<open>What methods keep\<close>

text \<open>
  A relation that reads neither the storage, nor the timer, nor the indices and tasks is kept by
  all methods that only touch these; what remains are the transitions of the role and the term.
\<close>

definition quiet :: "(raft_node \<Rightarrow> raft_node \<Rightarrow> bool) \<Rightarrow> bool" where
  "quiet R \<longleftrightarrow> reflp R \<and> transp R \<and> (\<forall>n m. state m = state n \<and> peers m = peers n \<longrightarrow> R n m)"

definition stable :: "(raft_node \<Rightarrow> raft_node \<Rightarrow> bool) \<Rightarrow> bool" where
  "stable R \<longleftrightarrow> quiet R \<and>
     (\<forall>n tm vf. tm > currentTerm (state n) \<longrightarrow>
        R n (n\<lparr>state := becomeFollower tm (setCurrentTerm tm (state n)), votedFor := vf\<rparr>))"

lemma quietD:
  assumes "quiet R"
  shows "reflp R" "transp R" "state m = state n \<Longrightarrow> peers m = peers n \<Longrightarrow> R n m"
  using assms unfolding quiet_def by blast+

lemma stableD:
  assumes "stable R"
  shows "reflp R" "transp R" "state m = state n \<Longrightarrow> peers m = peers n \<Longrightarrow> R n m"
    and "tm > currentTerm (state n) \<Longrightarrow> R n (n\<lparr>state := becomeFollower tm (setCurrentTerm tm (state n)), votedFor := vf\<rparr>)"
    and "quiet R"
  using assms unfolding stable_def quiet_def by blast+

lemma quiet_read:
  assumes "quiet R"
  shows "keeps R (on_db q)" and "keeps R (read_node f)" and "keeps R (deref x)"
    and "(\<And>x. keeps R (g x)) \<Longrightarrow> keeps R (for_each g xs)"
proof -
  note R = quietD [OF assms]
  show "keeps R (on_db q)"
    by (rule keepsI) (simp add: on_db_def R(3) split: prod.split)
  show "keeps R (read_node f)" and "keeps R (deref x)"
    using R(1) by (auto simp: keeps_def reflp_def deref_def split: option.split)
  show "keeps R (for_each g xs)" if "\<And>x. keeps R (g x)"
    using R(1,2) that by (induction xs) (auto intro: keeps_rules)
qed

lemmas stable_read = quiet_read [OF stableD(5)]

text \<open>What \<open>appendEntries\<close> does once it has compared the terms.\<close>

definition heard_entries :: "faults \<Rightarrow> int \<Rightarrow> int \<Rightarrow> log_entry list \<Rightarrow> int \<Rightarrow> bool raft" where
  "heard_entries F prev prev_term es leaderCommit =
     bind resetElectionTimer (\<lambda>_. bind (on_db (getLastLogIndex F)) (\<lambda>l.
     bind (if l < prev then ret True else prev_differs F prev prev_term) (\<lambda>mismatch.
     if mismatch then ret False else
     bind (append_loop F (prev + 1) es) (\<lambda>_.
     bind (on_db (getCommitIndex F)) (\<lambda>c.
     bind (if leaderCommit > c then
             bind (on_db (getLastLogIndex F)) (\<lambda>l'.
             bind (on_db (setCommitIndex F (min leaderCommit l'))) (\<lambda>_. applyCommittedEntries F))
           else ret ()) (\<lambda>_. ret True))))))"

definition heard_term :: "int \<Rightarrow> raft_node \<Rightarrow> raft_node" where
  "heard_term tm n = (if tm > currentTerm (state n)
     then n\<lparr>state := becomeFollower tm (setCurrentTerm tm (state n)), votedFor := None\<rparr> else n)"

lemma appendEntries_heard_term:
  "appendEntries F p tm prev prev_term es leaderCommit n =
    (if tm < currentTerm (state n) then (Val False, n) else heard_entries F prev prev_term es leaderCommit (heard_term tm n))"
  by (simp add: appendEntries_def heard_entries_def heard_term_def)

lemma quiet_replication:
  assumes "quiet R"
  shows "keeps R (applyCommittedEntries F)" and "keeps R (heard_entries F prev prev_term es leaderCommit)"
proof -
  note R = quietD [OF assms]
  note rules = R(1,2) keeps_rules quiet_read [OF assms]
  show committed: "keeps R (applyCommittedEntries F)"
    unfolding applyCommittedEntries_def applyToStateMachine_def by (intro rules)
  have loop: "keeps R (append_loop F i es)" for i es
    by (induction es arbitrary: i) (auto intro!: rules)
  have reset: "keeps R resetElectionTimer"
    unfolding resetElectionTimer_def by (intro rules R(3)) simp_all
  have differs: "keeps R (prev_differs F i t)" for i t
    unfolding prev_differs_def by (intro rules)
  show "keeps R (heard_entries F prev prev_term es leaderCommit)"
    unfolding heard_entries_def by (intro rules reset differs loop committed)
qed

text \<open>A message leaves the larger one of the two terms, however it ends.\<close>

lemma appendEntries_term:
  "currentTerm (state (snd (appendEntries F p tm prev prev_term es leaderCommit n))) = max (currentTerm (state n)) tm"
proof -
  have "quiet (\<lambda>n m. state m = state n)" by (auto simp: quiet_def reflp_def transp_def)
  from quiet_replication(2) [OF this] have "state (snd (heard_entries F prev prev_term es leaderCommit m)) = state m" for m
    by (simp add: keeps_def)
  then show ?thesis by (simp add: appendEntries_heard_term heard_term_def)
qed

lemma stable_replication:
  assumes "stable R"
  shows "keeps R (updateCommitIndex F)" and "keeps R (appendEntries F p tm prev prev_term es leaderCommit)"
    and "keeps R (sendAppendEntries F p)" and "keeps R (proposeEntry F k v)"
proof -
  note R = stableD [OF assms]
  note rules = R(1,2) keeps_rules stable_read [OF assms]
  show update: "keeps R (updateCommitIndex F)"
    unfolding updateCommitIndex_def commit_check_def by (intro rules quiet_replication(1) R(5))
  show append: "keeps R (appendEntries F p tm prev prev_term es leaderCommit)" for p tm prev prev_term es leaderCommit
  proof (rule keepsI)
    fix n :: raft_node
    have "R (heard_term tm n) (snd (heard_entries F prev prev_term es leaderCommit (heard_term tm n)))"
      using quiet_replication(2) [OF R(5)] by (simp add: keeps_def)
    moreover have "R n (heard_term tm n)" using R(4) [of n tm None] R(1) by (simp add: heard_term_def reflp_def)
    ultimately show "R n (snd (appendEntries F p tm prev prev_term es leaderCommit n))"
      using R(1,2) by (auto simp: appendEntries_heard_term reflp_def dest: transpD)
  qed
  show send: "keeps R (sendAppendEntries F p)" for p
    unfolding sendAppendEntries_def by (intro rules append update R(3)) simp_all
  have "keeps R (replicateEntry F)"
    unfolding replicateEntry_def by (intro rules send update)
  then show "keeps R (proposeEntry F k v)"
    unfolding proposeEntry_def by (intro rules)
qed

lemma stable_scheduling:
  assumes "stable R"
  shows "keeps R (submit t)" and "keeps R heartbeatTask" and "keeps R shutdown_node"
    and "keeps R (requestVote rpc p lastLogIndex lastLogTerm)"
proof -
  note R = stableD [OF assms]
  note rules = R(1,2) keeps_rules stable_read [OF assms]
  show submit: "keeps R (submit t)" for t
    unfolding submit_def by (intro rules R(3)) simp_all
  show "keeps R heartbeatTask"
    unfolding heartbeatTask_def by (intro rules submit)
  show "keeps R shutdown_node"
    unfolding shutdown_node_def by (intro rules R(3)) simp_all
  show "keeps R (requestVote rpc p lastLogIndex lastLogTerm)"
    using R(1) by (intro keepsI) (simp add: requestVote_def R(4) reflp_def split: option.split)
qed

text \<open>The part of \<open>startElection\<close> after the node has become a candidate.\<close>

definition collect_votes :: "faults \<Rightarrow> unit raft" where
  "collect_votes F =
     bind (on_db (getLastLogIndex F)) (\<lambda>lastLogIndex.
     bind (on_db (getLastLogTerm F)) (\<lambda>lastLogTerm.
     bind (read_node (\<lambda>n. map fst (peers n))) (\<lambda>ids.
     bind (for_each (\<lambda>p. submit (Vote_Task p lastLogIndex lastLogTerm)) ids) (\<lambda>_.
     if ids = [] then electionCallback F
     else modify (\<lambda>n. n\<lparr>tasks := tasks n @ [Election_Callback]\<rparr>)))))"

lemma startElection_eq:
  "startElection F n = collect_votes F (n\<lparr>state := becomeCandidate (state n), votedFor := Some (nodeId n)\<rparr>)"
  by (simp add: startElection_def collect_votes_def)

lemma stable_collect:
  assumes "stable R" and "keeps R (electionCallback F)"
  shows "keeps R (collect_votes F)"
  unfolding collect_votes_def
  by (intro keeps_rules stableD [OF assms(1)] stable_read [OF assms(1)] stable_scheduling [OF assms(1)] assms(2)) simp_all

section \<open>A node with peers never leads\<close>

text \<open>
  Counting the votes fails as soon as there is one peer: the joined values are futures, not
  Booleans.
\<close>

definition no_new_leader :: "raft_node \<Rightarrow> raft_node \<Rightarrow> bool" where
  "no_new_leader n m \<longleftrightarrow> peers m = peers n \<and>
     (peers n \<noteq> [] \<longrightarrow> currentRole (state n) \<noteq> LEADER \<longrightarrow> currentRole (state m) \<noteq> LEADER)"

lemma countVotes_fails: "peers n \<noteq> [] \<Longrightarrow> countVotes n = (Exc ClassCastException, n)"
  by (cases "peers n") (simp_all add: countVotes_def voteFutures_def)

lemma stable_no_new_leader: "stable no_new_leader"
  by (auto simp: stable_def quiet_def no_new_leader_def reflp_def transp_def)

definition same_peers :: "raft_node \<Rightarrow> raft_node \<Rightarrow> bool" where
  "same_peers n m \<longleftrightarrow> peers m = peers n"

lemma stable_same_peers: "stable same_peers"
  by (auto simp: stable_def quiet_def same_peers_def reflp_def transp_def)

lemma becomeLeader_peers: "keeps same_peers (becomeLeader F)"
  unfolding becomeLeader_def
  by (intro keeps_rules stable_read [OF stable_same_peers] stableD(2) [OF stable_same_peers]) (simp_all add: same_peers_def)

lemma electionCallback_no_leader: "keeps no_new_leader (electionCallback F)"
proof (rule keepsI)
  fix n :: raft_node
  show "no_new_leader n (snd (electionCallback F n))"
  proof (cases "peers n = []")
    case True
    obtain r m where m: "becomeLeader F n = (r, m)" by fastforce
    then have "peers m = peers n" using keepsD [OF becomeLeader_peers] by (auto simp: same_peers_def)
    then show ?thesis
      using True m by (cases r) (auto simp: no_new_leader_def electionCallback_def countVotes_def voteFutures_def quorum_def peersSize_def)
  next
    case False
    then show ?thesis by (simp add: no_new_leader_def electionCallback_def countVotes_fails)
  qed
qed

lemma startElection_no_leader: "no_new_leader n (snd (startElection F n))"
proof -
  let ?c = "n\<lparr>state := becomeCandidate (state n), votedFor := Some (nodeId n)\<rparr>"
  have "keeps no_new_leader (collect_votes F)"
    using stable_no_new_leader electionCallback_no_leader by (rule stable_collect)
  then have "no_new_leader ?c (snd (collect_votes F ?c))" by (simp add: keeps_def)
  moreover have "no_new_leader n ?c" by (simp add: no_new_leader_def)
  ultimately show ?thesis
    unfolding startElection_eq using stableD(2) [OF stable_no_new_leader] by (meson transpD)
qed

lemma run_task_stable:
  assumes "stable R" and "keeps R (electionCallback F)"
  shows "keeps R (run_task F rpc t)"
  unfolding run_task_def using assms stable_replication(3) stableD(1,2) stable_scheduling(4)
  by (cases t) (auto intro!: keeps_rules)

lemma tasks_frame: "stable R \<Longrightarrow> R n (n\<lparr>tasks := ts\<rparr>)" "stable R \<Longrightarrow> R n (n\<lparr>electionTimer := t\<rparr>)"
  by (simp_all add: stableD(3))

text \<open>Steps keep a stable relation that elections keep.\<close>

lemma node_step_keeps:
  assumes R: "stable R" and start: "\<And>t. R n (snd (startElection F (n\<lparr>electionTimer := t\<rparr>)))" and callback: "keeps R (electionCallback F)"
    and step: "node_step F n m"
  shows "R n m"
proof -
  have trans: "R a b \<Longrightarrow> R b c \<Longrightarrow> R a c" for a b c using stableD(2) [OF R] by (meson transpD)
  from step show ?thesis
  proof cases
    case own
    then show ?thesis
    proof cases
      case (tick r)
      moreover have "n\<lparr>electionTimer := electionTimer n\<rparr> = n" by simp
      ultimately show ?thesis
        using start [of "electionTimer n"] stableD(1) [OF R] by (auto simp: leaderElectionTask_def reflp_def split: if_splits)
    next
      case (timer t r)
      show ?thesis using start [of None] timer(2) by simp
    next
      case (work ts t us rpc r)
      show ?thesis using keepsD [OF run_task_stable [OF R callback] work(2)] tasks_frame(1) [OF R] trans by blast
    qed (use keepsD [OF stable_scheduling(2) [OF R]] keepsD [OF stable_replication(4) [OF R]] in blast)+
  qed (use keepsD [OF stable_scheduling(3) [OF R]] keepsD [OF stable_replication(2) [OF R]] in blast)+
qed

lemma node_step_no_leader: "node_step F n m \<Longrightarrow> no_new_leader n m"
proof (rule node_step_keeps [OF stable_no_new_leader _ electionCallback_no_leader])
  show "no_new_leader n (snd (startElection F (n\<lparr>electionTimer := t\<rparr>)))" for t
    using startElection_no_leader [of "n\<lparr>electionTimer := t\<rparr>" F] by (simp add: no_new_leader_def)
qed

interpretation followers: invariant_system
  "\<lambda>n. peers n \<noteq> [] \<and> currentRole (state n) \<noteq> LEADER" "node_step F"
  "\<lambda>n. peers n \<noteq> [] \<and> currentRole (state n) \<noteq> LEADER"
  for F
  by unfold_locales (auto dest!: node_step_no_leader simp: no_new_leader_def)

section \<open>Terms\<close>

definition terms_grow :: "raft_node \<Rightarrow> raft_node \<Rightarrow> bool" where
  "terms_grow n m \<longleftrightarrow> currentTerm (state n) \<le> currentTerm (state m)"

lemma stable_terms_grow: "stable terms_grow"
  by (auto simp: stable_def quiet_def terms_grow_def reflp_def transp_def)

lemma electionCallback_terms: "keeps terms_grow (electionCallback F)"
proof -
  note rules = keeps_rules stable_read [OF stable_terms_grow] stableD(1,2) [OF stable_terms_grow]
  have count: "keeps terms_grow countVotes" by (simp add: keeps_def countVotes_def terms_grow_def)
  have "keeps terms_grow (becomeLeader F)"
    unfolding becomeLeader_def by (intro rules) (simp_all add: terms_grow_def)
  then show ?thesis unfolding electionCallback_def by (intro rules count)
qed

lemma startElection_terms: "jlong (currentTerm (state n) + 1) \<le> currentTerm (state (snd (startElection F n)))"
proof -
  have "keeps terms_grow (collect_votes F)"
    using stable_terms_grow electionCallback_terms by (rule stable_collect)
  then have "terms_grow c (snd (collect_votes F c))" for c by (simp add: keeps_def)
  from this [of "n\<lparr>state := becomeCandidate (state n), votedFor := Some (nodeId n)\<rparr>"] show ?thesis
    by (simp add: startElection_eq terms_grow_def)
qed

lemma node_step_terms:
  assumes "node_step F n m" and "is_long (currentTerm (state n) + 1)"
  shows "currentTerm (state n) \<le> currentTerm (state m)"
proof -
  have "terms_grow n m"
  proof (rule node_step_keeps [OF stable_terms_grow _ electionCallback_terms assms(1)])
    show "terms_grow n (snd (startElection F (n\<lparr>electionTimer := t\<rparr>)))" for t
      using startElection_terms [of "n\<lparr>electionTimer := t\<rparr>" F] assms(2) by (simp add: terms_grow_def)
  qed
  then show ?thesis by (simp add: terms_grow_def)
qed

section \<open>The key-value table follows the log\<close>

text \<open>The invariant of the server's own steps.\<close>

definition running_inv :: "faults \<Rightarrow> raft_node \<Rightarrow> bool" where
  "running_inv F n \<longleftrightarrow> send_inv F n \<and> distinct (map fst (peers n))"

text \<open>It does not read the role, the vote, the timer and the tasks.\<close>

definition same_data :: "raft_node \<Rightarrow> raft_node \<Rightarrow> bool" where
  "same_data n m \<longleftrightarrow> storage m = storage n \<and> peers m = peers n \<and> nextIndex m = nextIndex n \<and> running m = running n"

lemma running_inv_data: "running_inv F n \<Longrightarrow> same_data n m \<Longrightarrow> running_inv F m"
  by (simp add: running_inv_def same_data_def send_inv_def node_inv_def)

lemma getLastLogTerm_ok:
  assumes "usable F n"
  shows "on_db (getLastLogTerm F) n = (Val (if node_log n = [] then 0 else le_term (last (node_log n))), n)"
proof -
  have "getLastLogTerm F (storage n) = (Val (if node_log n = [] then 0 else le_term (last (node_log n))), storage n)"
    using sqlite.last_index [OF assms] sqlite.get_entry [OF assms]
    by (auto simp: getLastLogTerm_def last_conv_nth nat_diff_distrib Suc_le_eq)
  then show ?thesis by simp
qed

lemma submit_all: "running n \<Longrightarrow> for_each (\<lambda>p. submit (f p)) ids n = (Val (), n\<lparr>tasks := tasks n @ map f ids\<rparr>)"
  by (induction ids arbitrary: n) (simp_all add: submit_def)

text \<open>An election of a node with peers: a new term, a vote for itself, and a request to every peer.\<close>

lemma startElection_with_peers:
  assumes "usable F n" and "running n" and "peers n \<noteq> []"
  shows "startElection F n = (Val (), n\<lparr>state := becomeCandidate (state n), votedFor := Some (nodeId n),
    tasks := tasks n @ map (\<lambda>p. Vote_Task p (int (length (node_log n)))
        (if node_log n = [] then 0 else le_term (last (node_log n)))) (map fst (peers n)) @ [Election_Callback]\<rparr>)"
proof -
  let ?c = "n\<lparr>state := becomeCandidate (state n), votedFor := Some (nodeId n)\<rparr>"
  have "usable F ?c" "running ?c" "map fst (peers ?c) \<noteq> []" using assms by simp_all
  then show ?thesis
    unfolding startElection_eq collect_votes_def
    by (simp add: node_store.last_index getLastLogTerm_ok submit_all)
qed

lemma becomeLeader_ok:
  assumes "usable F n"
  shows "\<exists>m. becomeLeader F n = (Val (), m) \<and> storage m = storage n \<and> peers m = peers n \<and> running m = running n \<and>
    state m = role_becomeLeader (state n) \<and> tasks m = tasks n \<and> votedFor m = votedFor n \<and> nodeId m = nodeId n \<and>
    nextIndex m = fold (\<lambda>id. AList.update id (int (length (node_log n)) + 1)) (map fst (peers n)) (nextIndex n) \<and>
    matchIndex m = fold (\<lambda>id. AList.update id 0) (map fst (peers n)) (matchIndex n)"
proof -
  let ?l = "n\<lparr>state := role_becomeLeader (state n)\<rparr>"
  have "usable F ?l" using assms by simp
  then show ?thesis by (simp add: becomeLeader_def node_store.last_index)
qed

lemma map_of_fold_update:
  "map_of (fold (\<lambda>id. AList.update id v) ids m) p = (if p \<in> set ids then Some v else map_of m p)"
  by (induction ids arbitrary: m) (auto simp: update_conv')

lemma electionCallback_inv:
  assumes "running_inv F n"
  shows "running_inv F (snd (electionCallback F n))"
proof (cases "peers n = []")
  case True
  have u: "usable F n" using assms by (simp add: running_inv_def send_inv_def node_inv_def)
  obtain m where m: "becomeLeader F n = (Val (), m)" "storage m = storage n" "peers m = peers n" "running m = running n"
    "nextIndex m = nextIndex n"
    using becomeLeader_ok [OF u] True by auto
  then have "running_inv F m" using assms by (simp add: running_inv_def send_inv_def node_inv_def)
  moreover have "electionCallback F n = (Val (), m)"
    using True m(1) by (simp add: electionCallback_def countVotes_def voteFutures_def quorum_def peersSize_def)
  ultimately show ?thesis by simp
next
  case False
  then show ?thesis using assms by (simp add: electionCallback_def countVotes_fails)
qed

lemma startElection_inv:
  assumes "running_inv F n"
  shows "running_inv F (snd (startElection F n))"
proof (cases "peers n = []")
  case True
  let ?c = "n\<lparr>state := becomeCandidate (state n), votedFor := Some (nodeId n)\<rparr>"
  have c: "running_inv F ?c" using assms by (rule running_inv_data) (simp add: same_data_def)
  then have "usable F ?c" by (simp add: running_inv_def send_inv_def node_inv_def)
  then have "startElection F n = electionCallback F ?c"
    using True unfolding startElection_eq collect_votes_def by (simp add: node_store.last_index getLastLogTerm_ok)
  then show ?thesis using electionCallback_inv [OF c] by simp
next
  case False
  have "usable F n" "running n" using assms by (simp_all add: running_inv_def send_inv_def node_inv_def)
  from startElection_with_peers [OF this False] show ?thesis
    using running_inv_data [OF assms] by (simp add: same_data_def)
qed

lemma heartbeatTask_inv:
  assumes "running_inv F n"
  shows "running_inv F (snd (heartbeatTask n))"
proof -
  have "running n" using assms by (simp add: running_inv_def send_inv_def)
  then have "same_data n (snd (heartbeatTask n))"
    by (simp add: heartbeatTask_def submit_all same_data_def)
  then show ?thesis by (rule running_inv_data [OF assms])
qed

lemma run_task_inv:
  assumes "running_inv F n"
  shows "running_inv F (snd (run_task F rpc t n))"
proof (cases t)
  case (Send_Task p)
  obtain m where "sendAppendEntries F p n = (Val (), m)" "send_inv F m" "peers m = peers n"
    using sendAppendEntries_ok [of F n p] assms unfolding running_inv_def by blast
  then show ?thesis using assms Send_Task by (simp add: run_task_def running_inv_def)
next
  case (Vote_Task p i j)
  have "same_data n (snd (requestVote rpc p i j n))" and "\<exists>b. fst (requestVote rpc p i j n) = Val b"
    by (auto simp: requestVote_def same_data_def split: option.split)
  then show ?thesis
    using running_inv_data [OF assms] Vote_Task by (cases "requestVote rpc p i j n") (auto simp: run_task_def)
next
  case Election_Callback
  then show ?thesis using electionCallback_inv [OF assms] by (simp add: run_task_def)
qed

lemma proposeEntry_inv:
  assumes "running_inv F n"
  shows "running_inv F (snd (proposeEntry F k v n))"
proof (cases "currentRole (state n) = LEADER")
  case True
  obtain m where "proposeEntry F k v n = (Val True, m)" "send_inv F m" "peers m = peers n"
    using proposeEntry_ok [OF _ True] assms unfolding running_inv_def by blast
  then show ?thesis using assms by (simp add: running_inv_def)
qed (use assms in \<open>simp add: proposeEntry_def\<close>)

lemma local_step_inv:
  assumes "local_step F n m" and "running_inv F n"
  shows "running_inv F m"
  using assms(1)
proof cases
  case (tick r)
  then show ?thesis using startElection_inv [OF assms(2)] assms(2) by (auto simp: leaderElectionTask_def split: if_splits)
next
  case (timer t r)
  have "running_inv F (n\<lparr>electionTimer := None\<rparr>)" using assms(2) by (rule running_inv_data) (simp add: same_data_def)
  from startElection_inv [OF this] show ?thesis using timer by simp
next
  case (work ts t us rpc r)
  have "running_inv F (n\<lparr>tasks := ts @ us\<rparr>)" using assms(2) by (rule running_inv_data) (simp add: same_data_def)
  from run_task_inv [OF this, of rpc t] show ?thesis using work by simp
qed (use heartbeatTask_inv [OF assms(2)] proposeEntry_inv [OF assms(2)] in \<open>metis snd_conv\<close>)+

interpretation server_steps: invariant_system "running_inv F" "local_step F" "running_inv F"
  for F
  by unfold_locales (auto intro: local_step_inv)

section \<open>A node with peers never changes its storage\<close>

definition frozen :: "db \<Rightarrow> raft_node \<Rightarrow> bool" where
  "frozen d n \<longleftrightarrow> peers n \<noteq> [] \<and> running n \<and> currentRole (state n) \<noteq> LEADER \<and> storage n = d \<and>
     (\<forall>p. Send_Task p \<notin> set (tasks n))"

lemma frozen_startElection: "usable_log F d \<Longrightarrow> frozen d n \<Longrightarrow> frozen d (snd (startElection F n))"
  by (auto simp: frozen_def startElection_with_peers)

lemma frozen_run_task: "frozen d n \<Longrightarrow> (\<forall>p. t \<noteq> Send_Task p) \<Longrightarrow> frozen d (snd (run_task F rpc t n))"
  by (cases t) (auto simp: frozen_def run_task_def requestVote_def electionCallback_def countVotes_fails bind_def split: option.split)

lemma frozen_step:
  assumes "local_step F n m" and "usable_log F d" and "frozen d n"
  shows "frozen d m"
  using assms(1)
proof cases
  case (tick r)
  then show ?thesis using frozen_startElection [OF assms(2,3)] assms(3) by (auto simp: leaderElectionTask_def split: if_splits)
next
  case (timer t r)
  have "frozen d (n\<lparr>electionTimer := None\<rparr>)" using assms(3) by (simp add: frozen_def)
  from frozen_startElection [OF assms(2) this] show ?thesis using timer by simp
next
  case (heartbeat r)
  then show ?thesis using assms(3) by (auto simp: heartbeatTask_def frozen_def)
next
  case (work ts t us rpc r)
  have "frozen d (n\<lparr>tasks := ts @ us\<rparr>)" "\<forall>p. t \<noteq> Send_Task p" using assms(3) work(1) by (auto simp: frozen_def)
  from frozen_run_task [OF this, of F rpc] show ?thesis using work(2) by simp
next
  case (propose k v b)
  then show ?thesis using assms(3) by (auto simp: proposeEntry_def frozen_def)
qed

interpretation frozen_node: invariant_system "\<lambda>n. usable_log F d \<and> frozen d n" "local_step F" "\<lambda>n. usable_log F d \<and> frozen d n"
  for F d
  by unfold_locales (auto intro: frozen_step)

section \<open>A node without peers leads at once\<close>

lemma startElection_alone:
  assumes "usable F n" and "peers n = []"
  shows "\<exists>m. startElection F n = (Val (), m) \<and> state m = role_becomeLeader (becomeCandidate (state n)) \<and> storage m = storage n \<and>
    peers m = [] \<and> running m = running n \<and> tasks m = tasks n \<and> votedFor m = Some (nodeId n) \<and> nextIndex m = nextIndex n"
proof -
  let ?c = "n\<lparr>state := becomeCandidate (state n), votedFor := Some (nodeId n)\<rparr>"
  have u: "usable F ?c" using assms(1) by simp
  then have "startElection F n = electionCallback F ?c"
    using assms(2) unfolding startElection_eq collect_votes_def by (simp add: node_store.last_index getLastLogTerm_ok)
  moreover obtain m where m: "becomeLeader F ?c = (Val (), m)" "storage m = storage n" "peers m = []" "running m = running n"
    "state m = role_becomeLeader (becomeCandidate (state n))" "tasks m = tasks n" "votedFor m = Some (nodeId n)"
    "nextIndex m = nextIndex n"
    using becomeLeader_ok [OF u] assms(2) by auto
  moreover have "electionCallback F ?c = (Val (), m)"
    using assms(2) m(1) by (simp add: electionCallback_def countVotes_def voteFutures_def quorum_def peersSize_def)
  ultimately show ?thesis by simp
qed

section \<open>Quorums and timeouts\<close>

lemma quorum_overlap:
  "(\<exists>a b. quorum a (int k) \<and> quorum b (int k) \<and> a + b \<le> int k + 1) \<longleftrightarrow> odd k"
proof
  assume "\<exists>a b. quorum a (int k) \<and> quorum b (int k) \<and> a + b \<le> int k + 1"
  then show "odd k" unfolding quorum_def by presburger
next
  assume "odd k"
  then have "quorum (int k div 2 + 1) (int k) \<and> (int k div 2 + 1) + (int k div 2 + 1) \<le> int k + 1"
    unfolding quorum_def by presburger
  then show "\<exists>a b. quorum a (int k) \<and> quorum b (int k) \<and> a + b \<le> int k + 1" by blast
qed

end
