(* ===== verification/Kv_Server.thy ===== *)
theory Kv_Server
  imports Raft_Steps
begin

text \<open>
  The server process: \<open>config/ServerConfig.java\<close>, \<open>server/KVStoreServer.java\<close> and the gRPC
  service \<open>server/KVStoreServiceImpl.java\<close>. The properties read from the configuration file, whether
  the database connects and whether gRPC builds and binds a server for a port are parameters.
\<close>

section \<open>Configuration\<close>

record server_config =
  cfg_nodeId :: "string option"
  cfg_peers :: "string list"
  cfg_storagePath :: "string option"

definition ServerConfig :: "(string \<rightharpoonup> string) \<Rightarrow> (jexn, server_config) outcome" where
  "ServerConfig props =
     (case props ''peers'' of
        None \<Rightarrow> Exc NullPointerException
      | Some ps \<Rightarrow> Val \<lparr>cfg_nodeId = props ''node.id'', cfg_peers = java_split (CHR '','') ps,
                        cfg_storagePath = props ''storage.path''\<rparr>)"

section \<open>The server object\<close>

datatype grpc_status = Built | Started | Shut_Down

record kv_server =
  port :: int
  server :: grpc_status
  raftNode :: raft_node
  scheduled :: bool

text \<open>What the process relies on from its environment.\<close>

record server_env =
  db_faults :: faults
  db_connects :: "string \<Rightarrow> bool"
  grpc_builds :: "int \<Rightarrow> bool"
  grpc_binds :: "int \<Rightarrow> bool"
  math_random :: "nat \<Rightarrow> int"

text \<open>\<open>Integer.parseInt(config.getNodeId().split(":")[1])\<close>\<close>

definition config_port :: "server_config \<Rightarrow> (jexn, int) outcome" where
  "config_port config =
     (case cfg_nodeId config of
        None \<Rightarrow> Exc NullPointerException
      | Some i \<Rightarrow> (case java_split (CHR '':'') i of
                    _ # p # _ \<Rightarrow> parseInt p
                  | _ \<Rightarrow> Exc ArrayIndexOutOfBoundsException))"

text \<open>
  The constructor, on the tables that the database file holds. A null URL is refused by the
  driver manager with an \<open>SQLException\<close>; a port that gRPC refuses is an
  \<open>IllegalArgumentException\<close>.
\<close>

definition KVStoreServer :: "server_env \<Rightarrow> server_config \<Rightarrow> (db, jexn, kv_server) prog" where
  "KVStoreServer env config = (\<lambda>d.
     case config_port config of
       Val p \<Rightarrow>
         bind (case cfg_storagePath config of
                 None \<Rightarrow> throw (RuntimeException ''Failed to initialize database'')
               | Some path \<Rightarrow> SQLiteStorage (db_faults env) (db_connects env) path) (\<lambda>_ d'.
         if grpc_builds env p
         then (Val \<lparr>port = p, server = Built,
                    raftNode = RaftNode (math_random env) (the (cfg_nodeId config)) (cfg_peers config) d',
                    scheduled = False\<rparr>, d')
         else (Exc IllegalArgumentException, d')) d
     | Exc e \<Rightarrow> (Exc e, d)
     | UB \<Rightarrow> (UB, d)
     | Hang \<Rightarrow> (Hang, d))"

text \<open>\<open>server.start()\<close> throws \<open>IOException\<close> when the port cannot be bound; then the node's timers start.\<close>

definition start_server :: "server_env \<Rightarrow> (kv_server, jexn, unit) prog" where
  "start_server env = (\<lambda>s.
     if grpc_binds env (port s) then (Val (), s\<lparr>server := Started, scheduled := True\<rparr>)
     else (Exc IOException, s))"

text \<open>The shutdown hook: the node itself is not shut down, its storage is closed.\<close>

definition stop_server :: "(kv_server, jexn, unit) prog" where
  "stop_server = modify (\<lambda>s. s\<lparr>server := Shut_Down,
     raftNode := (raftNode s)\<lparr>storage := (storage (raftNode s))\<lparr>conn_open := False\<rparr>\<rparr>\<rparr>)"

text \<open>
  \<open>main\<close> up to \<open>blockUntilShutdown\<close>: \<open>Inl\<close> is an exit code, \<open>Inr\<close> the running server.
  \<open>load\<close> is what the configuration file holds, \<open>None\<close> when it cannot be read.
\<close>

definition server_main :: "server_env \<Rightarrow> (string \<Rightarrow> (string \<rightharpoonup> string) option) \<Rightarrow> string list \<Rightarrow> db \<Rightarrow> (jexn, int + kv_server) outcome" where
  "server_main env load args d =
     (case args of
        [path] \<Rightarrow>
          (case load path of
             None \<Rightarrow> Exc IOException
           | Some props \<Rightarrow>
               (case ServerConfig props of
                  Val config \<Rightarrow>
                    (case fst (KVStoreServer env config d) of
                       Val s \<Rightarrow> (case start_server env s of
                                   (Val _, s') \<Rightarrow> Val (Inr s')
                                 | (Exc e, _) \<Rightarrow> Exc e
                                 | (UB, _) \<Rightarrow> UB
                                 | (Hang, _) \<Rightarrow> Hang)
                     | Exc e \<Rightarrow> Exc e
                     | UB \<Rightarrow> UB
                     | Hang \<Rightarrow> Hang)
                | Exc e \<Rightarrow> Exc e
                | UB \<Rightarrow> UB
                | Hang \<Rightarrow> Hang))
      | _ \<Rightarrow> Val (Inl 1))"

section \<open>The service\<close>

record get_response =
  gr_value :: string
  gr_found :: bool

record put_response =
  pr_success :: bool
  pr_old_value :: string

definition service_get :: "faults \<Rightarrow> string \<Rightarrow> get_response raft" where
  "service_get F key =
     bind (on_db (get_kv F key)) (\<lambda>v.
     ret \<lparr>gr_value = (case v of None \<Rightarrow> '''' | Some x \<Rightarrow> x), gr_found = (v \<noteq> None)\<rparr>)"

text \<open>The future is complete when \<open>thenAccept\<close> is called, so the answer is sent within the call.\<close>

definition service_put :: "faults \<Rightarrow> string \<Rightarrow> string \<Rightarrow> put_response raft" where
  "service_put F key v =
     bind (proposeEntry F key v) (\<lambda>success.
     ret \<lparr>pr_success = success, pr_old_value = ''''\<rparr>)"

section \<open>Construction\<close>

lemma config_port_roundtrip:
  assumes "CHR '':'' \<notin> set host" and "p < 2 ^ 31" and "cfg_nodeId config = Some (host @ '':'' @ to_string p)"
  shows "config_port config = Val (int p)"
proof -
  have "CHR '':'' \<notin> set (to_string p)" using to_string_chars by blast
  then have "java_split (CHR '':'') (host @ CHR '':'' # to_string p) = [host, to_string p]"
    using assms(1) to_string_nonempty by (intro java_split_pair) auto
  then show ?thesis using assms(2,3) by (simp add: config_port_def parseInt_to_string)
qed

lemma fold_update_keys:
  "distinct (map fst m) \<Longrightarrow> distinct (map fst (fold (\<lambda>id. AList.update id (f id)) ids m)) \<and>
     set (map fst (fold (\<lambda>id. AList.update id (f id)) ids m)) = set (map fst m) \<union> set ids"
proof (induction ids arbitrary: m)
  case (Cons i ids)
  have "distinct (map fst (AList.update i (f i) m))" using Cons.prems by (rule distinct_update)
  from Cons.IH [OF this] show ?case by (auto simp: dom_update)
qed simp

lemma RaftNode_simps [simp]:
  "nodeId (RaftNode rnd i ps d) = i" "storage (RaftNode rnd i ps d) = d" "state (RaftNode rnd i ps d) = newRaftState"
  "nextIndex (RaftNode rnd i ps d) = []" "matchIndex (RaftNode rnd i ps d) = []" "votedFor (RaftNode rnd i ps d) = None"
  "running (RaftNode rnd i ps d)" "tasks (RaftNode rnd i ps d) = []" "electionTimer (RaftNode rnd i ps d) = None"
  by (simp_all add: RaftNode_def Let_def)

lemma RaftNode_peers:
  "distinct (map fst (peers (RaftNode rnd i ps d)))" "set (map fst (peers (RaftNode rnd i ps d))) = set ps"
  using fold_update_keys [of "[]" "\<lambda>id. \<lparr>ni_id = id, ni_host = ''localhost'', ni_port = 50051\<rparr>" ps]
  by (simp_all add: RaftNode_def Let_def)

lemma SQLiteStorage_ok:
  assumes "accepts F" and "connects url"
  shows "SQLiteStorage F connects url d = (Val (), d\<lparr>conn_open := True, state_rows := state_rows d @
    [\<lparr>st_lastApplied = 0, st_commitIndex = 0, st_currentTerm = 0, st_votedFor = None\<rparr>]\<rparr>)"
  using assms by (simp add: SQLiteStorage_def initializeDatabase_def stmt_ok)

section \<open>Answers\<close>

definition answer :: "string option \<Rightarrow> get_response" where
  "answer v = \<lparr>gr_value = (case v of None \<Rightarrow> '''' | Some x \<Rightarrow> x), gr_found = (v \<noteq> None)\<rparr>"

lemma service_get_ok:
  assumes "usable F n"
  shows "service_get F k n = (Val (answer (kv_store (storage n) k)), n)"
  using sqlite_kv.select [of F "storage n" k] usable_open [OF assms] by (simp add: service_get_def answer_def)

lemma service_put_follower:
  "currentRole (state n) \<noteq> LEADER \<Longrightarrow> service_put F k v n = (Val \<lparr>pr_success = False, pr_old_value = ''''\<rparr>, n)"
  by (simp add: service_put_def proposeEntry_def)

lemma service_put_leader:
  assumes "send_inv F n" and "currentRole (state n) = LEADER" and "distinct (map fst (peers n))"
  shows "\<exists>m. service_put F k v n = (Val \<lparr>pr_success = True, pr_old_value = ''''\<rparr>, m) \<and> send_inv F m \<and>
    kv_store (storage m) = (replay (node_log n) Map.empty)(k \<mapsto> v)"
proof -
  obtain m where m: "proposeEntry F k v n = (Val True, m)" "send_inv F m"
    "node_log m = node_log n @ [new_entry (currentTerm (state n)) k v]" "kv_store (storage m) = replay (node_log m) Map.empty"
    using proposeEntry_ok [OF assms] by blast
  then show ?thesis by (simp add: service_put_def replay_append new_entry_def)
qed

text \<open>A database that a node left consistent is one that a new node can start on.\<close>

lemma restart_inv:
  assumes "node_inv F n" and "d = (storage n)\<lparr>conn_open := True, state_rows := state_rows (storage n) @ rows\<rparr>"
  shows "running_inv F (RaftNode rnd i ps d)" and "log_entries d = node_log n"
    and "commit_of d = node_commit n" and "applied_of d = node_applied n" and "kv_store d = kv_store (storage n)"
proof -
  show log: "log_entries d = node_log n" and kv: "kv_store d = kv_store (storage n)"
    using assms(2) by (simp_all add: log_entries_def)
  show commit: "commit_of d = node_commit n" and applied: "applied_of d = node_applied n"
    using assms by (auto simp: node_inv_def commit_of_def applied_of_def split: list.split)
  have "usable_log F d" "state_rows d \<noteq> []"
    using assms by (simp_all add: node_inv_def usable_log_def)
  then show "running_inv F (RaftNode rnd i ps d)"
    using assms(1) log kv commit applied RaftNode_peers(1)
    by (simp add: running_inv_def send_inv_def node_inv_def)
qed

end
