(* ===== verification/Threads.thy ===== *)
theory Threads
  imports Prelude "HOL-Library.Multiset"
begin

text \<open>
  Computations that other threads can interrupt. A thread is a resumption: it has ended, or its next
  atomic action maps the shared state to a new state and the rest of the thread. A pool of threads runs
  by executing the next action of any of them. Running a thread alone gives back a computation of
  \<open>Prelude\<close>, and the locale \<open>rely_guarantee\<close> holds a logic for what threads keep under interference.
\<close>

section \<open>Resumptions\<close>

datatype ('s, 'e, 'a) thread = Halt "('e, 'a) outcome" | Atomic "'s \<Rightarrow> ('s, 'e, 'a) thread \<times> 's"

definition atomic :: "('s, 'e, 'a) prog \<Rightarrow> ('s, 'e, 'a) thread" where
  "atomic m = Atomic (\<lambda>s. case m s of (r, t) \<Rightarrow> (Halt r, t))"

primrec tbind :: "('s, 'e, 'a) thread \<Rightarrow> ('a \<Rightarrow> ('s, 'e, 'b) thread) \<Rightarrow> ('s, 'e, 'b) thread" where
  "tbind (Halt r) f = (case r of Val x \<Rightarrow> f x | Exc e \<Rightarrow> Halt (Exc e) | UB \<Rightarrow> Halt UB | Hang \<Rightarrow> Halt Hang)"
| "tbind (Atomic g) f = Atomic (map_prod (\<lambda>t. tbind t f) id \<circ> g)"

abbreviation tret :: "'a \<Rightarrow> ('s, 'e, 'a) thread" where
  "tret x \<equiv> Halt (Val x)"

abbreviation tthrow :: "'e \<Rightarrow> ('s, 'e, 'a) thread" where
  "tthrow e \<equiv> Halt (Exc e)"

text \<open>\<open>try { t } catch ...\<close> around a thread.\<close>

primrec tcatch :: "('s, 'e, 'a) thread \<Rightarrow> ('e \<Rightarrow> ('s, 'e, 'a) thread) \<Rightarrow> ('s, 'e, 'a) thread" where
  "tcatch (Halt r) h = (case r of Exc e \<Rightarrow> h e | _ \<Rightarrow> Halt r)"
| "tcatch (Atomic g) h = Atomic (map_prod (\<lambda>t. tcatch t h) id \<circ> g)"

fun t_for_each :: "('a \<Rightarrow> ('s, 'e, unit) thread) \<Rightarrow> 'a list \<Rightarrow> ('s, 'e, unit) thread" where
  "t_for_each f [] = tret ()"
| "t_for_each f (x # xs) = tbind (f x) (\<lambda>_. t_for_each f xs)"

text \<open>The thread without interference.\<close>

primrec run_alone :: "('s, 'e, 'a) thread \<Rightarrow> ('s, 'e, 'a) prog" where
  "run_alone (Halt r) = (\<lambda>s. (r, s))"
| "run_alone (Atomic g) = (\<lambda>s. case (map_prod run_alone id \<circ> g) s of (m, t) \<Rightarrow> m t)"

lemma run_atomic [simp]: "run_alone (atomic m) = m"
  by (simp add: atomic_def fun_eq_iff split: prod.split)

lemma thread_induct [case_names Halt Atomic]:
  assumes halt: "\<And>r. P (Halt r)" and act: "\<And>g. (\<And>s. P (fst (g s))) \<Longrightarrow> P (Atomic g)"
  shows "P t"
proof (induction t)
  case (Atomic g)
  have "P (fst (g s))" for s
    by (rule Atomic [OF rangeI [of g s]]) (cases "g s", simp)
  then show ?case by (rule act)
qed (rule halt)

lemma run_tbind [simp]: "run_alone (tbind t f) = bind (run_alone t) (\<lambda>x. run_alone (f x))"
proof (induction t rule: thread_induct)
  case (Halt r)
  then show ?case by (cases r) (simp_all add: fun_eq_iff bind_def)
next
  case (Atomic g)
  then show ?case by (simp add: fun_eq_iff bind_def split_beta)
qed

lemma run_tcatch [simp]: "run_alone (tcatch t h) = try_catch (run_alone t) (\<lambda>e. run_alone (h e))"
proof (induction t rule: thread_induct)
  case (Halt r)
  then show ?case by (cases r) (simp_all add: fun_eq_iff try_catch_def)
next
  case (Atomic g)
  then show ?case by (simp add: fun_eq_iff try_catch_def split_beta)
qed

lemma run_ret [simp]: "run_alone (tret x) = ret x" "run_alone (tthrow e) = throw e"
  by (simp_all add: fun_eq_iff)

declare run_alone.simps [simp del]

lemma run_if [simp]: "run_alone (if b then t else u) = (if b then run_alone t else run_alone u)"
  by simp

section \<open>Threads that stop\<close>

text \<open>A thread that never waits for something that does not come.\<close>

inductive returns :: "('s, 'e, 'a) thread \<Rightarrow> bool" where
  "r \<noteq> Hang \<Longrightarrow> returns (Halt r)"
| "(\<And>s. returns (fst (g s))) \<Longrightarrow> returns (Atomic g)"

inductive_simps returns_simps [simp]: "returns (Halt r)" "returns (Atomic g)"

lemma returns_atomic: "(\<And>s. fst (m s) \<noteq> Hang) \<Longrightarrow> returns (atomic m)"
  by (simp add: atomic_def split_beta)

lemma returns_tbind: "returns t \<Longrightarrow> (\<And>x. returns (f x)) \<Longrightarrow> returns (tbind t f)"
proof (induction rule: returns.induct)
  case (1 r)
  then show ?case by (cases r) simp_all
qed simp

lemma returns_tcatch: "returns t \<Longrightarrow> (\<And>e. returns (h e)) \<Longrightarrow> returns (tcatch t h)"
proof (induction rule: returns.induct)
  case (1 r)
  then show ?case by (cases r) simp_all
qed simp

lemma returns_for_each: "(\<And>x. returns (f x)) \<Longrightarrow> returns (t_for_each f xs)"
  by (induction xs) (simp_all add: returns_tbind)

lemma returns_if: "returns t \<Longrightarrow> returns u \<Longrightarrow> returns (if b then t else u)"
  by simp

lemma returns_option: "returns t \<Longrightarrow> (\<And>y. returns (f y)) \<Longrightarrow> returns (case x of None \<Rightarrow> t | Some y \<Rightarrow> f y)"
  by (cases x) simp_all

lemma returns_ret: "returns (tret x)" "returns (tthrow e)"
  by simp_all

lemmas returns_rules = returns_tbind returns_tcatch returns_for_each returns_if returns_option returns_ret

text \<open>The first thread does what the second one does, but may stop in the middle for good.\<close>

inductive stops :: "('s, 'e, 'a) thread \<Rightarrow> ('s, 'e, 'a) thread \<Rightarrow> bool" where
  stops_Hang: "stops (Halt Hang) u"
| stops_Halt: "stops (Halt r) (Halt r)"
| stops_Atomic: "(\<And>s. snd (g s) = snd (h s) \<and> stops (fst (g s)) (fst (h s))) \<Longrightarrow> stops (Atomic g) (Atomic h)"

inductive_cases stops_AtomicE: "stops (Atomic g) u"

lemma stops_refl: "stops t t"
  by (induction t rule: thread_induct) (auto intro: stops.intros)

lemma stops_tbind: "stops t u \<Longrightarrow> (\<And>x. stops (f x) (f' x)) \<Longrightarrow> stops (tbind t f) (tbind u f')"
proof (induction rule: stops.induct)
  case (stops_Halt r)
  then show ?case by (cases r) (auto intro: stops.intros)
qed (auto intro!: stops.intros simp: comp_def)

section \<open>Pools\<close>

inductive pool_step :: "('s, 'e, 'a) thread list \<times> 's \<Rightarrow> ('s, 'e, 'a) thread list \<times> 's \<Rightarrow> bool" where
  "i < length ts \<Longrightarrow> ts ! i = Atomic g \<Longrightarrow> g s = (t, s') \<Longrightarrow> pool_step (ts, s) (ts[i := t], s')"

inductive_cases pool_stepE: "pool_step (ts, s) c"

lemma stops_pool_step:
  assumes "pool_step (ts, s) (us, u)" and "list_all2 stops ts vs"
  shows "\<exists>ws. pool_step (vs, s) (ws, u) \<and> list_all2 stops us ws"
proof -
  from assms(1) obtain i g t where i: "us = ts[i := t]" "i < length ts" "ts ! i = Atomic g" "g s = (t, u)"
    by (auto elim: pool_stepE)
  then have "stops (Atomic g) (vs ! i)" using list_all2_nthD [OF assms(2) i(2)] by simp
  then obtain h where h: "vs ! i = Atomic h" "snd (h s) = u" "stops t (fst (h s))" using i(4) by (elim stops_AtomicE) (metis fst_conv snd_conv)
  have "i < length vs" using i(2) list_all2_lengthD [OF assms(2)] by simp
  then have "pool_step (vs, s) (vs[i := fst (h s)], u)" using h(1,2) by (intro pool_step.intros [of i vs h]) auto
  moreover have "list_all2 stops us (vs[i := fst (h s)])" unfolding i(1) by (rule list_all2_update_cong [OF assms(2) h(3)])
  ultimately show ?thesis by blast
qed

lemma stops_pool_steps:
  assumes "pool_step\<^sup>*\<^sup>* (ts, s) (us, u)" and "list_all2 stops ts vs"
  shows "\<exists>ws. pool_step\<^sup>*\<^sup>* (vs, s) (ws, u) \<and> list_all2 stops us ws"
  using assms(1)
proof (induction "(us, u)" arbitrary: us u rule: rtranclp_induct)
  case base
  then show ?case using assms(2) by blast
next
  case (step c us u)
  obtain xs x where c: "c = (xs, x)" by fastforce
  from step.hyps(3) [OF c] obtain ws where "pool_step\<^sup>*\<^sup>* (vs, s) (ws, x)" "list_all2 stops xs ws" by blast
  moreover obtain ys where "pool_step (ws, x) (ys, u)" "list_all2 stops us ys"
    using stops_pool_step [of xs x us u ws] step.hyps(2) c \<open>list_all2 stops xs ws\<close> by blast
  ultimately show ?case by (meson rtranclp.rtrancl_into_rtrancl)
qed

text \<open>A thread goes on alone for a while, by itself and in a pool.\<close>

inductive goes :: "('s, 'e, 'a) thread \<Rightarrow> 's \<Rightarrow> ('s, 'e, 'a) thread \<Rightarrow> 's \<Rightarrow> bool" where
  goes_refl: "goes t s t s"
| goes_act: "g s = (t, v) \<Longrightarrow> goes t v u w \<Longrightarrow> goes (Atomic g) s u w"

lemma goes_trans [trans]: "goes t s u v \<Longrightarrow> goes u v x w \<Longrightarrow> goes t s x w"
  by (induction rule: goes.induct) (auto intro: goes.intros)

lemma goes_nested: "goes t s u v \<Longrightarrow> goes (tbind t f) s (tbind u f) v"
  by (induction rule: goes.induct) (auto intro: goes.intros)

lemma goes_bind: "run_alone t s = (Val x, v) \<Longrightarrow> goes (f x) v u w \<Longrightarrow> goes (tbind t f) s u w"
proof (induction t arbitrary: s rule: thread_induct)
  case (Atomic g)
  have "run_alone (fst (g s)) (snd (g s)) = (Val x, v)" using Atomic.prems(1) by (simp add: run_alone.simps split_beta)
  then have "goes (tbind (fst (g s)) f) (snd (g s)) u w" using Atomic.prems(2) by (rule Atomic.IH)
  then show ?case by (auto intro: goes_act [of _ s "tbind (fst (g s)) f" "snd (g s)"] simp: map_prod_def split_beta)
qed (simp add: run_alone.simps)

lemma goes_pool: "goes t s u v \<Longrightarrow> i < length ts \<Longrightarrow> ts ! i = t \<Longrightarrow> pool_step\<^sup>*\<^sup>* (ts, s) (ts[i := u], v)"
proof (induction arbitrary: ts rule: goes.induct)
  case (goes_act g s t v u w)
  have "pool_step (ts, s) (ts[i := t], v)" by (rule pool_step.intros [of i ts g]) (use goes_act in simp_all)
  moreover have "pool_step\<^sup>*\<^sup>* (ts[i := t], v) (ts[i := t, i := u], w)" by (rule goes_act.IH) (use goes_act.prems in simp_all)
  ultimately show ?case by (simp add: converse_rtranclp_into_rtranclp)
qed (auto simp: list_update_same_conv)

text \<open>An executable scheduler: the numbers of the threads that act, in order.\<close>

definition act :: "nat \<Rightarrow> ('s, 'e, 'a) thread list \<times> 's \<Rightarrow> ('s, 'e, 'a) thread list \<times> 's" where
  "act i c = (case c of (ts, s) \<Rightarrow>
     if i < length ts then (case ts ! i of Halt r \<Rightarrow> c | Atomic g \<Rightarrow> (case g s of (t, s') \<Rightarrow> (ts[i := t], s'))) else c)"

fun schedule :: "nat list \<Rightarrow> ('s, 'e, 'a) thread list \<times> 's \<Rightarrow> ('s, 'e, 'a) thread list \<times> 's" where
  "schedule [] c = c"
| "schedule (i # is) c = schedule is (act i c)"

text \<open>How a thread has ended.\<close>

primrec ended :: "('s, 'e, 'a) thread \<Rightarrow> ('e, 'a) outcome option" where
  "ended (Halt r) = Some r"
| "ended (Atomic g) = None"

lemma act_steps: "pool_step\<^sup>*\<^sup>* c (act i c)"
  by (cases c) (auto simp: act_def split: prod.split thread.split intro!: r_into_rtranclp pool_step.intros)

lemma schedule_steps: "pool_step\<^sup>*\<^sup>* c (schedule is c)"
proof (induction "is" arbitrary: c)
  case (Cons i "is")
  have "pool_step\<^sup>*\<^sup>* c (act i c)" by (rule act_steps)
  also have "pool_step\<^sup>*\<^sup>* (act i c) (schedule is (act i c))" by (rule Cons)
  finally show ?case by simp
qed simp

lemma length_schedule [simp]: "length (fst (schedule is c)) = length (fst c)"
  by (induction "is" arbitrary: c) (auto simp: act_def split: prod.split thread.split)

text \<open>Every action leaves a smaller thread, so that no pool runs forever.\<close>

definition rest_of :: "(('s, 'e, 'a) thread \<times> ('s, 'e, 'a) thread) set" where
  "rest_of = {(t, u). \<exists>g s s'. u = Atomic g \<and> g s = (t, s')}"

lemma wf_rest_of: "wf (rest_of :: (('s, 'e, 'a) thread \<times> ('s, 'e, 'a) thread) set)"
proof (rule wfUNIVI)
  fix P :: "('s, 'e, 'a) thread \<Rightarrow> bool" and t
  assume step: "\<forall>t. (\<forall>u. (u, t) \<in> rest_of \<longrightarrow> P u) \<longrightarrow> P t"
  show "P t"
  proof (induction t rule: thread_induct)
    case (Halt r)
    show ?case using step by (auto simp: rest_of_def)
  next
    case (Atomic g)
    have "P u" if "g s = (u, s')" for u s s'
      using Atomic [of s] that by simp
    then show ?case using step [rule_format, of "Atomic g"] by (auto simp: rest_of_def)
  qed
qed

lemma pool_step_smaller: "pool_step c d \<Longrightarrow> (fst d, fst c) \<in> listrel1 rest_of"
proof (induction rule: pool_step.induct)
  case (1 i ts g s t s')
  then have "(t, ts ! i) \<in> rest_of" by (auto simp: rest_of_def)
  moreover have "ts = (ts[i := t])[i := ts ! i]" by simp
  ultimately show ?case
    unfolding listrel1_iff_update using 1(1) by (metis fst_conv length_list_update nth_list_update_eq)
qed

lemma no_endless_run:
  assumes "wf r" and "\<And>c d. R c d \<Longrightarrow> (m d, m c) \<in> r"
  shows "\<exists>i :: nat. \<not> R (f i) (f (Suc i))"
proof (rule ccontr)
  assume "\<not> (\<exists>i. \<not> R (f i) (f (Suc i)))"
  then have "\<forall>i. (m (f (Suc i)), m (f i)) \<in> r" using assms(2) by blast
  then have "\<exists>g. \<forall>i. (g (Suc i), g i) \<in> r" by (rule exI [of _ "\<lambda>i. m (f i)"])
  with assms(1) show False by (simp add: wf_iff_no_infinite_down_chain)
qed

text \<open>A pool that cannot act has ended everywhere.\<close>

lemma stuck_pool: "(\<forall>d. \<not> pool_step (ts, s) d) \<longleftrightarrow> (\<forall>t\<in>set ts. \<exists>r. t = Halt r)"
proof
  assume stuck: "\<forall>d. \<not> pool_step (ts, s) d"
  show "\<forall>t\<in>set ts. \<exists>r. t = Halt r"
  proof
    fix t assume "t \<in> set ts"
    then obtain i where i: "i < length ts" "ts ! i = t" by (auto simp: in_set_conv_nth)
    show "\<exists>r. t = Halt r"
    proof (cases t)
      case (Atomic g)
      obtain u s' where "g s = (u, s')" by fastforce
      then show ?thesis using i Atomic stuck pool_step.intros [of i ts g s u s'] by blast
    qed simp
  qed
next
  assume "\<forall>t\<in>set ts. \<exists>r. t = Halt r"
  then show "\<forall>d. \<not> pool_step (ts, s) d" by (metis pool_stepE nth_mem thread.distinct(1))
qed

section \<open>Runs\<close>

text \<open>A run that goes on as long as it can, for any relation of steps, and for pools.\<close>

definition maximal :: "('c \<Rightarrow> 'c \<Rightarrow> bool) \<Rightarrow> (nat \<Rightarrow> 'c) \<Rightarrow> bool" where
  "maximal R f \<longleftrightarrow> (\<forall>i. R (f i) (f (Suc i)) \<or> f (Suc i) = f i \<and> (\<forall>d. \<not> R (f i) d))"

abbreviation maximal_run :: "(nat \<Rightarrow> ('s, 'e, 'a) thread list \<times> 's) \<Rightarrow> bool" where
  "maximal_run \<equiv> maximal pool_step"

lemma maximal_run_steps: "maximal R f \<Longrightarrow> R\<^sup>*\<^sup>* (f 0) (f i)"
proof (induction i)
  case (Suc i)
  then have "R (f i) (f (Suc i)) \<or> f (Suc i) = f i" by (auto simp: maximal_def)
  with Suc show ?case by (metis rtranclp.rtrancl_into_rtrancl)
qed simp

lemma maximal_stuck:
  assumes "maximal R f" and "wf r" and "\<And>c d. R c d \<Longrightarrow> (m d, m c) \<in> r"
  shows "\<exists>i. \<forall>d. \<not> R (f i) d"
  using no_endless_run [OF assms(2), of R m f] assms(1,3) by (auto simp: maximal_def)

lemma maximal_run_ends:
  fixes f :: "nat \<Rightarrow> ('s, 'e, 'a) thread list \<times> 's"
  assumes "maximal_run f"
  shows "\<exists>i. \<forall>t\<in>set (fst (f i)). \<exists>r. t = Halt r"
proof -
  have "wf (listrel1 (rest_of :: (('s, 'e, 'a) thread \<times> ('s, 'e, 'a) thread) set))" by (simp add: wf_rest_of)
  then obtain i where "\<forall>d. \<not> pool_step (f i) d" using maximal_stuck [of pool_step f _ fst, OF assms] pool_step_smaller by blast
  then have "\<forall>d. \<not> pool_step (fst (f i), snd (f i)) d" by simp
  then show ?thesis unfolding stuck_pool by blast
qed

lemma maximal_exists: "\<exists>f. maximal R f \<and> f 0 = c"
proof -
  have "\<exists>e. R d e \<or> e = d \<and> (\<forall>e. \<not> R d e)" for d by blast
  then show ?thesis
    unfolding maximal_def
    using dependent_nat_choice [of "\<lambda>n d. n = 0 \<longrightarrow> d = c" "\<lambda>_ d e. R d e \<or> e = d \<and> (\<forall>e. \<not> R d e)"] by blast
qed

lemmas maximal_run_exists = maximal_exists [of pool_step]

section \<open>Rely and guarantee\<close>

text \<open>
  Threads of several kinds keep an invariant \<open>I\<close>. A thread of kind \<open>k\<close> changes the state along \<open>guar k\<close> and relies on the
  others to change it along \<open>rely k\<close>; \<open>total\<close> covers both. \<open>emits k s t D E Q\<close>: started at \<open>s\<close>, having added \<open>D\<close> to what is observed
  of the state, and interrupted by changes it relies on, the thread \<open>t\<close> does so; it throws only what may fail, and when
  it ends with \<open>x\<close> it has added \<open>E x\<close> and \<open>Q x\<close> holds from then on.
\<close>

locale rely_guarantee =
  fixes I :: "'s \<Rightarrow> bool" and rely guar :: "'k \<Rightarrow> 's \<Rightarrow> 's \<Rightarrow> bool" and total :: "'s \<Rightarrow> 's \<Rightarrow> bool"
    and obs :: "'s \<Rightarrow> 'o multiset" and fails :: "'e \<Rightarrow> bool"
  assumes rely_refl: "rely k s s" and rely_trans: "rely k s t \<Longrightarrow> rely k t u \<Longrightarrow> rely k s u"
    and total_refl: "total s s" and total_trans: "total s t \<Longrightarrow> total t u \<Longrightarrow> total s u"
    and rely_total: "rely k s t \<Longrightarrow> total s t" and guar_total: "guar k s t \<Longrightarrow> total s t"
begin

inductive emits :: "'k \<Rightarrow> 's \<Rightarrow> ('s, 'e, 'a) thread \<Rightarrow> 'o multiset \<Rightarrow> ('a \<Rightarrow> 'o multiset) \<Rightarrow> ('a \<Rightarrow> 's \<Rightarrow> bool) \<Rightarrow> bool"
  for k where
  emits_Halt: "(\<And>s'. rely k s s' \<Longrightarrow> I s' \<Longrightarrow> Q x s') \<Longrightarrow> emits k s (Halt (Val x)) (E x) E Q"
| emits_fail: "fails e \<Longrightarrow> emits k s (Halt (Exc e)) D E Q"
| emits_Atomic: "(\<And>s'. rely k s s' \<Longrightarrow> I s' \<Longrightarrow> I (snd (g s')) \<and> guar k s' (snd (g s')) \<and>
      (\<exists>D'. obs (snd (g s')) = obs s' + D' \<and> emits k (snd (g s')) (fst (g s')) (D + D') E Q)) \<Longrightarrow>
    emits k s (Atomic g) D E Q"

inductive_cases emits_HaltE: "emits k s (Halt r) D E Q"
inductive_cases emits_AtomicE: "emits k s (Atomic g) D E Q"

lemma emits_AtomicD:
  "emits k s (Atomic g) D E Q \<Longrightarrow> rely k s s' \<Longrightarrow> I s' \<Longrightarrow> I (snd (g s')) \<and> guar k s' (snd (g s')) \<and>
    (\<exists>D'. obs (snd (g s')) = obs s' + D' \<and> emits k (snd (g s')) (fst (g s')) (D + D') E Q)"
  by (erule emits_AtomicE) blast

text \<open>A thread that adds nothing.\<close>

abbreviation rg :: "'k \<Rightarrow> 's \<Rightarrow> ('s, 'e, 'a) thread \<Rightarrow> ('a \<Rightarrow> 's \<Rightarrow> bool) \<Rightarrow> bool" where
  "rg k s t Q \<equiv> emits k s t {#} (\<lambda>_. {#}) Q"

lemma emits_later: "emits k s t D E Q \<Longrightarrow> rely k s u \<Longrightarrow> emits k u t D E Q"
proof (induction rule: emits.induct)
  case (emits_Atomic s g D E Q)
  then show ?case by (intro emits.emits_Atomic) (meson rely_trans)
qed (auto intro!: emits.emits_Halt emits.emits_fail dest: rely_trans)

lemma emits_frame: "emits k s t D E Q \<Longrightarrow> emits k s t (C + D) (\<lambda>x. C + E x) Q"
proof (induction rule: emits.induct)
  case (emits_Halt s Q x E)
  show ?case by (rule emits.emits_Halt [where E = "\<lambda>x. C + E x"]) (rule emits_Halt)
next
  case (emits_Atomic s g D E Q)
  show ?case
  proof (rule emits.emits_Atomic)
    fix s' assume s': "rely k s s'" "I s'"
    from emits_Atomic.IH [OF this] obtain D' where "I (snd (g s'))" "guar k s' (snd (g s'))" "obs (snd (g s')) = obs s' + D'"
      "emits k (snd (g s')) (fst (g s')) (C + (D + D')) (\<lambda>x. C + E x) Q" by blast
    then show "I (snd (g s')) \<and> guar k s' (snd (g s')) \<and> (\<exists>D'. obs (snd (g s')) = obs s' + D' \<and>
        emits k (snd (g s')) (fst (g s')) (C + D + D') (\<lambda>x. C + E x) Q)" by (auto simp: add.assoc)
  qed
qed (rule emits.emits_fail)

lemma emits_weaken: "emits k s t D E P \<Longrightarrow> (\<And>x u. total s u \<Longrightarrow> I u \<Longrightarrow> P x u \<Longrightarrow> Q x u) \<Longrightarrow> emits k s t D E Q"
proof (induction rule: emits.induct)
  case (emits_Halt s P x E)
  show ?case by (rule emits.emits_Halt) (use emits_Halt rely_total in blast)
next
  case (emits_Atomic s g D E P)
  show ?case
  proof (rule emits.emits_Atomic)
    fix s' assume s': "rely k s s'" "I s'"
    let ?u = "snd (g s')"
    obtain D' where D': "I ?u" "guar k s' ?u" "obs ?u = obs s' + D'"
      and rest: "(\<And>x w. total ?u w \<Longrightarrow> I w \<Longrightarrow> P x w \<Longrightarrow> Q x w) \<Longrightarrow> emits k ?u (fst (g s')) (D + D') E Q"
      using emits_Atomic.IH [OF s'] by auto
    have "total s ?u" using total_trans [OF rely_total [OF s'(1)] guar_total [OF D'(2)]] .
    then have "emits k ?u (fst (g s')) (D + D') E Q"
      using emits_Atomic.prems total_trans by (intro rest) blast
    with D' show "I ?u \<and> guar k s' ?u \<and> (\<exists>D'. obs ?u = obs s' + D' \<and> emits k ?u (fst (g s')) (D + D') E Q)" by blast
  qed
qed (rule emits.emits_fail)

text \<open>What is added may be stated in terms of the result.\<close>

lemma emits_restate:
  "emits k s t D E Q \<Longrightarrow> I s \<Longrightarrow> (\<And>x u. I u \<Longrightarrow> Q x u \<Longrightarrow> E' x = E x) \<Longrightarrow> emits k s t D E' Q"
proof (induction rule: emits.induct)
  case (emits_Halt s Q x E)
  then have "E' x = E x" using rely_refl by blast
  then show ?case using emits.emits_Halt [of k s Q x E'] emits_Halt.hyps by simp
next
  case (emits_Atomic s g D E Q)
  show ?case by (rule emits.emits_Atomic) (use emits_Atomic.IH emits_Atomic.prems(2) in blast)
qed (rule emits.emits_fail)

text \<open>One action.\<close>

lemma emits_action:
  assumes "\<And>u. rely k s u \<Longrightarrow> I u \<Longrightarrow> I (snd (m u)) \<and> guar k u (snd (m u)) \<and> (\<exists>D'. obs (snd (m u)) = obs u + D' \<and>
    (case fst (m u) of Val x \<Rightarrow> E x = D + D' \<and> (\<forall>w. rely k (snd (m u)) w \<longrightarrow> I w \<longrightarrow> Q x w) | Exc e \<Rightarrow> fails e | _ \<Rightarrow> False))"
  shows "emits k s (atomic m) D E Q"
  unfolding atomic_def
proof (rule emits_Atomic)
  fix u assume u: "rely k s u" "I u"
  obtain r v where m: "m u = (r, v)" by fastforce
  obtain D' where D': "I v" "guar k u v" "obs v = obs u + D'"
    and r: "case r of Val x \<Rightarrow> E x = D + D' \<and> (\<forall>w. rely k v w \<longrightarrow> I w \<longrightarrow> Q x w) | Exc e \<Rightarrow> fails e | _ \<Rightarrow> False"
    using assms [OF u] unfolding m fst_conv snd_conv by blast
  have "emits k v (Halt r) (D + D') E Q"
  proof (cases r)
    case (Val x)
    then have "D + D' = E x" using r by simp
    then show ?thesis using Val r emits_Halt [of k v Q x E] by simp
  qed (use r in \<open>auto intro: emits_fail\<close>)
  with m D' show "I (snd (case m u of (r, t) \<Rightarrow> (Halt r, t))) \<and> guar k u (snd (case m u of (r, t) \<Rightarrow> (Halt r, t))) \<and>
      (\<exists>D'. obs (snd (case m u of (r, t) \<Rightarrow> (Halt r, t))) = obs u + D' \<and>
         emits k (snd (case m u of (r, t) \<Rightarrow> (Halt r, t))) (fst (case m u of (r, t) \<Rightarrow> (Halt r, t))) (D + D') E Q)"
    by auto
qed

lemma emits_atomic:
  assumes "\<And>u. rely k s u \<Longrightarrow> I u \<Longrightarrow>
    \<exists>x v. m u = (Val x, v) \<and> I v \<and> guar k u v \<and> obs v = obs u + C \<and> (\<forall>w. rely k v w \<longrightarrow> I w \<longrightarrow> Q x w)"
  shows "emits k s (atomic m) D (\<lambda>_. D + C) Q"
  by (rule emits_action) (use assms in fastforce)

lemma rg_atomic:
  assumes "\<And>u. rely k s u \<Longrightarrow> I u \<Longrightarrow>
    \<exists>x v. m u = (Val x, v) \<and> I v \<and> guar k u v \<and> obs v = obs u \<and> (\<forall>w. rely k v w \<longrightarrow> I w \<longrightarrow> Q x w)"
  shows "rg k s (atomic m) Q"
  using emits_atomic [of k s m "{#}" Q "{#}"] assms by simp

text \<open>Sequencing and exception handling.\<close>

lemma emits_bind:
  assumes "emits k s t D E P" and "I s" and "\<And>x u. total s u \<Longrightarrow> I u \<Longrightarrow> P x u \<Longrightarrow> emits k u (f x) (E x) E' Q"
  shows "emits k s (tbind t f) D E' Q"
  using assms
proof (induction rule: emits.induct)
  case (emits_Halt s P x E)
  then show ?case using rely_refl total_refl by simp
next
  case (emits_fail e s D E P)
  then show ?case by (simp add: emits.emits_fail)
next
  case (emits_Atomic s g D E P)
  show ?case
    unfolding tbind.simps
  proof (rule emits.emits_Atomic)
    fix s' assume s': "rely k s s'" "I s'"
    let ?t = "fst (g s')" and ?u = "snd (g s')"
    obtain D' where D': "I ?u" "guar k s' ?u" "obs ?u = obs s' + D'" and bind: "emits k ?u (tbind ?t f) (D + D') E' Q"
      using emits_Atomic.IH [OF s'] emits_Atomic.prems(2) s'(1) rely_total guar_total total_trans by meson
    then show "I (snd ((map_prod (\<lambda>t. tbind t f) id \<circ> g) s')) \<and> guar k s' (snd ((map_prod (\<lambda>t. tbind t f) id \<circ> g) s')) \<and>
        (\<exists>D'. obs (snd ((map_prod (\<lambda>t. tbind t f) id \<circ> g) s')) = obs s' + D' \<and>
           emits k (snd ((map_prod (\<lambda>t. tbind t f) id \<circ> g) s')) (fst ((map_prod (\<lambda>t. tbind t f) id \<circ> g) s')) (D + D') E' Q)"
      by auto
  qed
qed

lemma rg_bind:
  assumes "rg k s t P" and "I s" and "\<And>x u. total s u \<Longrightarrow> I u \<Longrightarrow> P x u \<Longrightarrow> emits k u (f x) D E Q"
  shows "emits k s (tbind t f) D E Q"
proof -
  have "emits k s t D (\<lambda>_. D) P" using emits_frame [OF assms(1), of D] by simp
  then show ?thesis using assms(2,3) by (rule emits_bind)
qed

lemma emits_catch: "emits k s t D E Q \<Longrightarrow> (\<And>e. \<not> fails e) \<Longrightarrow> emits k s (tcatch t h) D E Q"
proof (induction rule: emits.induct)
  case (emits_Atomic s g D E Q)
  show ?case unfolding tcatch.simps
    by (rule emits.emits_Atomic) (use emits_Atomic.IH emits_Atomic.prems in fastforce)
qed (simp_all add: emits.emits_Halt)

lemma rg_catch:
  assumes "emits k s t D E Q" and "\<And>s. obs s = {#}" and "\<And>u. I u \<Longrightarrow> (\<And>e. fails e \<Longrightarrow> emits k u (h e) D E Q)" and "I s"
  shows "emits k s (tcatch t h) D E Q"
  using assms
proof (induction rule: emits.induct)
  case (emits_Halt s Q x E)
  show ?case unfolding tcatch.simps outcome.case by (rule emits.emits_Halt) (rule emits_Halt(1))
next
  case (emits_Atomic s g D E Q)
  show ?case unfolding tcatch.simps
  proof (rule emits.emits_Atomic)
    fix s' assume s': "rely k s s'" "I s'"
    have "I (snd (g s')) \<and> guar k s' (snd (g s')) \<and> emits k (snd (g s')) (tcatch (fst (g s')) h) D E Q"
      using emits_Atomic.IH [OF s'] emits_Atomic.prems(2) unfolding emits_Atomic.prems(1) by auto
    then show "I (snd ((map_prod (\<lambda>t. tcatch t h) id \<circ> g) s')) \<and> guar k s' (snd ((map_prod (\<lambda>t. tcatch t h) id \<circ> g) s')) \<and>
        (\<exists>D'. obs (snd ((map_prod (\<lambda>t. tcatch t h) id \<circ> g) s')) = obs s' + D' \<and>
           emits k (snd ((map_prod (\<lambda>t. tcatch t h) id \<circ> g) s')) (fst ((map_prod (\<lambda>t. tcatch t h) id \<circ> g) s')) (D + D') E Q)"
      unfolding emits_Atomic.prems(1) by auto
  qed
qed simp_all

text \<open>A thread that runs alone.\<close>

lemma emits_alone:
  "emits k s t D E Q \<Longrightarrow> I s \<Longrightarrow> \<exists>r u. run_alone t s = (r, u) \<and> I u \<and> total s u \<and>
    ((\<exists>x D'. r = Val x \<and> Q x u \<and> obs u = obs s + D' \<and> E x = D + D') \<or> (\<exists>e. r = Exc e \<and> fails e))"
proof (induction rule: emits.induct)
  case (emits_Atomic s g D E Q)
  let ?u = "snd (g s)"
  obtain D' r v where v: "guar k s ?u" "obs ?u = obs s + D'" "run_alone (fst (g s)) ?u = (r, v)" "I v" "total ?u v"
    "(\<exists>x C. r = Val x \<and> Q x v \<and> obs v = obs ?u + C \<and> E x = (D + D') + C) \<or> (\<exists>e. r = Exc e \<and> fails e)"
    using emits_Atomic.IH [OF rely_refl emits_Atomic.prems] by blast
  have "run_alone (Atomic g) s = (r, v)" using v(3) by (simp add: run_alone.simps split_beta)
  moreover have "total s v" using v(1,5) guar_total total_trans by blast
  moreover have "(\<exists>x C. r = Val x \<and> Q x v \<and> obs v = obs s + C \<and> E x = D + C) \<or> (\<exists>e. r = Exc e \<and> fails e)"
    using v(2,6) by (metis add.assoc)
  ultimately show ?case using v(4) by blast
qed (use total_refl rely_refl in \<open>auto simp: run_alone.simps\<close>)

text \<open>
  Threads that satisfy their conditions one by one satisfy them together, if each relies only on what the others
  guarantee, and what is observed at the end is what was there and what each has added.
\<close>

definition compatible :: "'k list \<Rightarrow> bool" where
  "compatible ks \<longleftrightarrow> (\<forall>i<length ks. \<forall>j<length ks. i \<noteq> j \<longrightarrow> (\<forall>s t. guar (ks ! j) s t \<longrightarrow> rely (ks ! i) s t))"

lemma sum_list_update_emitted:
  "i < length Ds \<Longrightarrow> sum_list (Ds[i := Ds ! i + D]) = sum_list Ds + (D :: 'o multiset)"
  by (induction Ds arbitrary: i) (auto split: nat.splits simp: ac_simps)

lemma pool_keeps:
  assumes "pool_step\<^sup>*\<^sup>* (ts, s) (us, u)" and "I s" and "length ks = length ts" and "compatible ks"
    and "\<And>i. i < length ts \<Longrightarrow> emits (ks ! i) s (ts ! i) {#} (E i) (Q i)"
  shows "I u \<and> total s u \<and> length us = length ts \<and> (\<exists>Ds. length Ds = length us \<and> obs u = obs s + sum_list Ds \<and>
    (\<forall>i<length us. emits (ks ! i) u (us ! i) (Ds ! i) (E i) (Q i)))"
  using assms(1)
proof (induction "(us, u)" arbitrary: us u rule: rtranclp_induct)
  case base
  have "sum_list (replicate (length ts) {#}) = {#}" by (induction ts) simp_all
  then show ?case using assms(2,5) total_refl by (intro conjI exI [of _ "replicate (length ts) {#}"]) simp_all
next
  case (step c us u)
  obtain vs v where c: "c = (vs, v)" by fastforce
  obtain Ds where v: "I v" "total s v" "length vs = length ts" "length Ds = length vs" "obs v = obs s + sum_list Ds"
    "\<And>i. i < length vs \<Longrightarrow> emits (ks ! i) v (vs ! i) (Ds ! i) (E i) (Q i)"
    using step.hyps(3) [OF c] by blast
  from step.hyps(2) obtain i g t where i: "us = vs[i := t]" "i < length vs" "vs ! i = Atomic g" "g v = (t, u)"
    unfolding c by (auto elim: pool_stepE)
  obtain D where t: "I u" "guar (ks ! i) v u" "obs u = obs v + D" "emits (ks ! i) u t (Ds ! i + D) (E i) (Q i)"
  proof -
    from v(6) [OF i(2)] i(3) have "emits (ks ! i) v (Atomic g) (Ds ! i) (E i) (Q i)" by simp
    from emits_AtomicD [OF this rely_refl v(1)] show thesis using that i(4) by auto
  qed
  have "emits (ks ! j) u (us ! j) (Ds[i := Ds ! i + D] ! j) (E j) (Q j)" if j: "j < length us" for j
  proof (cases "j = i")
    case False
    then have "rely (ks ! j) v u" using assms(3,4) t(2) i(1,2) j v(3) by (auto simp: compatible_def)
    then show ?thesis using emits_later [OF v(6)] j False i(1) by simp
  qed (use t(4) i(1,2) v(4) in simp)
  moreover have "obs u = obs s + sum_list (Ds[i := Ds ! i + D])"
    using sum_list_update_emitted [of i Ds D] i(2) v(4,5) t(3) by (simp add: ac_simps)
  moreover have "total s u" using v(2) t(2) guar_total total_trans by blast
  ultimately show ?case using t(1) v(3,4) i(1) by (intro conjI exI [of _ "Ds[i := Ds ! i + D]"]) auto
qed

lemma pool_result:
  assumes "pool_step\<^sup>*\<^sup>* (ts, s) (us, u)" and "I s" and "length ks = length ts" and "compatible ks"
    and "\<And>i. i < length ts \<Longrightarrow> emits (ks ! i) s (ts ! i) {#} (E i) (Q i)"
    and "i < length us" and "us ! i = Halt r"
  shows "(\<exists>x. r = Val x \<and> Q i x u) \<or> (\<exists>e. r = Exc e \<and> fails e)"
proof -
  obtain D where "I u" "emits (ks ! i) u (us ! i) D (E i) (Q i)" using pool_keeps [OF assms(1-5)] assms(6) by metis
  then have "emits (ks ! i) u (Halt r) D (E i) (Q i)" unfolding assms(7) by blast
  then show ?thesis using rely_refl \<open>I u\<close> by cases blast+
qed

lemma pool_total:
  assumes "pool_step\<^sup>*\<^sup>* (ts, s) (us, u)" and "I s" and "length ks = length ts" and "compatible ks"
    and "\<And>i. i < length ts \<Longrightarrow> emits (ks ! i) s (ts ! i) {#} (E i) (Q i)" and "\<And>i. i < length ts \<Longrightarrow> us ! i = Halt (Val (x i))"
  shows "obs u = obs s + (\<Sum>i\<leftarrow>[0..<length ts]. E i (x i))"
proof -
  obtain Ds where Ds: "length us = length ts" "length Ds = length us" "obs u = obs s + sum_list Ds"
    "\<And>i. i < length us \<Longrightarrow> emits (ks ! i) u (us ! i) (Ds ! i) (E i) (Q i)"
    using pool_keeps [OF assms(1-5)] by blast
  have "Ds ! i = E i (x i)" if i: "i < length Ds" for i
  proof -
    have "emits (ks ! i) u (us ! i) (Ds ! i) (E i) (Q i)" "us ! i = Halt (Val (x i))" using Ds(1,2,4) assms(6) i by simp_all
    then have "emits (ks ! i) u (Halt (Val (x i))) (Ds ! i) (E i) (Q i)" by metis
    then show ?thesis by cases
  qed
  then have "Ds = map (\<lambda>i. E i (x i)) [0..<length ts]" using Ds(1,2) by (intro nth_equalityI) simp_all
  with Ds(3) show ?thesis by metis
qed

end

section \<open>Invariants of actions\<close>

text \<open>
  The special case in which an invariant of the state is all that threads rely on and guarantee: \<open>safe t Q\<close>, every action
  of \<open>t\<close> keeps the invariant, whatever the others do in between, and its value satisfies \<open>Q\<close>.
\<close>

locale invariant_threads =
  fixes I :: "'s \<Rightarrow> bool" and fails :: "'e \<Rightarrow> bool"

sublocale invariant_threads < actions: rely_guarantee I "\<lambda>_ :: unit. \<lambda>_ _. True" "\<lambda>_ _ _. True" "\<lambda>_ _. True" "\<lambda>_. {#} :: unit multiset" fails
  by unfold_locales simp_all

context invariant_threads
begin

definition safe :: "('s, 'e, 'a) thread \<Rightarrow> ('a \<Rightarrow> bool) \<Rightarrow> bool" where
  "safe t Q \<longleftrightarrow> (\<forall>s. I s \<longrightarrow> actions.rg () s t (\<lambda>x _. Q x))"

lemma safe_ret: "Q x \<Longrightarrow> safe (Halt (Val x)) Q"
  unfolding safe_def using actions.emits_Halt [where k = "()" and E = "\<lambda>_. {#}" and Q = "\<lambda>x _. Q x" and x = x] by simp

lemma safe_fail: "fails e \<Longrightarrow> safe (Halt (Exc e)) Q"
  by (simp add: safe_def actions.emits_fail)

lemma safe_bind:
  assumes "safe t P" and "\<And>x. P x \<Longrightarrow> safe (f x) Q"
  shows "safe (tbind t f) Q"
  unfolding safe_def
proof (intro allI impI)
  fix s assume s: "I s"
  then have "actions.rg () s t (\<lambda>x _. P x)" using assms(1) by (simp add: safe_def)
  then show "actions.rg () s (tbind t f) (\<lambda>x _. Q x)"
    by (rule actions.rg_bind [OF _ s]) (use assms(2) in \<open>simp add: safe_def\<close>)
qed

lemma safe_weaken: "safe t P \<Longrightarrow> (\<And>x. P x \<Longrightarrow> Q x) \<Longrightarrow> safe t Q"
  unfolding safe_def by (intro allI impI, rule actions.emits_weaken [where P = "\<lambda>x _. P x"]) simp_all

lemma safe_any: "safe t P \<Longrightarrow> safe t (\<lambda>_. True)"
  by (rule safe_weaken) simp_all

lemma safe_then: "safe t (\<lambda>_. True) \<Longrightarrow> (\<And>x. safe (f x) Q) \<Longrightarrow> safe (tbind t f) Q"
  by (rule safe_bind)

lemma safe_if: "(b \<Longrightarrow> safe t Q) \<Longrightarrow> (\<not> b \<Longrightarrow> safe u Q) \<Longrightarrow> safe (if b then t else u) Q"
  by simp

lemma safe_option: "(x = None \<Longrightarrow> safe t Q) \<Longrightarrow> (\<And>y. x = Some y \<Longrightarrow> safe (f y) Q) \<Longrightarrow> safe (case x of None \<Rightarrow> t | Some y \<Rightarrow> f y) Q"
  by (cases x) simp_all

lemma safe_for_each: "(\<And>x. x \<in> set xs \<Longrightarrow> safe (f x) (\<lambda>_. True)) \<Longrightarrow> safe (t_for_each f xs) (\<lambda>_. True)"
  by (induction xs) (simp_all add: safe_ret safe_then)

lemma safe_atomic:
  assumes "\<And>s. I s \<Longrightarrow> I (snd (p s)) \<and> (case fst (p s) of Val x \<Rightarrow> Q x | Exc e \<Rightarrow> fails e | _ \<Rightarrow> False)"
  shows "safe (atomic p) Q"
  unfolding safe_def
proof (intro allI impI, rule actions.emits_action)
  fix u assume "I u"
  then show "I (snd (p u)) \<and> True \<and> (\<exists>D'. {#} = {#} + D' \<and>
      (case fst (p u) of Val x \<Rightarrow> {#} = {#} + D' \<and> (\<forall>w. True \<longrightarrow> I w \<longrightarrow> Q x) | Exc e \<Rightarrow> fails e | _ \<Rightarrow> False))"
    using assms [of u] by (auto split: outcome.splits)
qed

lemma safe_catch: "safe t Q \<Longrightarrow> (\<And>e. fails e \<Longrightarrow> safe (h e) Q) \<Longrightarrow> safe (tcatch t h) Q"
  unfolding safe_def by (intro allI impI, rule actions.rg_catch) simp_all

lemmas safe_rules = safe_if safe_option safe_ret TrueI

lemma safe_pool:
  assumes "pool_step\<^sup>*\<^sup>* (ts, s) (us, u)" and "I s" and "\<And>i. i < length ts \<Longrightarrow> safe (ts ! i) (Q i)"
  shows "I u" and "length us = length ts"
    and "i < length ts \<Longrightarrow> us ! i = Halt r \<Longrightarrow> (\<exists>x. r = Val x \<and> Q i x) \<or> (\<exists>e. r = Exc e \<and> fails e)"
proof -
  let ?ks = "replicate (length ts) ()"
  have kinds: "length ?ks = length ts" "actions.compatible ?ks" by (simp_all add: actions.compatible_def)
  have each: "actions.rg (?ks ! i) s (ts ! i) (\<lambda>x _. Q i x)" if "i < length ts" for i
    using assms(2) assms(3) [OF that] by (simp add: safe_def)
  note keeps = actions.pool_keeps [OF assms(1,2) kinds each]
  then show "I u" and len: "length us = length ts" by simp_all
  show "(\<exists>x. r = Val x \<and> Q i x) \<or> (\<exists>e. r = Exc e \<and> fails e)" if "i < length ts" "us ! i = Halt r"
    using actions.pool_result [OF assms(1,2) kinds each _ that(2)] that(1) len by simp
qed

end

end
