(* ===== verification/Raft_Threads.thy ===== *)
theory Raft_Threads
  imports Kv_Server Threads
begin

text \<open>
  The calls that gRPC and the worker pool run on several threads at once, with the methods of
  \<open>RaftNode.java\<close> they reach, as threads: every statement that the shared connection executes, every
  read of a shared field and every update of a map is one atomic action, and other threads can act in
  between. The connection of the SQLite driver executes one statement at a time; the fields are read one
  by one in the order of the code. The write lock of \<open>appendEntries\<close> is left out here, which only allows
  more interleavings, and added in \<open>Locked_Threads\<close>; \<open>proposeEntry\<close>, \<open>updateCommitIndex\<close> and \<open>applyCommittedEntries\<close> take no lock.
\<close>

section \<open>Actions\<close>

type_synonym 'a raft_thread = "(raft_node, jexn, 'a) thread"

definition t_db :: "(db, jexn, 'a) prog \<Rightarrow> 'a raft_thread" where
  "t_db q = atomic (on_db q)"

definition t_read :: "(raft_node \<Rightarrow> 'a) \<Rightarrow> 'a raft_thread" where
  "t_read f = atomic (read_node f)"

definition t_modify :: "(raft_node \<Rightarrow> raft_node) \<Rightarrow> unit raft_thread" where
  "t_modify g = atomic (modify g)"

definition t_deref :: "'a option \<Rightarrow> 'a raft_thread" where
  "t_deref x = (case x of None \<Rightarrow> tthrow NullPointerException | Some y \<Rightarrow> tret y)"

section \<open>The methods\<close>

definition t_applyCommittedEntries :: "faults \<Rightarrow> unit raft_thread" where
  "t_applyCommittedEntries F =
     tbind (t_db (getLastApplied F)) (\<lambda>lastApplied.
     tbind (t_db (getCommitIndex F)) (\<lambda>commitIndex.
     tbind (t_for_each (\<lambda>i.
              tbind (t_db (getLogEntry F i)) (\<lambda>x.
              tbind (t_deref x) (\<lambda>e. t_db (updateKeyValue F (le_key e) (le_value e)))))
            [lastApplied + 1..commitIndex]) (\<lambda>_.
     t_db (setLastApplied F (max lastApplied commitIndex)))))"

text \<open>The pending timer is cancelled, the delay drawn, and the new timer scheduled.\<close>

definition t_resetElectionTimer :: "unit raft_thread" where
  "t_resetElectionTimer =
     tbind (t_modify (\<lambda>n. n\<lparr>electionTimer := None\<rparr>)) (\<lambda>_.
     tbind (atomic (\<lambda>n. (Val (150 + random n (random_calls n)), n\<lparr>random_calls := random_calls n + 1\<rparr>))) (\<lambda>timeout.
     tbind (t_read running) (\<lambda>up.
     if up then t_modify (\<lambda>n. n\<lparr>electionTimer := Some timeout\<rparr>) else tthrow RejectedExecutionException)))"

fun t_append_loop :: "faults \<Rightarrow> int \<Rightarrow> log_entry list \<Rightarrow> unit raft_thread" where
  "t_append_loop F index [] = tret ()"
| "t_append_loop F index (e # es) =
     tbind (t_db (getLastLogIndex F)) (\<lambda>l.
     if index \<le> l then
       tbind (t_db (getLogEntry F index)) (\<lambda>x.
       tbind (t_deref x) (\<lambda>old.
       if le_term old \<noteq> le_term e then
         tbind (t_db (deleteLogEntriesFrom F index)) (\<lambda>_.
         tbind (t_db (appendLogEntry F e)) (\<lambda>_. t_append_loop F (index + 1) es))
       else t_append_loop F (index + 1) es))
     else tbind (t_db (appendLogEntry F e)) (\<lambda>_. t_append_loop F (index + 1) es))"

definition t_prev_differs :: "faults \<Rightarrow> int \<Rightarrow> int \<Rightarrow> bool raft_thread" where
  "t_prev_differs F prevLogIndex prevLogTerm =
     (if prevLogIndex > 0 then
        tbind (t_db (getLogEntry F prevLogIndex)) (\<lambda>x. tbind (t_deref x) (\<lambda>e. tret (le_term e \<noteq> prevLogTerm)))
      else tret False)"

text \<open>The loop over the entries and the commitment, and before them the test of the previous entry.\<close>

definition t_finish_append :: "faults \<Rightarrow> int \<Rightarrow> log_entry list \<Rightarrow> int \<Rightarrow> bool raft_thread" where
  "t_finish_append F prevLogIndex entries leaderCommit =
     tbind (t_append_loop F (prevLogIndex + 1) entries) (\<lambda>_.
     tbind (t_db (getCommitIndex F)) (\<lambda>c.
     tbind (if leaderCommit > c then
              tbind (t_db (getLastLogIndex F)) (\<lambda>l.
              tbind (t_db (setCommitIndex F (min leaderCommit l))) (\<lambda>_. t_applyCommittedEntries F))
            else tret ()) (\<lambda>_.
     tret True)))"

definition t_accept :: "faults \<Rightarrow> int \<Rightarrow> int \<Rightarrow> log_entry list \<Rightarrow> int \<Rightarrow> bool raft_thread" where
  "t_accept F prevLogIndex prevLogTerm entries leaderCommit =
     tbind (t_db (getLastLogIndex F)) (\<lambda>l.
     tbind (if l < prevLogIndex then tret True else t_prev_differs F prevLogIndex prevLogTerm) (\<lambda>mismatch.
     if mismatch then tret False else t_finish_append F prevLogIndex entries leaderCommit))"

text \<open>\<open>RaftState.becomeFollower\<close>, one field after the other.\<close>

definition t_becomeFollower :: "int \<Rightarrow> unit raft_thread" where
  "t_becomeFollower tm =
     tbind (t_modify (\<lambda>n. n\<lparr>state := (state n)\<lparr>currentRole := FOLLOWER\<rparr>\<rparr>)) (\<lambda>_.
     tbind (t_modify (\<lambda>n. n\<lparr>state := (state n)\<lparr>currentTerm := tm\<rparr>\<rparr>)) (\<lambda>_.
     t_modify (\<lambda>n. n\<lparr>state := (state n)\<lparr>rs_votedFor := None\<rparr>\<rparr>)))"

definition t_observe_term :: "int \<Rightarrow> unit raft_thread" where
  "t_observe_term tm =
     tbind (t_read (\<lambda>n. currentTerm (state n))) (\<lambda>current.
     if tm > current then
       tbind (t_modify (\<lambda>n. n\<lparr>state := setCurrentTerm tm (state n)\<rparr>)) (\<lambda>_.
       tbind (t_becomeFollower tm) (\<lambda>_.
       t_modify (\<lambda>n. n\<lparr>votedFor := None\<rparr>)))
     else tret ())"

definition t_appendEntries :: "faults \<Rightarrow> string \<Rightarrow> int \<Rightarrow> int \<Rightarrow> int \<Rightarrow> log_entry list \<Rightarrow> int \<Rightarrow> bool raft_thread" where
  "t_appendEntries F leaderId tm prevLogIndex prevLogTerm entries leaderCommit =
     tbind (t_read (\<lambda>n. currentTerm (state n))) (\<lambda>current.
     if tm < current then tret False else
     tbind (t_observe_term tm) (\<lambda>_.
     tbind t_resetElectionTimer (\<lambda>_.
     t_accept F prevLogIndex prevLogTerm entries leaderCommit)))"

text \<open>The pass over the values of the concurrent map \<open>matchIndex\<close> is one action; each value in it is one that the map has held meanwhile.\<close>

definition t_commit_check :: "faults \<Rightarrow> int \<Rightarrow> unit raft_thread" where
  "t_commit_check F i =
     tbind (t_db (getLogEntry F i)) (\<lambda>x.
     tbind (t_deref x) (\<lambda>e.
     tbind (t_read (\<lambda>n. currentTerm (state n))) (\<lambda>current.
     if le_term e = current then
       tbind (t_read (\<lambda>n. replicationCount n i)) (\<lambda>count.
       tbind (t_read peersSize) (\<lambda>n_peers.
       if quorum count n_peers
       then tbind (t_db (setCommitIndex F i)) (\<lambda>_. t_applyCommittedEntries F)
       else tret ()))
     else tret ())))"

definition t_updateCommitIndex :: "faults \<Rightarrow> unit raft_thread" where
  "t_updateCommitIndex F =
     tbind (t_db (getLastLogIndex F)) (\<lambda>lastLogIndex.
     tbind (t_db (getCommitIndex F)) (\<lambda>commitIndex.
     t_for_each (t_commit_check F) [commitIndex + 1..lastLogIndex]))"

definition t_sendAppendEntries :: "faults \<Rightarrow> string \<Rightarrow> unit raft_thread" where
  "t_sendAppendEntries F follower =
     tbind (t_read (\<lambda>n. getOrDefault (nextIndex n) follower 1)) (\<lambda>nextIdx.
     tbind (t_db (getLastLogIndex F)) (\<lambda>l.
     tbind (t_db (getLogEntries F nextIdx l)) (\<lambda>entries.
     tbind (if nextIdx - 1 > 0
            then tbind (t_db (getLogEntry F (nextIdx - 1))) (\<lambda>x. tbind (t_deref x) (\<lambda>e. tret (le_term e)))
            else tret 0) (\<lambda>prevLogTerm.
     tbind (t_read (\<lambda>n. currentTerm (state n))) (\<lambda>tm.
     tbind (t_db (getCommitIndex F)) (\<lambda>commitIndex.
     tbind (t_appendEntries F follower tm (nextIdx - 1) prevLogTerm entries commitIndex) (\<lambda>success.
     if success then
       tbind (t_db (getLastLogIndex F)) (\<lambda>l1.
       tbind (t_modify (\<lambda>n. n\<lparr>nextIndex := AList.update follower (l1 + 1) (nextIndex n)\<rparr>)) (\<lambda>_.
       tbind (t_db (getLastLogIndex F)) (\<lambda>l2.
       tbind (t_modify (\<lambda>n. n\<lparr>matchIndex := AList.update follower l2 (matchIndex n)\<rparr>)) (\<lambda>_.
       t_updateCommitIndex F))))
     else
       tbind (t_read (\<lambda>n. getOrDefault (nextIndex n) follower 1)) (\<lambda>idx.
       t_modify (\<lambda>n. n\<lparr>nextIndex := AList.update follower (max 1 (idx - 1)) (nextIndex n)\<rparr>)))))))))"

definition t_replicateEntry :: "faults \<Rightarrow> bool raft_thread" where
  "t_replicateEntry F =
     tbind (t_read (\<lambda>n. map fst (peers n))) (\<lambda>ids.
     tbind (t_for_each (t_sendAppendEntries F) ids) (\<lambda>_.
     tbind (t_updateCommitIndex F) (\<lambda>_. tret True)))"

definition t_proposeEntry :: "faults \<Rightarrow> string \<Rightarrow> string \<Rightarrow> bool raft_thread" where
  "t_proposeEntry F key v =
     tbind (t_read (\<lambda>n. currentRole (state n))) (\<lambda>r.
     if r \<noteq> LEADER then tret False else
     tbind (t_read (\<lambda>n. currentTerm (state n))) (\<lambda>tm.
     tbind (t_db (appendLogEntry F (new_entry tm key v))) (\<lambda>_.
     tbind (t_db (getLastLogIndex F)) (\<lambda>_. t_replicateEntry F))))"

section \<open>The calls\<close>

text \<open>A put and a get of the service, and the work of a heartbeat for one follower.\<close>

datatype call = Put string string | Get string | Heartbeat string

datatype reply = Put_Reply put_response | Get_Reply get_response | Sent

definition t_call :: "faults \<Rightarrow> call \<Rightarrow> reply raft_thread" where
  "t_call F c = (case c of
     Put key v \<Rightarrow>
       tbind (t_proposeEntry F key v) (\<lambda>success. tret (Put_Reply \<lparr>pr_success = success, pr_old_value = ''''\<rparr>))
   | Get key \<Rightarrow>
       tbind (t_db (get_kv F key)) (\<lambda>v.
       tret (Get_Reply \<lparr>gr_value = (case v of None \<Rightarrow> '''' | Some x \<Rightarrow> x), gr_found = (v \<noteq> None)\<rparr>))
   | Heartbeat p \<Rightarrow> tbind (t_sendAppendEntries F p) (\<lambda>_. tret Sent))"

text \<open>The same calls as single steps.\<close>

definition call_alone :: "faults \<Rightarrow> call \<Rightarrow> reply raft" where
  "call_alone F c = (case c of
     Put key v \<Rightarrow> bind (service_put F key v) (\<lambda>r. ret (Put_Reply r))
   | Get key \<Rightarrow> bind (service_get F key) (\<lambda>r. ret (Get_Reply r))
   | Heartbeat p \<Rightarrow> bind (sendAppendEntries F p) (\<lambda>_. ret Sent))"

section \<open>Without interference the threads are the methods\<close>

lemma run_actions [simp]:
  "run_alone (t_db q) = on_db q" "run_alone (t_read f) = read_node f" "run_alone (t_modify g) = modify g"
  "run_alone (t_deref x) = deref x"
  by (simp_all add: t_db_def t_read_def t_modify_def t_deref_def deref_def split: option.split)

lemma run_for_each [simp]: "run_alone (t_for_each f xs) = for_each (\<lambda>x. run_alone (f x)) xs"
  by (induction xs) simp_all

lemma run_append_loop [simp]: "run_alone (t_append_loop F i es) = append_loop F i es"
  by (induction es arbitrary: i) (simp_all cong: if_cong)

lemma run_applyCommittedEntries [simp]: "run_alone (t_applyCommittedEntries F) = applyCommittedEntries F"
  by (simp add: t_applyCommittedEntries_def applyCommittedEntries_def applyToStateMachine_def [abs_def])

lemma run_prev_differs [simp]: "run_alone (t_prev_differs F i t) = prev_differs F i t"
  by (simp add: t_prev_differs_def prev_differs_def)

lemma run_atomic_read: "bind (read_node f) g n = g (f n) n" "bind (modify h) k n = k () (h n)" "bind (ret x) l n = l x n"
  by simp_all

lemma run_resetElectionTimer [simp]: "run_alone t_resetElectionTimer = resetElectionTimer"
  by (simp add: t_resetElectionTimer_def resetElectionTimer_def fun_eq_iff bind_def)

lemma run_becomeFollower [simp]: "run_alone (t_becomeFollower tm) = modify (\<lambda>n. n\<lparr>state := becomeFollower tm (state n)\<rparr>)"
  by (simp add: t_becomeFollower_def becomeFollower_def fun_eq_iff)

lemma run_appendEntries [simp]: "run_alone (t_appendEntries F p tm i t es c) = appendEntries F p tm i t es c"
proof
  fix n
  show "run_alone (t_appendEntries F p tm i t es c) n = appendEntries F p tm i t es c n"
    unfolding t_appendEntries_def t_observe_term_def t_accept_def t_finish_append_def appendEntries_def
    by (simp add: run_atomic_read cong: if_cong)
qed

lemma run_commit_check [simp]: "run_alone (t_commit_check F i) = commit_check F i"
proof -
  have "run_alone (t_commit_check F i) = bind (on_db (getLogEntry F i)) (\<lambda>x. bind (deref x) (\<lambda>e n.
      if le_term e = currentTerm (state n) \<and> quorum (replicationCount n i) (peersSize n)
      then bind (on_db (setCommitIndex F i)) (\<lambda>_. applyCommittedEntries F) n else (Val (), n)))"
    unfolding t_commit_check_def run_tbind run_actions
    by (intro arg_cong2 [where f = bind] ext refl) (simp add: run_atomic_read)
  also have "\<dots> = commit_check F i"
    unfolding commit_check_def by (intro arg_cong2 [where f = bind] ext refl) (simp add: run_atomic_read)
  finally show ?thesis .
qed

lemma run_updateCommitIndex [simp]: "run_alone (t_updateCommitIndex F) = updateCommitIndex F"
  by (simp add: t_updateCommitIndex_def updateCommitIndex_def)

lemma run_sendAppendEntries [simp]: "run_alone (t_sendAppendEntries F p) = sendAppendEntries F p"
proof -
  have last: "bind (read_node f) (\<lambda>idx. modify (g idx)) = modify (\<lambda>n. g (f n) n)" for f :: "raft_node \<Rightarrow> int" and g
    by (simp add: fun_eq_iff)
  show ?thesis
    by (simp add: t_sendAppendEntries_def sendAppendEntries_def last cong: if_cong)
qed

lemma run_proposeEntry [simp]: "run_alone (t_proposeEntry F k v) = proposeEntry F k v"
  by (simp add: fun_eq_iff t_proposeEntry_def proposeEntry_def t_replicateEntry_def replicateEntry_def run_atomic_read)

lemma run_call [simp]: "run_alone (t_call F c) = call_alone F c"
  by (cases c) (simp_all add: t_call_def call_alone_def service_put_def service_get_def bind_assoc fun_eq_iff bind_def split: prod.split outcome.split)

end
