(* ===== verification/Call_Pool.thy ===== *)
theory Call_Pool
  imports Raft_Threads
begin

text \<open>
  What puts, gets and heartbeats keep together while their statements interleave: the invariant of the node,
  what every call can rely on, and the rules for the methods they run. The rules leave open whether an election
  runs beside the calls.
\<close>

section \<open>What the calls keep together\<close>

text \<open>
  The invariant of a node whose calls interleave: the database answers, both indices stay within the
  log, \<open>nextIndex\<close> stays within one of it, every pair of the key-value table was proposed, and the table has the
  keys of all entries that count as applied. Unlike in \<open>node_inv\<close> the indices need not be in order, and the values
  need not be the latest.
\<close>

definition pool_inv :: "faults \<Rightarrow> raft_node \<Rightarrow> bool" where
  "pool_inv F n \<longleftrightarrow> usable_log F (storage n) \<and> state_rows (storage n) \<noteq> [] \<and> running n \<and>
     0 \<le> node_applied n \<and> node_applied n \<le> int (length (node_log n)) \<and>
     0 \<le> node_commit n \<and> node_commit n \<le> int (length (node_log n)) \<and>
     (\<forall>p i. map_of (nextIndex n) p = Some i \<longrightarrow> 1 \<le> i \<and> i \<le> int (length (node_log n)) + 1) \<and>
     (\<forall>k v. kv_store (storage n) k = Some v \<longrightarrow> (\<exists>e\<in>set (node_log n). le_key e = k \<and> le_value e = v)) \<and>
     (\<forall>i<nat (node_applied n). kv_store (storage n) (le_key (node_log n ! i)) \<noteq> None)"

text \<open>The same for a node that leads in no term but \<open>T\<close>.\<close>

definition pool_at :: "faults \<Rightarrow> int \<Rightarrow> raft_node \<Rightarrow> bool" where
  "pool_at F T n \<longleftrightarrow> pool_inv F n \<and> (currentRole (state n) = LEADER \<longrightarrow> currentTerm (state n) = T)"

text \<open>
  How the node changes: the log grows and no key leaves the table. Role and term stay if \<open>fixed\<close>, and in any case
  once the node leads.
\<close>

definition extends :: "bool \<Rightarrow> raft_node \<Rightarrow> raft_node \<Rightarrow> bool" where
  "extends fixed n m \<longleftrightarrow> (\<exists>es. node_log m = node_log n @ es) \<and> peers m = peers n \<and>
     dom (kv_store (storage n)) \<subseteq> dom (kv_store (storage m)) \<and>
     (fixed \<or> currentRole (state n) = LEADER \<longrightarrow> state m = state n)"

lemma extends_fixed: "extends True n m \<Longrightarrow> extends st n m"
  by (auto simp: extends_def)

lemma extends_refl [simp]: "extends st n n"
  by (simp add: extends_def)

lemma extends_trans: "extends st n m \<Longrightarrow> extends st m k \<Longrightarrow> extends st n k"
  unfolding extends_def by auto

text \<open>
  Two kinds of threads: calls (\<open>False\<close>), which leave role and term alone, and the one that runs the elections
  (\<open>True\<close>). With \<open>st\<close> there are no elections.
\<close>

interpretation pool: rely_guarantee "pool_at F T" "\<lambda>e. extends (st \<or> e)" "\<lambda>e. extends (st \<or> \<not> e)" "extends st"
  "\<lambda>n. mset (node_log n)" "\<lambda>_ :: jexn. False"
  for F T st
proof
  show "extends (st \<or> e) n m \<Longrightarrow> extends st n m" "extends (st \<or> \<not> e) n m \<Longrightarrow> extends st n m" for e n m
    using extends_fixed by (cases st; cases e; simp)+
qed (auto intro: extends_trans)

text \<open>Whether role and term stay.\<close>

definition steady :: "bool \<Rightarrow> raft_node \<Rightarrow> bool" where
  "steady st n \<longleftrightarrow> st \<or> currentRole (state n) = LEADER"

lemma extends_state: "extends st n m \<Longrightarrow> steady st n \<Longrightarrow> state m = state n" "extends st n m \<Longrightarrow> peers m = peers n"
  by (auto simp: extends_def steady_def)

lemma steady_later: "steady st n \<Longrightarrow> extends st n m \<Longrightarrow> steady st m"
  using extends_state(1) [of st n m] by (auto simp: steady_def)

lemma extends_keys: "extends st n m \<Longrightarrow> kv_store (storage n) k \<noteq> None \<Longrightarrow> kv_store (storage m) k \<noteq> None"
  by (auto simp: extends_def)

lemma extends_entry:
  assumes "extends st n m" and "1 \<le> i" and "i \<le> int (length (node_log n))"
  shows "i \<le> int (length (node_log m)) \<and> node_log m ! nat (i - 1) = node_log n ! nat (i - 1)"
  using assms by (auto simp: extends_def nth_append nat_less_iff)

lemma extends_length: "extends st n m \<Longrightarrow> length (node_log n) \<le> length (node_log m)"
  by (auto simp: extends_def)

lemma pool_usable: "pool_at F T n \<Longrightarrow> usable F n"
  by (simp add: pool_at_def pool_inv_def)

subsection \<open>Single actions\<close>

lemma pool_db_read:
  assumes "\<And>u. extends st n u \<Longrightarrow> pool_at F T u \<Longrightarrow> on_db q u = (Val (f u), u)"
    and "\<And>u w. extends st n u \<Longrightarrow> pool_at F T u \<Longrightarrow> extends st u w \<Longrightarrow> pool_at F T w \<Longrightarrow> Q (f u) w"
  shows "pool.rg F T st False n (t_db q) Q"
  unfolding t_db_def by (rule pool.rg_atomic) (use assms in auto)

lemma pool_read:
  assumes "\<And>u w. extends st n u \<Longrightarrow> pool_at F T u \<Longrightarrow> extends st u w \<Longrightarrow> pool_at F T w \<Longrightarrow> Q (f u) w"
  shows "pool.rg F T st False n (t_read f) Q"
  unfolding t_read_def by (rule pool.rg_atomic) (use assms in auto)

text \<open>A change that leaves the log alone, along what a call guarantees.\<close>

definition quiet :: "raft_node \<Rightarrow> raft_node \<Rightarrow> bool" where
  "quiet n m \<longleftrightarrow> node_log m = node_log n \<and> peers m = peers n \<and> state m = state n \<and>
     dom (kv_store (storage n)) \<subseteq> dom (kv_store (storage m))"

lemma quiet_extends: "quiet n m \<Longrightarrow> extends st n m"
  by (simp add: quiet_def extends_def)

lemma pool_modify:
  assumes "\<And>u. extends st n u \<Longrightarrow> pool_at F T u \<Longrightarrow> pool_at F T (g u) \<and> quiet u (g u)"
  shows "pool.rg F T st False n (t_modify g) (\<lambda>_ _. True)"
  unfolding t_modify_def by (rule pool.rg_atomic) (use assms in \<open>auto intro: quiet_extends simp: quiet_def\<close>)

lemma pool_db_write:
  assumes "\<And>u. extends st n u \<Longrightarrow> pool_at F T u \<Longrightarrow> on_db q u = (Val (), g u) \<and> pool_at F T (g u) \<and> quiet u (g u)"
    and "\<And>u w. extends st n u \<Longrightarrow> pool_at F T u \<Longrightarrow> extends st (g u) w \<Longrightarrow> Q w"
  shows "pool.rg F T st False n (t_db q) (\<lambda>_. Q)"
  unfolding t_db_def
proof (rule pool.rg_atomic)
  fix u assume "extends (st \<or> False) n u" "pool_at F T u"
  then have u: "extends st n u" "pool_at F T u" by simp_all
  then show "\<exists>x v. on_db q u = (Val x, v) \<and> pool_at F T v \<and> extends (st \<or> \<not> False) u v \<and> mset (node_log v) = mset (node_log u) \<and>
      (\<forall>w. extends (st \<or> False) v w \<longrightarrow> pool_at F T w \<longrightarrow> Q w)"
    using assms(1) [OF u] assms(2) [OF u] quiet_extends by (auto simp: quiet_def)
qed

lemma pool_ret: "(\<And>u. extends st n u \<Longrightarrow> pool_at F T u \<Longrightarrow> Q x u) \<Longrightarrow> D = E x \<Longrightarrow> pool.emits F T st False n (tret x) D E Q"
  using pool.emits_Halt [of st False n F T Q x E] by simp

lemma pool_last: "pool.rg F T st False n (t_db (getLastLogIndex F)) (\<lambda>l u. 0 \<le> l \<and> int (length (node_log n)) \<le> l \<and> l \<le> int (length (node_log u)))"
  by (rule pool_db_read) (auto simp: node_store.last_index pool_usable dest: extends_length)

text \<open>The table has the keys of the first \<open>a\<close> entries.\<close>

definition keys_upto :: "int \<Rightarrow> raft_node \<Rightarrow> bool" where
  "keys_upto a n \<longleftrightarrow> (\<forall>i<nat a. i < length (node_log n) \<longrightarrow> kv_store (storage n) (le_key (node_log n ! i)) \<noteq> None)"

lemma keys_later:
  assumes "keys_upto a n" and "a \<le> int (length (node_log n))" and "extends st n m"
  shows "keys_upto a m"
proof -
  have "node_log m ! i = node_log n ! i" if "i < nat a" for i
    using assms(2,3) that by (auto simp: extends_def nth_append)
  then show ?thesis using assms extends_keys [OF assms(3)] by (auto simp: keys_upto_def nat_less_iff)
qed

lemma pool_keys: "pool_at F T n \<Longrightarrow> keys_upto (node_applied n) n"
  by (auto simp: keys_upto_def pool_at_def pool_inv_def)

lemma pool_indices:
  "pool.rg F T st False n (t_db (getCommitIndex F)) (\<lambda>c u. 0 \<le> c \<and> c \<le> int (length (node_log u)))"
  "pool.rg F T st False n (t_db (getLastApplied F)) (\<lambda>a u. 0 \<le> a \<and> a \<le> int (length (node_log u)) \<and> keys_upto a u)"
proof -
  show "pool.rg F T st False n (t_db (getCommitIndex F)) (\<lambda>c u. 0 \<le> c \<and> c \<le> int (length (node_log u)))"
    by (rule pool_db_read, simp add: node_index_ops pool_usable, fastforce simp: pool_at_def pool_inv_def dest: extends_length)
  show "pool.rg F T st False n (t_db (getLastApplied F)) (\<lambda>a u. 0 \<le> a \<and> a \<le> int (length (node_log u)) \<and> keys_upto a u)"
  proof (rule pool_db_read)
    fix u w assume u: "pool_at F T u" "extends st u w"
    have "0 \<le> node_applied u" "node_applied u \<le> int (length (node_log u))" using u(1) by (simp_all add: pool_at_def pool_inv_def)
    then show "0 \<le> node_applied u \<and> node_applied u \<le> int (length (node_log w)) \<and> keys_upto (node_applied u) w"
      using extends_length [OF u(2)] keys_later [OF pool_keys [OF u(1)] _ u(2)] by simp
  qed (simp add: node_index_ops pool_usable)
qed

lemma pool_entry:
  assumes "1 \<le> i" and "i \<le> int (length (node_log n))"
  shows "pool.rg F T st False n (t_db (getLogEntry F i)) (\<lambda>x u. x = Some (node_log n ! nat (i - 1)))"
proof (rule pool_db_read)
  fix u assume "extends st n u" "pool_at F T u"
  then show "on_db (getLogEntry F i) u = (Val (Some (node_log n ! nat (i - 1))), u)"
    using extends_entry [of st n u i] assms by (simp add: node_store.get_entry pool_usable)
qed simp

lemma pool_range:
  assumes "1 \<le> i" and "j \<le> int (length (node_log n))"
  shows "pool.rg F T st False n (t_db (getLogEntries F i j)) (\<lambda>es u. es = drop (nat (i - 1)) (take (nat j) (node_log n)))"
proof (rule pool_db_read)
  fix u assume u: "extends st n u" "pool_at F T u"
  have "take (nat j) (node_log u) = take (nat j) (node_log n)" using u(1) assms(2) by (auto simp: extends_def)
  moreover have "accepts F" "conn_open (storage u)" "indexed (logs (storage u))"
    using u(2) by (simp_all add: pool_at_def pool_inv_def usable_log_def)
  ultimately show "on_db (getLogEntries F i j) u = (Val (drop (nat (i - 1)) (take (nat j) (node_log n))), u)"
    using assms(1) by (simp add: getLogEntries_def storage_defs stmt_ok filter_indexed_range log_entries_def flip: drop_map take_map)
qed simp

text \<open>Growing the log keeps the invariant.\<close>

lemma pool_at_grows:
  assumes "pool_at F T u" and "usable F m" and "node_log m = node_log u @ [e]" and "rest_node m = rest_node u"
  shows "pool_at F T m"
proof -
  note same = rest_node_eq [OF assms(4)]
  note db = rest_db_eq [of "storage m" "storage u"]
  have "\<forall>i<nat (node_applied m). kv_store (storage m) (le_key (node_log m ! i)) \<noteq> None"
    using assms(1,3) same db by (auto simp: pool_at_def pool_inv_def nth_append)
  moreover have "\<forall>k v. kv_store (storage m) k = Some v \<longrightarrow> (\<exists>e\<in>set (node_log m). le_key e = k \<and> le_value e = v)"
    using assms(1,3) same db unfolding pool_at_def pool_inv_def by (metis Un_iff set_append)
  ultimately show ?thesis
    using assms(1-3) same db unfolding pool_at_def pool_inv_def by (auto; fastforce)
qed

lemma pool_append: "pool.emits F T st False n (t_db (appendLogEntry F e)) {#} (\<lambda>_. {#stored e#}) (\<lambda>_ u. stored e \<in> set (node_log u))"
proof -
  have "pool.emits F T st False n (atomic (on_db (appendLogEntry F e))) {#} (\<lambda>_. {#} + {#stored e#}) (\<lambda>_ u. stored e \<in> set (node_log u))"
  proof (rule pool.emits_atomic)
    fix u assume u: "pool_at F T u"
    obtain m where m: "on_db (appendLogEntry F e) u = (Val (int (length (node_log u)) + 1), m)" "usable F m"
      "node_log m = node_log u @ [stored e]" "rest_node m = rest_node u"
      using node_store.append_entry [OF pool_usable [OF u], of e] by blast
    have "extends (st \<or> \<not> False) u m" using m(3) rest_node_eq [OF m(4)] rest_db_eq [of "storage m" "storage u"] by (simp add: extends_def)
    moreover have "stored e \<in> set (node_log w)" if "extends (st \<or> False) m w" for w
      using that m(3) by (auto simp: extends_def)
    ultimately show "\<exists>x v. on_db (appendLogEntry F e) u = (Val x, v) \<and> pool_at F T v \<and> extends (st \<or> \<not> False) u v \<and>
        mset (node_log v) = mset (node_log u) + {#stored e#} \<and>
        (\<forall>w. extends (st \<or> False) v w \<longrightarrow> pool_at F T w \<longrightarrow> stored e \<in> set (node_log w))"
      using m(1,3) pool_at_grows [OF u m(2-4)] by (intro exI [of _ "int (length (node_log u)) + 1"] exI [of _ m]) simp
  qed
  then show ?thesis by (simp add: t_db_def)
qed

lemma pool_set_commit:
  assumes "0 \<le> i" and "i \<le> int (length (node_log n))"
  shows "pool.rg F T st False n (t_db (setCommitIndex F i)) (\<lambda>_ _. True)"
proof (rule pool_db_write [where g = "\<lambda>u. u\<lparr>storage := with_commit i (storage u)\<rparr>"])
  fix u assume u: "extends st n u" "pool_at F T u"
  have "i \<le> int (length (node_log u))" using extends_length [OF u(1)] assms(2) by simp
  then show "on_db (setCommitIndex F i) u = (Val (), u\<lparr>storage := with_commit i (storage u)\<rparr>) \<and>
      pool_at F T (u\<lparr>storage := with_commit i (storage u)\<rparr>) \<and> quiet u (u\<lparr>storage := with_commit i (storage u)\<rparr>)"
    using u(2) assms(1) by (simp add: node_index_ops pool_usable) (simp add: pool_at_def pool_inv_def quiet_def)
qed simp

lemma pool_set_applied:
  assumes "0 \<le> i" and "i \<le> int (length (node_log n))" and "keys_upto i n"
  shows "pool.rg F T st False n (t_db (setLastApplied F i)) (\<lambda>_ _. True)"
proof (rule pool_db_write [where g = "\<lambda>u. u\<lparr>storage := with_applied i (storage u)\<rparr>"])
  fix u assume u: "extends st n u" "pool_at F T u"
  have i: "i \<le> int (length (node_log u))" using extends_length [OF u(1)] assms(2) by simp
  have "\<forall>j<nat i. kv_store (storage u) (le_key (node_log u ! j)) \<noteq> None"
    using keys_later [OF assms(3,2) u(1)] i by (auto simp: keys_upto_def)
  with i show "on_db (setLastApplied F i) u = (Val (), u\<lparr>storage := with_applied i (storage u)\<rparr>) \<and>
      pool_at F T (u\<lparr>storage := with_applied i (storage u)\<rparr>) \<and> quiet u (u\<lparr>storage := with_applied i (storage u)\<rparr>)"
    using u(2) assms(1) by (simp add: node_index_ops pool_usable) (simp add: pool_at_def pool_inv_def quiet_def)
qed simp

lemma pool_upsert:
  assumes "e \<in> set (node_log n)"
  shows "pool.rg F T st False n (t_db (updateKeyValue F (le_key e) (le_value e))) (\<lambda>_ u. kv_store (storage u) (le_key e) \<noteq> None)"
proof (rule pool_db_write [where g = "\<lambda>u. u\<lparr>storage := (storage u)\<lparr>kv_store := (kv_store (storage u))(le_key e \<mapsto> le_value e)\<rparr>\<rparr>"])
  fix u assume u: "extends st n u" "pool_at F T u"
  have "e \<in> set (node_log u)" using assms u(1) by (auto simp: extends_def)
  then show "on_db (updateKeyValue F (le_key e) (le_value e)) u =
        (Val (), u\<lparr>storage := (storage u)\<lparr>kv_store := (kv_store (storage u))(le_key e \<mapsto> le_value e)\<rparr>\<rparr>) \<and>
      pool_at F T (u\<lparr>storage := (storage u)\<lparr>kv_store := (kv_store (storage u))(le_key e \<mapsto> le_value e)\<rparr>\<rparr>) \<and>
      quiet u (u\<lparr>storage := (storage u)\<lparr>kv_store := (kv_store (storage u))(le_key e \<mapsto> le_value e)\<rparr>\<rparr>)"
    using u(2) by (simp add: node_index_ops pool_usable) (auto simp: pool_at_def pool_inv_def quiet_def)
qed (auto dest: extends_keys)

subsection \<open>Methods\<close>

lemma pool_for_each_all:
  assumes "pool_at F T n" and "\<And>x u. x \<in> set xs \<Longrightarrow> extends st n u \<Longrightarrow> pool_at F T u \<Longrightarrow> pool.rg F T st False u (f x) (\<lambda>_. P x)"
    and later: "\<And>x u w. P x u \<Longrightarrow> extends st u w \<Longrightarrow> P x w"
  shows "pool.rg F T st False n (t_for_each f xs) (\<lambda>_ u. \<forall>x\<in>set xs. P x u)"
  using assms(1,2)
proof (induction xs arbitrary: n)
  case (Cons x xs)
  show ?case
    unfolding t_for_each.simps
  proof (rule pool.rg_bind)
    show "pool.rg F T st False n (f x) (\<lambda>_. P x)" using Cons.prems by simp
    fix u assume u: "extends st n u" "pool_at F T u" "P x u"
    have "pool.rg F T st False u (t_for_each f xs) (\<lambda>_ u. \<forall>x\<in>set xs. P x u)"
      by (rule Cons.IH) (use Cons.prems(2) extends_trans [OF u(1)] u(2) in auto)
    then show "pool.rg F T st False u (t_for_each f xs) (\<lambda>_ u. \<forall>x\<in>set (x # xs). P x u)"
      by (rule pool.emits_weaken) (use later [OF u(3)] in simp)
  qed (rule Cons.prems)
qed (simp add: pool_ret)

lemma pool_for_each:
  assumes "\<And>x u. x \<in> set xs \<Longrightarrow> extends st n u \<Longrightarrow> pool_at F T u \<Longrightarrow> pool.rg F T st False u (f x) (\<lambda>_ _. True)" and "pool_at F T n"
  shows "pool.rg F T st False n (t_for_each f xs) (\<lambda>_ _. True)"
  using pool_for_each_all [OF assms(2), where P = "\<lambda>_ _. True", OF assms(1)] by simp

text \<open>Entry \<open>i\<close> exists and its key is in the table.\<close>

definition key_shown :: "int \<Rightarrow> raft_node \<Rightarrow> bool" where
  "key_shown i n \<longleftrightarrow> 1 \<le> i \<and> i \<le> int (length (node_log n)) \<and> kv_store (storage n) (le_key (node_log n ! nat (i - 1))) \<noteq> None"

lemma key_shown_later: "key_shown i n \<Longrightarrow> extends st n m \<Longrightarrow> key_shown i m"
  unfolding key_shown_def by (metis extends_entry extends_keys)

lemma keys_shown:
  assumes "keys_upto a n" and "\<forall>i\<in>set [a + 1..c]. key_shown i n" and "0 \<le> a"
  shows "keys_upto (max a c) n"
  unfolding keys_upto_def
proof (intro allI impI)
  fix i assume i: "i < nat (max a c)" "i < length (node_log n)"
  show "kv_store (storage n) (le_key (node_log n ! i)) \<noteq> None"
  proof (cases "i < nat a")
    case True
    then show ?thesis using assms(1) i(2) by (simp add: keys_upto_def)
  next
    case False
    then have "int i + 1 \<in> set [a + 1..c]" using i(1) assms(3) by auto
    then have "key_shown (int i + 1) n" using assms(2) by blast
    then show ?thesis by (simp add: key_shown_def)
  qed
qed

lemma pool_apply_entry:
  assumes "1 \<le> i" and "i \<le> int (length (node_log n))" and "pool_at F T n"
  shows "pool.rg F T st False n (tbind (t_db (getLogEntry F i)) (\<lambda>x. tbind (t_deref x) (\<lambda>e. t_db (updateKeyValue F (le_key e) (le_value e)))))
    (\<lambda>_. key_shown i)"
proof (rule pool.rg_bind [OF pool_entry [OF assms(1,2)] assms(3)])
  let ?e = "node_log n ! nat (i - 1)"
  fix x w assume w: "extends st n w" "pool_at F T w" "x = Some ?e"
  have here: "i \<le> int (length (node_log w))" "node_log w ! nat (i - 1) = ?e" using extends_entry [OF w(1) assms(1,2)] by simp_all
  have "?e \<in> set (node_log w)" using here assms(1) nth_mem [of "nat (i - 1)" "node_log w"] by (simp add: nat_less_iff)
  then have "pool.rg F T st False w (t_db (updateKeyValue F (le_key ?e) (le_value ?e))) (\<lambda>_ u. kv_store (storage u) (le_key ?e) \<noteq> None)"
    by (rule pool_upsert)
  then have "pool.rg F T st False w (t_db (updateKeyValue F (le_key ?e) (le_value ?e))) (\<lambda>_. key_shown i)"
    by (rule pool.emits_weaken) (use extends_entry [OF _ assms(1) here(1)] here(2) assms(1) in \<open>auto simp: key_shown_def\<close>)
  then show "pool.rg F T st False w (tbind (t_deref x) (\<lambda>e. t_db (updateKeyValue F (le_key e) (le_value e)))) (\<lambda>_. key_shown i)"
    using w(3) by (simp add: t_deref_def)
qed

lemma pool_applyCommittedEntries:
  assumes "pool_at F T n"
  shows "pool.rg F T st False n (t_applyCommittedEntries F) (\<lambda>_ _. True)"
  unfolding t_applyCommittedEntries_def
proof (rule pool.rg_bind [OF pool_indices(2) assms], rule pool.rg_bind [OF pool_indices(1)], assumption, rule pool.rg_bind)
  fix a n1 c n2
  assume a: "0 \<le> a \<and> a \<le> int (length (node_log n1)) \<and> keys_upto a n1" and n2: "extends st n1 n2" "pool_at F T n2"
    and c: "0 \<le> c \<and> c \<le> int (length (node_log n2))"
  show "pool.rg F T st False n2 (t_for_each (\<lambda>i. tbind (t_db (getLogEntry F i)) (\<lambda>x.
      tbind (t_deref x) (\<lambda>e. t_db (updateKeyValue F (le_key e) (le_value e))))) [a + 1..c]) (\<lambda>_ u. \<forall>i\<in>set [a + 1..c]. key_shown i u)"
  proof (rule pool_for_each_all [OF n2(2)])
    fix i u assume i: "i \<in> set [a + 1..c]" and u: "extends st n2 u" "pool_at F T u"
    show "pool.rg F T st False u (tbind (t_db (getLogEntry F i)) (\<lambda>x. tbind (t_deref x) (\<lambda>e. t_db (updateKeyValue F (le_key e) (le_value e)))))
        (\<lambda>_. key_shown i)"
      by (rule pool_apply_entry [OF _ _ u(2)]) (use i a c extends_length [OF u(1)] in auto)
  qed (rule key_shown_later)
  fix n3 assume n3: "extends st n2 n3" and shown: "\<forall>i\<in>set [a + 1..c]. key_shown i n3"
  have a3: "a \<le> int (length (node_log n3))" "keys_upto a n3"
    using a extends_length [OF n2(1)] extends_length [OF n3] keys_later [of a n1 st n3] extends_trans [OF n2(1) n3] by auto
  show "pool.rg F T st False n3 (t_db (setLastApplied F (max a c))) (\<lambda>_ _. True)"
    by (rule pool_set_applied) (use a a3 c keys_shown [OF a3(2) shown] extends_length [OF n3] in auto)
qed (assumption)

lemma pool_commit:
  assumes "pool_at F T n" and "0 \<le> i" and "i \<le> int (length (node_log n))"
  shows "pool.rg F T st False n (tbind (t_db (setCommitIndex F i)) (\<lambda>_. t_applyCommittedEntries F)) (\<lambda>_ _. True)"
  by (rule pool.rg_bind [OF pool_set_commit assms(1)]) (use assms pool_applyCommittedEntries in auto)

lemma pool_commit_check:
  assumes "pool_at F T n" and "1 \<le> i" and "i \<le> int (length (node_log n))"
  shows "pool.rg F T st False n (t_commit_check F i) (\<lambda>_ _. True)"
  unfolding t_commit_check_def
proof (rule pool.rg_bind [OF pool_entry [OF assms(2,3)] assms(1)])
  fix x u assume u: "extends st n u" "pool_at F T u" and x: "x = Some (node_log n ! nat (i - 1))"
  have le: "0 \<le> i" "i \<le> int (length (node_log w))" if "extends st u w" for w
    using extends_length [OF u(1)] extends_length [OF that] assms(2,3) by simp_all
  have decide: "pool.rg F T st False w (tbind (t_read (\<lambda>n. replicationCount n i)) (\<lambda>count. tbind (t_read peersSize) (\<lambda>n_peers.
       if quorum count n_peers then tbind (t_db (setCommitIndex F i)) (\<lambda>_. t_applyCommittedEntries F) else tret ()))) (\<lambda>_ _. True)"
    if w: "extends st u w" "pool_at F T w" for w
  proof (rule pool.rg_bind [where P = "\<lambda>_ _. True", OF pool_read w(2)], simp,
      rule pool.rg_bind [where P = "\<lambda>_ _. True", OF pool_read], simp, assumption)
    fix count n_peers v v' assume v: "extends st w v" "extends st v v'" "pool_at F T v'"
    have "extends st u v'" using w(1) v(1,2) extends_trans by blast
    then show "pool.rg F T st False v' (if quorum count n_peers then tbind (t_db (setCommitIndex F i)) (\<lambda>_. t_applyCommittedEntries F) else tret ()) (\<lambda>_ _. True)"
      using pool_commit [OF v(3)] le by (simp add: pool_ret)
  qed
  show "pool.rg F T st False u (tbind (t_deref x) (\<lambda>e. tbind (t_read (\<lambda>n. currentTerm (state n))) (\<lambda>current.
     if le_term e = current then
       tbind (t_read (\<lambda>n. replicationCount n i)) (\<lambda>count. tbind (t_read peersSize) (\<lambda>n_peers.
       if quorum count n_peers then tbind (t_db (setCommitIndex F i)) (\<lambda>_. t_applyCommittedEntries F) else tret ()))
     else tret ()))) (\<lambda>_ _. True)"
    unfolding x t_deref_def option.case tbind.simps outcome.case
    by (rule pool.rg_bind [where P = "\<lambda>_ _. True", OF pool_read u(2)]) (auto intro: decide simp: pool_ret)
qed

lemma pool_updateCommitIndex:
  assumes "pool_at F T n"
  shows "pool.rg F T st False n (t_updateCommitIndex F) (\<lambda>_ _. True)"
  unfolding t_updateCommitIndex_def
proof (rule pool.rg_bind [OF pool_last assms], rule pool.rg_bind [OF pool_indices(1)], assumption)
  fix l n1 c n2
  assume l: "0 \<le> l \<and> int (length (node_log n)) \<le> l \<and> l \<le> int (length (node_log n1))"
    and n2: "extends st n1 n2" "pool_at F T n2" and c: "0 \<le> c \<and> c \<le> int (length (node_log n2))"
  show "pool.rg F T st False n2 (t_for_each (t_commit_check F) [c + 1..l]) (\<lambda>_ _. True)"
  proof (rule pool_for_each [OF _ n2(2)])
    fix i u assume i: "i \<in> set [c + 1..l]" and u: "extends st n2 u" "pool_at F T u"
    show "pool.rg F T st False u (t_commit_check F i) (\<lambda>_ _. True)"
      by (rule pool_commit_check [OF u(2)]) (use i l c extends_length [OF n2(1)] extends_length [OF u(1)] in auto)
  qed
qed

lemma pool_resetElectionTimer:
  assumes "pool_at F T n"
  shows "pool.rg F T st False n t_resetElectionTimer (\<lambda>_ _. True)"
proof -
  have draw: "pool.rg F T st False u (atomic (\<lambda>n. (Val (150 + random n (random_calls n)), n\<lparr>random_calls := random_calls n + 1\<rparr>))) (\<lambda>_ _. True)" for u
    by (rule pool.rg_atomic) (auto simp: pool_at_def pool_inv_def extends_def)
  have arm: "pool.rg F T st False u (t_modify (\<lambda>n. n\<lparr>electionTimer := t\<rparr>)) (\<lambda>_ _. True)" for u t
    by (rule pool_modify) (simp add: pool_at_def pool_inv_def quiet_def)
  have up: "pool.rg F T st False u (t_read running) (\<lambda>b _. b)" for u
    by (rule pool_read) (simp add: pool_at_def pool_inv_def)
  show ?thesis
    unfolding t_resetElectionTimer_def
    by (rule pool.rg_bind [OF arm assms], rule pool.rg_bind [OF draw], assumption, rule pool.rg_bind [OF up], assumption)
      (simp add: arm)
qed

text \<open>Entries that were read from the log are found in it again, and nothing is written.\<close>

definition in_log :: "int \<Rightarrow> log_entry list \<Rightarrow> raft_node \<Rightarrow> bool" where
  "in_log i es n \<longleftrightarrow> (\<forall>j<length es. i + int j \<le> int (length (node_log n)) \<and> le_term (node_log n ! nat (i + int j - 1)) = le_term (es ! j))"

lemma in_log_later:
  assumes "in_log i es n" and "extends st n m" and "1 \<le> i"
  shows "in_log i es m"
  unfolding in_log_def
proof (intro allI impI)
  fix j assume "j < length es"
  then have "i + int j \<le> int (length (node_log n)) \<and> le_term (node_log n ! nat (i + int j - 1)) = le_term (es ! j)"
    using assms(1) by (simp add: in_log_def)
  then show "i + int j \<le> int (length (node_log m)) \<and> le_term (node_log m ! nat (i + int j - 1)) = le_term (es ! j)"
    using extends_entry [OF assms(2), of "i + int j"] assms(3) by simp
qed

lemma in_log_Cons:
  assumes "in_log i (e # es) n"
  shows "i \<le> int (length (node_log n))" "le_term (node_log n ! nat (i - 1)) = le_term e" "in_log (i + 1) es n"
proof -
  note at = assms [unfolded in_log_def, rule_format]
  show "i \<le> int (length (node_log n))" "le_term (node_log n ! nat (i - 1)) = le_term e" using at [of 0] by simp_all
  show "in_log (i + 1) es n" unfolding in_log_def using at [of "Suc j" for j] by (simp add: algebra_simps)
qed

lemma in_log_range:
  assumes "1 \<le> i" and "j \<le> int (length (node_log n))"
  shows "in_log i (drop (nat (i - 1)) (take (nat j) (node_log n))) n"
  using assms by (auto simp: in_log_def nat_add_distrib nth_append intro!: arg_cong [where f = "\<lambda>k. le_term (node_log n ! k)"])

lemma pool_append_loop:
  "pool_at F T n \<Longrightarrow> 1 \<le> i \<Longrightarrow> in_log i es n \<Longrightarrow> pool.rg F T st False n (t_append_loop F i es) (\<lambda>_ _. True)"
proof (induction es arbitrary: i n)
  case (Cons e es)
  note here = in_log_Cons [OF Cons.prems(3)]
  show ?case
    unfolding t_append_loop.simps
  proof (rule pool.rg_bind [OF pool_last Cons.prems(1)])
    fix l n1 assume n1: "extends st n n1" "pool_at F T n1"
      and l: "0 \<le> l \<and> int (length (node_log n)) \<le> l \<and> l \<le> int (length (node_log n1))"
    have i: "i \<le> l" "i \<le> int (length (node_log n1))" using here(1) l by simp_all
    note there = in_log_Cons [OF in_log_later [OF Cons.prems(3) n1(1) Cons.prems(2)]]
    have "pool.rg F T st False n1 (tbind (t_db (getLogEntry F i)) (\<lambda>x. tbind (t_deref x) (\<lambda>old.
       if le_term old \<noteq> le_term e then
         tbind (t_db (deleteLogEntriesFrom F i)) (\<lambda>_. tbind (t_db (appendLogEntry F e)) (\<lambda>_. t_append_loop F (i + 1) es))
       else t_append_loop F (i + 1) es))) (\<lambda>_ _. True)"
    proof (rule pool.rg_bind [OF pool_entry [OF Cons.prems(2) i(2)] n1(2)])
      fix x n2 assume n2: "extends st n1 n2" "pool_at F T n2" and x: "x = Some (node_log n1 ! nat (i - 1))"
      have "in_log (i + 1) es n2" using in_log_later [OF there(3) n2(1)] Cons.prems(2) by simp
      then show "pool.rg F T st False n2 (tbind (t_deref x) (\<lambda>old.
         if le_term old \<noteq> le_term e then
           tbind (t_db (deleteLogEntriesFrom F i)) (\<lambda>_. tbind (t_db (appendLogEntry F e)) (\<lambda>_. t_append_loop F (i + 1) es))
         else t_append_loop F (i + 1) es)) (\<lambda>_ _. True)"
        using Cons.IH [OF n2(2), of "i + 1"] Cons.prems(2) there(2) by (simp add: x t_deref_def)
    qed
    then show "pool.rg F T st False n1 (if i \<le> l then tbind (t_db (getLogEntry F i)) (\<lambda>x. tbind (t_deref x) (\<lambda>old.
       if le_term old \<noteq> le_term e then
         tbind (t_db (deleteLogEntriesFrom F i)) (\<lambda>_. tbind (t_db (appendLogEntry F e)) (\<lambda>_. t_append_loop F (i + 1) es))
       else t_append_loop F (i + 1) es))
       else tbind (t_db (appendLogEntry F e)) (\<lambda>_. t_append_loop F (i + 1) es)) (\<lambda>_ _. True)"
      using i(1) by simp
  qed
qed (simp add: pool_ret)

lemma pool_prev_differs:
  assumes "pool_at F T n" and "i \<le> int (length (node_log n))" and "1 \<le> i \<Longrightarrow> t = le_term (node_log n ! nat (i - 1))"
  shows "pool.rg F T st False n (t_prev_differs F i t) (\<lambda>b _. \<not> b)"
proof (cases "1 \<le> i")
  case True
  show ?thesis
    using True unfolding t_prev_differs_def
    by (auto intro!: pool.rg_bind [OF pool_entry [OF True assms(2)] assms(1)] pool_ret simp: t_deref_def assms(3))
qed (simp add: t_prev_differs_def pool_ret)

text \<open>The arguments that a leader passes to its own \<open>appendEntries\<close>.\<close>

definition covered :: "bool \<Rightarrow> int \<Rightarrow> int \<Rightarrow> int \<Rightarrow> log_entry list \<Rightarrow> int \<Rightarrow> raft_node \<Rightarrow> bool" where
  "covered st tm i t es c n \<longleftrightarrow> steady st n \<and> tm = currentTerm (state n) \<and> 0 \<le> i \<and> i \<le> int (length (node_log n)) \<and>
     (1 \<le> i \<longrightarrow> t = le_term (node_log n ! nat (i - 1))) \<and> in_log (i + 1) es n \<and> 0 \<le> c \<and> c \<le> int (length (node_log n))"

lemma covered_steady: "covered st tm i t es c n \<Longrightarrow> steady st n"
  by (simp add: covered_def)

lemma covered_later:
  assumes "covered st tm i t es c n" and "extends st n m"
  shows "covered st tm i t es c m"
  using assms in_log_later [of "i + 1" es n st m] extends_entry [OF assms(2), of i] extends_length [OF assms(2)]
    extends_state(1) [OF assms(2)] steady_later [OF _ assms(2)]
  unfolding covered_def by auto

lemma pool_finish_append:
  assumes "covered st tm i t es c n" and "pool_at F T n"
  shows "pool.rg F T st False n (t_finish_append F i es c) (\<lambda>b _. b)"
  unfolding t_finish_append_def
proof (rule pool.rg_bind [OF pool_append_loop assms(2)], rule assms(2))
  show "1 \<le> i + 1" "in_log (i + 1) es n" using assms(1) by (auto simp: covered_def)
  fix n1 assume n1: "extends st n n1" "pool_at F T n1"
  have commit: "pool.rg F T st False u (if c > d then tbind (t_db (getLastLogIndex F)) (\<lambda>l. tbind (t_db (setCommitIndex F (min c l))) (\<lambda>_. t_applyCommittedEntries F))
            else tret ()) (\<lambda>_ _. True)" if u: "pool_at F T u" for u d
  proof (cases "c > d")
    case True
    have "pool.rg F T st False u (tbind (t_db (getLastLogIndex F)) (\<lambda>l. tbind (t_db (setCommitIndex F (min c l))) (\<lambda>_. t_applyCommittedEntries F))) (\<lambda>_ _. True)"
      by (rule pool.rg_bind [OF pool_last u], rule pool_commit) (use assms(1) in \<open>auto simp: covered_def\<close>)
    then show ?thesis using True by simp
  qed (simp add: pool_ret)
  show "pool.rg F T st False n1 (tbind (t_db (getCommitIndex F)) (\<lambda>d.
     tbind (if c > d then tbind (t_db (getLastLogIndex F)) (\<lambda>l. tbind (t_db (setCommitIndex F (min c l))) (\<lambda>_. t_applyCommittedEntries F))
            else tret ()) (\<lambda>_. tret True))) (\<lambda>b _. b)"
    by (rule pool.rg_bind [OF pool_indices(1) n1(2)], rule pool.rg_bind [OF commit]) (simp_all add: pool_ret)
qed

lemma pool_accept:
  assumes "covered st tm i t es c n" and "pool_at F T n"
  shows "pool.rg F T st False n (t_accept F i t es c) (\<lambda>b _. b)"
  unfolding t_accept_def
proof (rule pool.rg_bind [OF pool_last assms(2)], rule pool.rg_bind [where P = "\<lambda>b _. \<not> b"])
  fix l n1 assume n1: "extends st n n1" "pool_at F T n1"
    and l: "0 \<le> l \<and> int (length (node_log n)) \<le> l \<and> l \<le> int (length (node_log n1))"
  note c1 = covered_later [OF assms(1) n1(1)]
  have "\<not> l < i" using assms(1) l by (auto simp: covered_def)
  then show "pool.rg F T st False n1 (if l < i then tret True else t_prev_differs F i t) (\<lambda>b _. \<not> b)"
    using c1 pool_prev_differs [OF n1(2), of i t] by (simp add: covered_def)
  fix mismatch n2 assume n2: "extends st n1 n2" "pool_at F T n2" "\<not> mismatch"
  show "pool.rg F T st False n2 (if mismatch then tret False else t_finish_append F i es c) (\<lambda>b _. b)"
    using n2(3) pool_finish_append [OF covered_later [OF c1 n2(1)] n2(2)] by simp
qed

lemma pool_term: "steady st n \<Longrightarrow> pool.rg F T st False n (t_read (\<lambda>n. currentTerm (state n))) (\<lambda>t _. t = currentTerm (state n))"
  by (rule pool_read) (auto dest: extends_state(1))

lemma pool_observe_term: "pool_at F T n \<Longrightarrow> steady st n \<Longrightarrow> pool.rg F T st False n (t_observe_term (currentTerm (state n))) (\<lambda>_ _. True)"
  unfolding t_observe_term_def by (rule pool.rg_bind [OF pool_term]) (simp_all add: pool_ret)

lemma pool_appendEntries:
  assumes "covered st tm i t es c n" and "pool_at F T n"
  shows "pool.rg F T st False n (t_appendEntries F p tm i t es c) (\<lambda>b _. b)"
  unfolding t_appendEntries_def
proof (rule pool.rg_bind [OF pool_term [OF covered_steady [OF assms(1)]] assms(2)])
  fix current n1 assume n1: "extends st n n1" "pool_at F T n1" and current: "current = currentTerm (state n)"
  have now: "tm = currentTerm (state n1)" "tm = current" and c1: "covered st tm i t es c n1"
    using assms(1) covered_later [OF assms(1) n1(1)] current by (simp_all add: covered_def)
  have "pool.rg F T st False n1 (tbind (t_observe_term tm) (\<lambda>_. tbind t_resetElectionTimer (\<lambda>_. t_accept F i t es c))) (\<lambda>b _. b)"
    unfolding now(1)
  proof (rule pool.rg_bind [OF pool_observe_term [OF n1(2) covered_steady [OF c1]] n1(2)])
    fix n2 assume n2: "extends st n1 n2" "pool_at F T n2"
    show "pool.rg F T st False n2 (tbind t_resetElectionTimer (\<lambda>_. t_accept F i t es c)) (\<lambda>b _. b)"
      by (rule pool.rg_bind [OF pool_resetElectionTimer [OF n2(2)] n2(2)], rule pool_accept)
        (use covered_later [OF c1] extends_trans [OF n2(1)] in blast)+
  qed
  then show "pool.rg F T st False n1 (if tm < current then tret False else
      tbind (t_observe_term tm) (\<lambda>_. tbind t_resetElectionTimer (\<lambda>_. t_accept F i t es c))) (\<lambda>b _. b)"
    using now(2) by simp
qed

lemma pool_next: "pool.rg F T st False n (t_read (\<lambda>n. getOrDefault (nextIndex n) p 1)) (\<lambda>i u. 1 \<le> i \<and> i \<le> int (length (node_log u)) + 1)"
proof (rule pool_read)
  fix u w assume u: "pool_at F T u" "extends st u w"
  have "1 \<le> getOrDefault (nextIndex u) p 1 \<and> getOrDefault (nextIndex u) p 1 \<le> int (length (node_log u)) + 1"
    using u(1) by (auto simp: getOrDefault_def pool_at_def pool_inv_def split: option.split)
  then show "1 \<le> getOrDefault (nextIndex u) p 1 \<and> getOrDefault (nextIndex u) p 1 \<le> int (length (node_log w)) + 1"
    using extends_length [OF u(2)] by simp
qed

lemma pool_put_next:
  assumes "1 \<le> i" and "i \<le> int (length (node_log n)) + 1"
  shows "pool.rg F T st False n (t_modify (\<lambda>n. n\<lparr>nextIndex := AList.update p i (nextIndex n)\<rparr>)) (\<lambda>_ _. True)"
proof (rule pool_modify)
  fix u assume u: "extends st n u" "pool_at F T u"
  have "i \<le> int (length (node_log u)) + 1" using extends_length [OF u(1)] assms(2) by simp
  then show "pool_at F T (u\<lparr>nextIndex := AList.update p i (nextIndex u)\<rparr>) \<and> quiet u (u\<lparr>nextIndex := AList.update p i (nextIndex u)\<rparr>)"
    using u(2) assms(1) by (simp add: pool_at_def pool_inv_def quiet_def update_conv')
qed

lemma pool_put_match: "pool.rg F T st False n (t_modify (\<lambda>n. n\<lparr>matchIndex := AList.update p i (matchIndex n)\<rparr>)) (\<lambda>_ _. True)"
  by (rule pool_modify) (simp add: pool_at_def pool_inv_def quiet_def)

lemma pool_after_success:
  assumes "pool_at F T n"
  shows "pool.rg F T st False n (tbind (t_db (getLastLogIndex F)) (\<lambda>l1.
       tbind (t_modify (\<lambda>n. n\<lparr>nextIndex := AList.update p (l1 + 1) (nextIndex n)\<rparr>)) (\<lambda>_.
       tbind (t_db (getLastLogIndex F)) (\<lambda>l2.
       tbind (t_modify (\<lambda>n. n\<lparr>matchIndex := AList.update p l2 (matchIndex n)\<rparr>)) (\<lambda>_.
       t_updateCommitIndex F))))) (\<lambda>_ _. True)"
proof (rule pool.rg_bind [OF pool_last assms], rule pool.rg_bind [OF pool_put_next])
  fix u assume u: "pool_at F T u"
  show "pool.rg F T st False u (tbind (t_db (getLastLogIndex F)) (\<lambda>l2.
       tbind (t_modify (\<lambda>n. n\<lparr>matchIndex := AList.update p l2 (matchIndex n)\<rparr>)) (\<lambda>_. t_updateCommitIndex F))) (\<lambda>_ _. True)"
    by (rule pool.rg_bind [OF pool_last u], rule pool.rg_bind [OF pool_put_match]) (simp_all add: pool_updateCommitIndex)
qed auto

lemma pool_prev_term:
  assumes "pool_at F T n" and "i \<le> int (length (node_log n))"
  shows "pool.rg F T st False n (if i > 0 then tbind (t_db (getLogEntry F i)) (\<lambda>x. tbind (t_deref x) (\<lambda>e. tret (le_term e))) else tret 0)
     (\<lambda>t _. 1 \<le> i \<longrightarrow> t = le_term (node_log n ! nat (i - 1)))"
proof (cases "1 \<le> i")
  case True
  then show ?thesis
    by (auto intro!: pool.rg_bind [OF pool_entry [OF True assms(2)] assms(1)] pool_ret simp: t_deref_def)
qed (simp add: pool_ret)

lemma pool_sendAppendEntries:
  assumes "pool_at F T n" and "steady st n"
  shows "pool.rg F T st False n (t_sendAppendEntries F p) (\<lambda>_ _. True)"
  unfolding t_sendAppendEntries_def
proof (rule pool.rg_bind [OF pool_next assms(1)], rule pool.rg_bind [OF pool_last], assumption, rule pool.rg_bind [OF pool_range],
    goal_cases)
  case (4 i n1 l n2 es n3)
  let ?i = "i - 1"
  have i: "1 \<le> i" "?i \<le> int (length (node_log n2))" using 4 extends_length [of st n1 n2] by auto
  have es: "es = drop (nat ?i) (take (nat l) (node_log n2))" and l: "l \<le> int (length (node_log n2))" using 4 by auto
  have "in_log i es n2" unfolding es using in_log_range [OF i(1) l] .
  then have es3: "in_log (?i + 1) es n3" using in_log_later [of i es n2 st n3] 4 i(1) by simp
  have i3: "?i \<le> int (length (node_log n3))" using i(2) 4 extends_length [of st n2 n3] by auto
  have steady: "steady st n3" by (rule steady_later [OF assms(2)]) (use 4 extends_trans in blast)
  show ?case
  proof (rule pool.rg_bind [OF pool_prev_term [OF _ i3]], goal_cases)
    case (3 t n4)
    note steady4 = steady_later [OF steady 3(1)]
    show ?case
    proof (rule pool.rg_bind [OF pool_term], rule steady4, rule 3, rule pool.rg_bind [OF pool_indices(1)], assumption,
        rule pool.rg_bind [OF pool_appendEntries], goal_cases)
      case (1 tm n5 c n6)
      have steps: "extends st n3 n4" "extends st n4 n5" "extends st n5 n6" and tm: "tm = currentTerm (state n4)"
        and c: "0 \<le> c" "c \<le> int (length (node_log n6))" using 1 3 by simp_all
      have n36: "extends st n3 n6" using steps extends_trans by blast
      have n46: "extends st n4 n6" using steps extends_trans by blast
      have "tm = currentTerm (state n6)" "steady st n6" using tm extends_state(1) [OF n46 steady4] steady_later [OF steady4 n46] by simp_all
      moreover have "1 \<le> ?i \<longrightarrow> t = le_term (node_log n6 ! nat (?i - 1))"
        using extends_entry [OF n36 _ i3] 3(3) by metis
      moreover have "?i \<le> int (length (node_log n6))" using extends_length [OF n36] i3 by simp
      moreover have "in_log (?i + 1) es n6" using in_log_later [OF es3 n36] i(1) by simp
      ultimately show ?case unfolding covered_def using c i(1) by simp
    next
      case (4 tm n5 c n6 b n7)
      then show ?case using pool_after_success by simp
    qed
  qed (use 4 in simp_all)
qed auto

lemma pool_replicateEntry:
  assumes "pool_at F T n" and "steady st n"
  shows "pool.rg F T st False n (t_replicateEntry F) (\<lambda>b _. b)"
  unfolding t_replicateEntry_def
proof (rule pool.rg_bind [where P = "\<lambda>_ _. True", OF pool_read assms(1)], simp, rule pool.rg_bind [OF pool_for_each])
  fix p n1 u assume "extends st n n1" "extends st n1 u" "pool_at F T u"
  then show "pool.rg F T st False u (t_sendAppendEntries F p) (\<lambda>_ _. True)"
    using pool_sendAppendEntries steady_later assms(2) by blast
next
  fix u assume "pool_at F T u"
  then show "pool.rg F T st False u (tbind (t_updateCommitIndex F) (\<lambda>_. tret True)) (\<lambda>b _. b)"
    by (intro pool.rg_bind [OF pool_updateCommitIndex]) (simp_all add: pool_ret)
qed simp_all

text \<open>
  A leader accepts every proposal, and the entry is in the log from then on; a node that does not lead refuses. Where
  role and term stay, only such a node refuses.
\<close>

definition proposal_kept :: "bool \<Rightarrow> string \<Rightarrow> string \<Rightarrow> bool \<Rightarrow> raft_node \<Rightarrow> bool" where
  "proposal_kept st k v b n \<longleftrightarrow>
     (b \<longrightarrow> currentRole (state n) = LEADER \<and> new_entry (currentTerm (state n)) k v \<in> set (node_log n)) \<and>
     (st \<and> \<not> b \<longrightarrow> currentRole (state n) \<noteq> LEADER)"

lemma proposal_kept_later:
  assumes "proposal_kept st k v b n" and "extends st n m"
  shows "proposal_kept st k v b m"
proof -
  have "set (node_log n) \<subseteq> set (node_log m)" using assms(2) by (auto simp: extends_def)
  moreover have "state m = state n" if "b \<or> st" using that assms extends_state(1) [of st n m] by (auto simp: proposal_kept_def steady_def)
  ultimately show ?thesis using assms(1) by (auto simp: proposal_kept_def)
qed

text \<open>What a proposal and a call add to the log of a node that leads in term \<open>T\<close>, by their results.\<close>

definition proposed :: "int \<Rightarrow> string \<Rightarrow> string \<Rightarrow> bool \<Rightarrow> log_entry multiset" where
  "proposed T k v b = (if b then {#new_entry T k v#} else {#})"

definition emitted :: "int \<Rightarrow> call \<Rightarrow> reply \<Rightarrow> log_entry multiset" where
  "emitted T c r = (case (c, r) of (Put k v, Put_Reply p) \<Rightarrow> proposed T k v (pr_success p) | _ \<Rightarrow> {#})"

lemma pool_replicated:
  assumes "pool_at F T n" and "currentRole (state n) = LEADER" and "new_entry T k v \<in> set (node_log n)"
  shows "pool.emits F T st False n (t_replicateEntry F) {#new_entry T k v#} (proposed T k v) (proposal_kept st k v)"
proof -
  let ?e = "new_entry T k v"
  have steady: "steady st n" using assms(2) by (simp add: steady_def)
  have "pool.emits F T st False n (t_replicateEntry F) {#?e#} (\<lambda>_. {#?e#}) (\<lambda>b _. b)"
    using pool.emits_frame [OF pool_replicateEntry [OF assms(1) steady], of "{#?e#}"] by simp
  then have "pool.emits F T st False n (t_replicateEntry F) {#?e#} (proposed T k v) (\<lambda>b _. b)"
    by (rule pool.emits_restate) (simp_all add: assms(1) proposed_def)
  then show ?thesis
  proof (rule pool.emits_weaken)
    fix b u assume u: "extends st n u" "b"
    have "proposal_kept st k v True n" using assms by (simp add: proposal_kept_def pool_at_def)
    then show "proposal_kept st k v b u" using proposal_kept_later u by (metis (full_types))
  qed
qed

lemma pool_lead:
  assumes "pool_at F T n" and "currentRole (state n) = LEADER"
  shows "pool.emits F T st False n (tbind (t_read (\<lambda>n. currentTerm (state n))) (\<lambda>tm.
     tbind (t_db (appendLogEntry F (new_entry tm k v))) (\<lambda>_.
     tbind (t_db (getLastLogIndex F)) (\<lambda>_. t_replicateEntry F)))) {#} (proposed T k v) (proposal_kept st k v)"
proof (rule pool.rg_bind [OF pool_term assms(1)])
  show steady: "steady st n" using assms(2) by (simp add: steady_def)
  fix tm n2 assume n2: "extends st n n2" "pool_at F T n2" and tm: "tm = currentTerm (state n)"
  have T: "tm = T" using tm assms by (simp add: pool_at_def)
  have stored: "stored (new_entry T k v) = new_entry T k v" by (simp add: new_entry_def)
  note append = pool_append [of F T st n2 "new_entry T k v", unfolded stored]
  show "pool.emits F T st False n2 (tbind (t_db (appendLogEntry F (new_entry tm k v))) (\<lambda>_.
     tbind (t_db (getLastLogIndex F)) (\<lambda>_. t_replicateEntry F))) {#} (proposed T k v) (proposal_kept st k v)"
    unfolding T
  proof (rule pool.emits_bind [OF append n2(2)], rule pool.rg_bind [OF pool_last], assumption, rule pool_replicated, assumption)
    fix n3 n4 assume n3: "extends st n2 n3" "new_entry T k v \<in> set (node_log n3)" and n4: "extends st n3 n4"
    have "extends st n n4" using n2(1) n3(1) n4 extends_trans by blast
    then have "state n4 = state n" using extends_state(1) steady by blast
    then show "currentRole (state n4) = LEADER" using assms(2) by metis
    have "set (node_log n3) \<subseteq> set (node_log n4)" using n4 by (auto simp: extends_def)
    then show "new_entry T k v \<in> set (node_log n4)" using n3(2) by blast
  qed
qed

lemma pool_proposeEntry:
  assumes "pool_at F T n"
  shows "pool.emits F T st False n (t_proposeEntry F k v) {#} (proposed T k v) (proposal_kept st k v)"
  unfolding t_proposeEntry_def
proof (rule pool.rg_bind [where P = "\<lambda>r u. (r = LEADER \<longrightarrow> currentRole (state u) = LEADER) \<and> (st \<longrightarrow> r = currentRole (state u))", OF pool_read assms])
  show "\<And>u w. extends st u w \<Longrightarrow> (currentRole (state u) = LEADER \<longrightarrow> currentRole (state w) = LEADER) \<and> (st \<longrightarrow> currentRole (state u) = currentRole (state w))"
    by (auto simp: extends_def)
  fix r n1 assume n1: "pool_at F T n1" "(r = LEADER \<longrightarrow> currentRole (state n1) = LEADER) \<and> (st \<longrightarrow> r = currentRole (state n1))"
  have "pool.emits F T st False n1 (tret False :: bool raft_thread) {#} (proposed T k v) (proposal_kept st k v)" if "r \<noteq> LEADER"
    by (rule pool_ret) (use that n1(2) in \<open>auto simp: proposal_kept_def proposed_def extends_def\<close>)
  then show "pool.emits F T st False n1 (if r \<noteq> LEADER then tret False else tbind (t_read (\<lambda>n. currentTerm (state n))) (\<lambda>tm.
     tbind (t_db (appendLogEntry F (new_entry tm k v))) (\<lambda>_.
     tbind (t_db (getLastLogIndex F)) (\<lambda>_. t_replicateEntry F)))) {#} (proposed T k v) (proposal_kept st k v)"
    using pool_lead [OF n1(1), of st k v] n1(2) by simp
qed

text \<open>What the answer to a call says about the node, from then on.\<close>

definition answered :: "bool \<Rightarrow> call \<Rightarrow> reply \<Rightarrow> raft_node \<Rightarrow> bool" where
  "answered st c r n = (case c of
     Put k v \<Rightarrow> \<exists>b. r = Put_Reply \<lparr>pr_success = b, pr_old_value = ''''\<rparr> \<and> proposal_kept st k v b n
   | Get k \<Rightarrow> \<exists>x. r = Get_Reply \<lparr>gr_value = (case x of None \<Rightarrow> '''' | Some v \<Rightarrow> v), gr_found = (x \<noteq> None)\<rparr> \<and>
       (\<forall>v. x = Some v \<longrightarrow> (\<exists>e\<in>set (node_log n). le_key e = k \<and> le_value e = v))
   | Heartbeat p \<Rightarrow> r = Sent)"

lemma pool_get:
  "pool.rg F T st False n (t_db (get_kv F k)) (\<lambda>x u. \<forall>v. x = Some v \<longrightarrow> (\<exists>e\<in>set (node_log u). le_key e = k \<and> le_value e = v))"
proof (rule pool_db_read)
  fix u assume "pool_at F T u"
  then show "on_db (get_kv F k) u = (Val (kv_store (storage u) k), u)"
    using usable_open [of F u] by (simp add: pool_usable storage_defs stmt_ok)
next
  fix u w assume "pool_at F T u" "extends st u w"
  then show "\<forall>v. kv_store (storage u) k = Some v \<longrightarrow> (\<exists>e\<in>set (node_log w). le_key e = k \<and> le_value e = v)"
    by (fastforce simp: pool_at_def pool_inv_def extends_def)
qed

lemma pool_call:
  assumes "pool_at F T n" and "\<And>p. c = Heartbeat p \<Longrightarrow> steady st n"
  shows "pool.emits F T st False n (t_call F c) {#} (emitted T c) (answered st c)"
proof (cases c)
  case (Put k v)
  show ?thesis
    unfolding t_call_def Put call.case
    by (rule pool.emits_bind [OF pool_proposeEntry assms(1)], rule assms(1), rule pool_ret)
      (auto simp: answered_def emitted_def intro: proposal_kept_later)
next
  case (Get k)
  show ?thesis
    unfolding t_call_def Get call.case
  proof (rule pool.rg_bind [OF pool_get assms(1)], rule pool_ret)
    fix x u w assume x: "\<forall>v. x = Some v \<longrightarrow> (\<exists>e\<in>set (node_log u). le_key e = k \<and> le_value e = v)" and w: "extends st u w"
    have "set (node_log u) \<subseteq> set (node_log w)" using w by (auto simp: extends_def)
    then show "answered st (Get k) (Get_Reply \<lparr>gr_value = (case x of None \<Rightarrow> '''' | Some v \<Rightarrow> v), gr_found = (x \<noteq> None)\<rparr>) w"
      unfolding answered_def call.case using x by (intro exI [of _ x]) blast
  qed (simp add: emitted_def)
next
  case (Heartbeat p)
  show ?thesis
    unfolding t_call_def Heartbeat call.case
    by (rule pool.rg_bind [OF pool_sendAppendEntries assms(1)], rule assms, rule assms(2), rule Heartbeat, rule pool_ret)
      (simp_all add: answered_def emitted_def)
qed

end
