(* ===== verification/Election_Threads.thy ===== *)
theory Election_Threads
  imports Raft_Threads
begin

text \<open>
  Everything else that the threads of a server process run, action by action: the two scheduled tasks and the
  election timer on the scheduler, the tasks of the worker pool, and messages from another node. Together with the
  calls of \<open>Raft_Threads\<close> they are the jobs of a server.
\<close>

section \<open>Elections\<close>

text \<open>\<open>RaftState.becomeCandidate\<close>: \<open>currentTerm++\<close> reads the field and then writes it.\<close>

definition t_becomeCandidate :: "unit raft_thread" where
  "t_becomeCandidate =
     tbind (t_modify (\<lambda>n. n\<lparr>state := (state n)\<lparr>currentRole := CANDIDATE\<rparr>\<rparr>)) (\<lambda>_.
     tbind (t_read (\<lambda>n. currentTerm (state n))) (\<lambda>tm.
     t_modify (\<lambda>n. n\<lparr>state := (state n)\<lparr>currentTerm := jlong (tm + 1)\<rparr>\<rparr>)))"

text \<open>\<open>SQLiteStorage.getLastLogTerm\<close> executes two statements.\<close>

definition t_getLastLogTerm :: "faults \<Rightarrow> int raft_thread" where
  "t_getLastLogTerm F =
     tbind (t_db (getLastLogIndex F)) (\<lambda>lastIndex.
     if lastIndex > 0 then
       tbind (t_db (getLogEntry F lastIndex)) (\<lambda>entry. tret (case entry of None \<Rightarrow> 0 | Some e \<Rightarrow> le_term e))
     else tret 0)"

definition t_becomeLeader :: "faults \<Rightarrow> unit raft_thread" where
  "t_becomeLeader F =
     tbind (t_modify (\<lambda>n. n\<lparr>state := role_becomeLeader (state n)\<rparr>)) (\<lambda>_.
     tbind (t_db (getLastLogIndex F)) (\<lambda>l.
     tbind (t_read (\<lambda>n. map fst (peers n))) (\<lambda>ids.
     t_for_each (\<lambda>id.
       tbind (t_modify (\<lambda>n. n\<lparr>nextIndex := AList.update id (l + 1) (nextIndex n)\<rparr>)) (\<lambda>_.
       t_modify (\<lambda>n. n\<lparr>matchIndex := AList.update id 0 (matchIndex n)\<rparr>))) ids)))"

text \<open>The callback: the futures are joined and counted, then the role changes on a majority.\<close>

definition t_electionCallback :: "faults \<Rightarrow> unit raft_thread" where
  "t_electionCallback F = tcatch
     (tbind (t_read voteFutures) (\<lambda>futures.
      tbind (Halt (count_true futures)) (\<lambda>k.
      tbind (t_read peersSize) (\<lambda>n_peers.
      if quorum (k + 1) n_peers then t_becomeLeader F else tret ()))))
     (\<lambda>e. tret ())"

definition t_submit :: "task \<Rightarrow> unit raft_thread" where
  "t_submit t = atomic (submit t)"

definition t_startElection :: "faults \<Rightarrow> unit raft_thread" where
  "t_startElection F =
     tbind t_becomeCandidate (\<lambda>_.
     tbind (t_modify (\<lambda>n. n\<lparr>votedFor := Some (nodeId n)\<rparr>)) (\<lambda>_.
     tbind (t_db (getLastLogIndex F)) (\<lambda>lastLogIndex.
     tbind (t_getLastLogTerm F) (\<lambda>lastLogTerm.
     tbind (t_read (\<lambda>n. map fst (peers n))) (\<lambda>ids.
     tbind (t_for_each (\<lambda>p. t_submit (Vote_Task p lastLogIndex lastLogTerm)) ids) (\<lambda>_.
     if ids = [] then t_electionCallback F
     else t_modify (\<lambda>n. n\<lparr>tasks := tasks n @ [Election_Callback]\<rparr>)))))))"

definition t_leaderElectionTask :: "faults \<Rightarrow> unit raft_thread" where
  "t_leaderElectionTask F =
     tbind (t_read (\<lambda>n. currentRole (state n))) (\<lambda>r. if r \<noteq> LEADER then t_startElection F else tret ())"

definition t_heartbeatTask :: "unit raft_thread" where
  "t_heartbeatTask =
     tbind (t_read (\<lambda>n. currentRole (state n))) (\<lambda>r.
     if r = LEADER
     then tbind (t_read (\<lambda>n. map fst (peers n))) (t_for_each (\<lambda>p. t_submit (Send_Task p)))
     else tret ())"

text \<open>
  A vote request; other threads act while the stub waits for the answer. When the answer never comes the thread does not act
  again: the runs of a pool up to any point, in which a thread may be behind for good, include these.
\<close>

definition t_requestVote :: "(string \<Rightarrow> vote_request \<Rightarrow> vote_response option) \<Rightarrow> string \<Rightarrow> int \<Rightarrow> int \<Rightarrow> bool raft_thread" where
  "t_requestVote rpc peer lastLogIndex lastLogTerm =
     tbind (t_read (\<lambda>n. currentTerm (state n))) (\<lambda>tm.
     tbind (t_read nodeId) (\<lambda>me.
     case rpc peer \<lparr>vr_term = tm, vr_candidateId = me, vr_lastLogIndex = lastLogIndex, vr_lastLogTerm = lastLogTerm\<rparr> of
       None \<Rightarrow> tret False
     | Some response \<Rightarrow>
         tbind (t_read (\<lambda>n. currentTerm (state n))) (\<lambda>current.
         if vs_term response > current then
           tbind (t_modify (\<lambda>n. n\<lparr>state := setCurrentTerm (vs_term response) (state n)\<rparr>)) (\<lambda>_.
           tbind (t_becomeFollower (vs_term response)) (\<lambda>_.
           tbind (t_modify (\<lambda>n. n\<lparr>votedFor := None\<rparr>)) (\<lambda>_. tret False)))
         else tret (vs_voteGranted response))))"

section \<open>Jobs\<close>

definition t_run_task :: "faults \<Rightarrow> (string \<Rightarrow> vote_request \<Rightarrow> vote_response option) \<Rightarrow> task \<Rightarrow> unit raft_thread" where
  "t_run_task F rpc t = (case t of
     Send_Task p \<Rightarrow> t_sendAppendEntries F p
   | Vote_Task p lastLogIndex lastLogTerm \<Rightarrow> tbind (t_requestVote rpc p lastLogIndex lastLogTerm) (\<lambda>_. tret ())
   | Election_Callback \<Rightarrow> t_electionCallback F)"

text \<open>Taking the \<open>i\<close>-th waiting task, and taking the timer that is due.\<close>

definition take_task :: "nat \<Rightarrow> task option raft" where
  "take_task i = (\<lambda>n. if i < length (tasks n)
     then (Val (Some (tasks n ! i)), n\<lparr>tasks := take i (tasks n) @ drop (Suc i) (tasks n)\<rparr>) else (Val None, n))"

definition take_timer :: "bool raft" where
  "take_timer = (\<lambda>n. (Val (electionTimer n \<noteq> None), n\<lparr>electionTimer := None\<rparr>))"

text \<open>
  A call of the service; the two tasks that the scheduler repeats, each one execution after the other; a worker that
  takes a waiting task and, for a vote request, gets the given answer; the election timer; a message with entries.
\<close>

datatype job = Serve call | Election_Ticks nat | Heartbeat_Ticks nat | Work nat "vote_response option" | Timer
  | Receive string int int int "log_entry list" int

definition t_job :: "faults \<Rightarrow> job \<Rightarrow> reply option raft_thread" where
  "t_job F j = (case j of
     Serve c \<Rightarrow> tbind (t_call F c) (\<lambda>r. tret (Some r))
   | Election_Ticks k \<Rightarrow> tbind (t_for_each (\<lambda>_. t_leaderElectionTask F) (replicate k ())) (\<lambda>_. tret None)
   | Heartbeat_Ticks k \<Rightarrow> tbind (t_for_each (\<lambda>_. t_heartbeatTask) (replicate k ())) (\<lambda>_. tret None)
   | Work i vote \<Rightarrow>
       tbind (atomic (take_task i)) (\<lambda>t.
       tbind (case t of None \<Rightarrow> tret () | Some t \<Rightarrow> t_run_task F (\<lambda>_ _. vote) t) (\<lambda>_. tret None))
   | Timer \<Rightarrow> tbind (atomic take_timer) (\<lambda>due. tbind (if due then t_startElection F else tret ()) (\<lambda>_. tret None))
   | Receive leader tm prev prev_term es leaderCommit \<Rightarrow>
       tbind (t_appendEntries F leader tm prev prev_term es leaderCommit) (\<lambda>_. tret None))"

text \<open>The same jobs with every method as one step.\<close>

definition job_alone :: "faults \<Rightarrow> job \<Rightarrow> reply option raft" where
  "job_alone F j = (case j of
     Serve c \<Rightarrow> bind (call_alone F c) (\<lambda>r. ret (Some r))
   | Election_Ticks k \<Rightarrow> bind (for_each (\<lambda>_. leaderElectionTask F) (replicate k ())) (\<lambda>_. ret None)
   | Heartbeat_Ticks k \<Rightarrow> bind (for_each (\<lambda>_. heartbeatTask) (replicate k ())) (\<lambda>_. ret None)
   | Work i vote \<Rightarrow>
       bind (take_task i) (\<lambda>t.
       bind (case t of None \<Rightarrow> ret () | Some t \<Rightarrow> run_task F (\<lambda>_ _. vote) t) (\<lambda>_. ret None))
   | Timer \<Rightarrow> bind take_timer (\<lambda>due. bind (if due then startElection F else ret ()) (\<lambda>_. ret None))
   | Receive leader tm prev prev_term es leaderCommit \<Rightarrow>
       bind (appendEntries F leader tm prev prev_term es leaderCommit) (\<lambda>_. ret None))"

section \<open>Without interference the threads are the methods\<close>

lemma run_becomeCandidate [simp]: "run_alone t_becomeCandidate = modify (\<lambda>n. n\<lparr>state := becomeCandidate (state n)\<rparr>)"
  by (simp add: t_becomeCandidate_def becomeCandidate_def fun_eq_iff)

lemma on_db_bind: "on_db (bind m f) = bind (on_db m) (\<lambda>x. on_db (f x))"
  by (auto simp: fun_eq_iff on_db_def bind_def split: prod.split outcome.split)

lemma on_db_ret: "on_db (ret x) = ret x"
  by (simp add: fun_eq_iff on_db_def)

lemma on_db_if: "on_db (if b then m else m') = (if b then on_db m else on_db m')"
  by simp

lemma run_getLastLogTerm [simp]: "run_alone (t_getLastLogTerm F) = on_db (getLastLogTerm F)"
  unfolding t_getLastLogTerm_def getLastLogTerm_def on_db_bind on_db_if on_db_ret by (simp cong: if_cong)

lemma put_indices_fold:
  "for_each (\<lambda>id. bind (modify (\<lambda>n. n\<lparr>nextIndex := AList.update id i (nextIndex n)\<rparr>)) (\<lambda>_.
     modify (\<lambda>n. n\<lparr>matchIndex := AList.update id 0 (matchIndex n)\<rparr>))) ids n =
   (Val (), n\<lparr>nextIndex := fold (\<lambda>id. AList.update id i) ids (nextIndex n),
              matchIndex := fold (\<lambda>id. AList.update id 0) ids (matchIndex n)\<rparr>)"
  by (induction ids arbitrary: n) simp_all

lemma run_becomeLeader [simp]: "run_alone (t_becomeLeader F) = becomeLeader F"
proof -
  have tail: "bind (read_node (\<lambda>n. map fst (peers n))) (for_each (\<lambda>id. bind (modify (\<lambda>n. n\<lparr>nextIndex := AList.update id i (nextIndex n)\<rparr>)) (\<lambda>_.
      modify (\<lambda>n. n\<lparr>matchIndex := AList.update id 0 (matchIndex n)\<rparr>)))) =
    modify (\<lambda>n. n\<lparr>nextIndex := fold (\<lambda>id. AList.update id i) (map fst (peers n)) (nextIndex n),
                  matchIndex := fold (\<lambda>id. AList.update id 0) (map fst (peers n)) (matchIndex n)\<rparr>)" for i
    by (simp add: fun_eq_iff run_atomic_read put_indices_fold)
  show ?thesis by (simp add: t_becomeLeader_def becomeLeader_def tail)
qed

lemma run_electionCallback [simp]: "run_alone (t_electionCallback F) = electionCallback F"
proof -
  have "bind (read_node voteFutures) (\<lambda>fs. bind (run_alone (Halt (count_true fs))) f) = bind countVotes f" for f :: "int \<Rightarrow> unit raft"
    by (simp add: fun_eq_iff countVotes_def run_alone.simps bind_def split: outcome.split)
  then show ?thesis unfolding t_electionCallback_def electionCallback_def run_tcatch run_tbind by (simp cong: if_cong)
qed

lemma run_startElection [simp]: "run_alone (t_startElection F) = startElection F"
  by (simp add: t_startElection_def startElection_def t_submit_def fun_eq_iff run_atomic_read cong: if_cong)

lemma run_scheduled [simp]:
  "run_alone (t_leaderElectionTask F) = leaderElectionTask F" "run_alone t_heartbeatTask = heartbeatTask"
  by (simp_all add: t_leaderElectionTask_def leaderElectionTask_def t_heartbeatTask_def heartbeatTask_def t_submit_def fun_eq_iff
      run_atomic_read cong: if_cong)

lemma run_requestVote [simp]: "run_alone (t_requestVote rpc p i t) = requestVote rpc p i t"
  by (simp add: t_requestVote_def requestVote_def fun_eq_iff run_atomic_read split: option.split)

lemma run_run_task [simp]: "run_alone (t_run_task F rpc t) = run_task F rpc t"
  by (simp add: t_run_task_def run_task_def split: task.split)

lemma run_job: "run_alone (t_job F j) = job_alone F j"
proof (cases j)
  case (Work i vote)
  have "run_alone (case t of None \<Rightarrow> tret () | Some t \<Rightarrow> t_run_task F (\<lambda>_ _. vote) t) =
      (case t of None \<Rightarrow> ret () | Some t \<Rightarrow> run_task F (\<lambda>_ _. vote) t)" for t
    by (cases t) simp_all
  then show ?thesis by (simp add: Work t_job_def job_alone_def)
qed (simp_all add: t_job_def job_alone_def cong: if_cong)

end
