(* ===== verification/Election_Pool.thy ===== *)
theory Election_Pool
  imports Call_Pool Election_Threads
begin

text \<open>
  A node without peers whose elections run beside its calls. The scheduler runs one execution of
  \<open>leaderElectionTask\<close> after the other, so that one thread holds the elections: it relies on the others to leave role
  and term alone, and they rely on it to leave them alone once the node leads.
\<close>

section \<open>Actions of the electing thread\<close>

abbreviation elects :: "faults \<Rightarrow> int \<Rightarrow> raft_node \<Rightarrow> 'a raft_thread \<Rightarrow> ('a \<Rightarrow> raft_node \<Rightarrow> bool) \<Rightarrow> bool" where
  "elects F T n t Q \<equiv> pool.rg F T False True n t Q"

lemma same_state: "extends True n u \<Longrightarrow> state u = state n"
  by (simp add: extends_def)

lemma elects_read: "elects F T n (t_read f) (\<lambda>x u. state u = state n \<and> (\<exists>w. extends True n w \<and> x = f w))"
  unfolding t_read_def by (rule pool.rg_atomic) (use same_state in \<open>auto; metis\<close>)

lemma elects_db:
  assumes "\<And>u. pool_at F T u \<Longrightarrow> \<exists>x. on_db q u = (Val x, u)"
  shows "elects F T n (t_db q) (\<lambda>_ u. state u = state n)"
  unfolding t_db_def by (rule pool.rg_atomic) (use assms in \<open>fastforce dest: same_state\<close>)

lemma elects_modify:
  assumes "\<And>u. state u = state n \<Longrightarrow> pool_at F T u \<Longrightarrow> pool_at F T (g u) \<and> extends False u (g u) \<and> node_log (g u) = node_log u \<and> state (g u) = S"
  shows "elects F T n (t_modify g) (\<lambda>_ u. state u = S)"
  unfolding t_modify_def
proof (rule pool.rg_atomic)
  fix u assume "extends (False \<or> True) n u" "pool_at F T u"
  then show "\<exists>x v. modify g u = (Val x, v) \<and> pool_at F T v \<and> extends (False \<or> \<not> True) u v \<and> mset (node_log v) = mset (node_log u) \<and>
      (\<forall>w. extends (False \<or> True) v w \<longrightarrow> pool_at F T w \<longrightarrow> state w = S)"
    using assms [of u] by (auto dest: same_state)
qed

lemma elects_ret: "Q x n \<Longrightarrow> (\<And>u. extends True n u \<Longrightarrow> Q x n \<Longrightarrow> Q x u) \<Longrightarrow> elects F T n (tret x) Q"
  using pool.emits_Halt [of False True n F T Q x "\<lambda>_. {#}"] by simp

lemma elects_leading: "currentRole (state n) = LEADER \<Longrightarrow> elects F T n (tret x) (\<lambda>_ u. currentRole (state u) = LEADER)"
  by (rule elects_ret) (simp_all add: extends_def)

text \<open>Changing the role or the term of a node that does not lead yet.\<close>

lemma pool_at_state: "pool_at F T (n\<lparr>state := r\<rparr>) \<longleftrightarrow> pool_inv F n \<and> (currentRole r = LEADER \<longrightarrow> currentTerm r = T)"
  by (simp add: pool_at_def pool_inv_def)

lemma extends_new_state: "currentRole (state n) \<noteq> LEADER \<Longrightarrow> extends False n (n\<lparr>state := r\<rparr>)"
  by (simp add: extends_def)

lemma elects_state:
  assumes "currentRole (state n) \<noteq> LEADER" and "currentRole (h (state n)) = LEADER \<longrightarrow> currentTerm (h (state n)) = T"
  shows "elects F T n (t_modify (\<lambda>n. n\<lparr>state := h (state n)\<rparr>)) (\<lambda>_ u. state u = h (state n))"
proof (rule elects_modify)
  fix u assume "state u = state n" "pool_at F T u"
  then show "pool_at F T (u\<lparr>state := h (state u)\<rparr>) \<and> extends False u (u\<lparr>state := h (state u)\<rparr>) \<and>
      node_log (u\<lparr>state := h (state u)\<rparr>) = node_log u \<and> state (u\<lparr>state := h (state u)\<rparr>) = h (state n)"
    using assms extends_new_state [of u] by (simp add: pool_at_state) (simp add: pool_at_def)
qed

section \<open>An election without peers\<close>

lemma elects_becomeCandidate:
  assumes "pool_at F T n" and "currentRole (state n) \<noteq> LEADER"
  shows "elects F T n t_becomeCandidate (\<lambda>_ u. state u = becomeCandidate (state n))"
  unfolding t_becomeCandidate_def
proof (rule pool.rg_bind [OF elects_state [where h = "\<lambda>r. r\<lparr>currentRole := CANDIDATE\<rparr>"]], goal_cases)
  case (4 x n1)
  show ?case
  proof (rule pool.rg_bind [OF elects_read 4(2)])
    fix tm n2 assume n2: "pool_at F T n2" "state n2 = state n1 \<and> (\<exists>w. extends True n1 w \<and> tm = currentTerm (state w))"
    have s: "state n2 = (state n)\<lparr>currentRole := CANDIDATE\<rparr>" using n2(2) 4(3) by simp
    have "tm = currentTerm (state n)" using n2(2) 4(3) same_state by fastforce
    then show "elects F T n2 (t_modify (\<lambda>n. n\<lparr>state := (state n)\<lparr>currentTerm := jlong (tm + 1)\<rparr>\<rparr>)) (\<lambda>_ u. state u = becomeCandidate (state n))"
      using elects_state [where h = "\<lambda>r. r\<lparr>currentTerm := jlong (tm + 1)\<rparr>" and n = n2 and T = T and F = F] s
      by (simp add: becomeCandidate_def)
  qed
qed (use assms in simp_all)

lemma elects_last: "elects F T n (t_db (getLastLogIndex F)) (\<lambda>_ u. state u = state n)"
  by (rule elects_db) (simp add: node_store.last_index pool_usable)

lemma elects_entry: "elects F T n (t_db (getLogEntry F i)) (\<lambda>_ u. state u = state n)"
proof (rule elects_db)
  fix u assume "pool_at F T u"
  then have "usable_log F (storage u)" by (simp add: pool_at_def pool_inv_def)
  then show "\<exists>x. on_db (getLogEntry F i) u = (Val x, u)"
    by (simp add: getLogEntry_def storage_defs stmt_ok usable_log_def on_db_def)
qed

lemma elects_last_term:
  assumes "pool_at F T n"
  shows "elects F T n (t_getLastLogTerm F) (\<lambda>_ u. state u = state n)"
  unfolding t_getLastLogTerm_def
proof (rule pool.rg_bind [OF elects_last assms])
  fix i n1 assume n1: "pool_at F T n1" "state n1 = state n"
  have "elects F T n1 (tbind (t_db (getLogEntry F i)) (\<lambda>entry. tret (case entry of None \<Rightarrow> 0 | Some e \<Rightarrow> le_term e))) (\<lambda>_ u. state u = state n)"
    by (rule pool.rg_bind [OF elects_entry n1(1)], rule elects_ret) (use n1(2) in \<open>auto dest: same_state\<close>)
  moreover have "elects F T n1 (tret 0 :: int raft_thread) (\<lambda>_ u. state u = state n)"
    by (rule elects_ret) (use n1(2) in \<open>auto dest: same_state\<close>)
  ultimately show "elects F T n1 (if i > 0 then tbind (t_db (getLogEntry F i)) (\<lambda>entry. tret (case entry of None \<Rightarrow> 0 | Some e \<Rightarrow> le_term e)) else tret 0)
      (\<lambda>_ u. state u = state n)" by simp
qed

lemma elects_alone: "peers n = [] \<Longrightarrow> elects F T n (t_read (\<lambda>n. f (peers n))) (\<lambda>x u. state u = state n \<and> x = f [])"
  by (rule pool.emits_weaken [OF elects_read]) (auto simp: extends_def)

lemma elects_becomeLeader:
  assumes "pool_at F T n" and "peers n = []" and "currentRole (state n) \<noteq> LEADER" and "currentTerm (state n) = T"
  shows "elects F T n (t_becomeLeader F) (\<lambda>_ u. state u = role_becomeLeader (state n))"
  unfolding t_becomeLeader_def
proof (rule pool.rg_bind [OF elects_state [where h = role_becomeLeader]], goal_cases)
  case (4 x n1)
  show ?case
  proof (rule pool.rg_bind [OF elects_last 4(2)], rule pool.rg_bind [where P = "\<lambda>ids u. state u = role_becomeLeader (state n) \<and> ids = []"])
    fix l n2 assume n2: "extends False n1 n2" "pool_at F T n2" "state n2 = state n1"
    have "peers n2 = []" using assms(2) 4(1) n2(1) by (simp add: extends_def)
    then show "elects F T n2 (t_read (\<lambda>n. map fst (peers n))) (\<lambda>ids u. state u = role_becomeLeader (state n) \<and> ids = [])"
      using pool.emits_weaken [OF elects_alone [where f = "map fst" and n = n2 and F = F and T = T]] n2(3) 4(3) by simp
    fix ids :: "string list" and n3 :: raft_node assume n3: "state n3 = role_becomeLeader (state n) \<and> ids = []"
    have "elects F T n3 (tret () :: unit raft_thread) (\<lambda>_ u. state u = role_becomeLeader (state n))"
      by (rule elects_ret) (use n3 same_state in auto)
    then show "elects F T n3 (t_for_each (\<lambda>id. tbind (t_modify (\<lambda>n. n\<lparr>nextIndex := AList.update id (l + 1) (nextIndex n)\<rparr>)) (\<lambda>_.
        t_modify (\<lambda>n. n\<lparr>matchIndex := AList.update id 0 (matchIndex n)\<rparr>))) ids) (\<lambda>_ u. state u = role_becomeLeader (state n))"
      using n3 by simp
  qed
qed (use assms in simp_all)

lemma elects_electionCallback:
  assumes "pool_at F T n" and "peers n = []" and "currentRole (state n) \<noteq> LEADER" and "currentTerm (state n) = T"
  shows "elects F T n (t_electionCallback F) (\<lambda>_ u. currentRole (state u) = LEADER)"
  unfolding t_electionCallback_def
proof (rule pool.emits_catch, rule pool.rg_bind [where P = "\<lambda>fs u. state u = state n \<and> fs = []"])
  show "elects F T n (t_read voteFutures) (\<lambda>fs u. state u = state n \<and> fs = [])"
    using elects_alone [OF assms(2), where f = "map (\<lambda>p. Future_Value (fst p))"] by (simp add: voteFutures_def [abs_def])
  fix fs :: "joined list" and n1 assume n1: "extends False n n1" "pool_at F T n1" and fs: "state n1 = state n \<and> fs = []"
  have alone: "peers n1 = []" using assms(2) n1(1) by (simp add: extends_def)
  have "elects F T n1 (tbind (t_read peersSize) (\<lambda>n_peers. if quorum (0 + 1) n_peers then t_becomeLeader F else tret ()))
      (\<lambda>_ u. currentRole (state u) = LEADER)"
  proof (rule pool.rg_bind [where P = "\<lambda>p u. state u = state n1 \<and> p = 0", OF _ n1(2)])
    show "elects F T n1 (t_read peersSize) (\<lambda>p u. state u = state n1 \<and> p = 0)"
      using elects_alone [OF alone, where f = "\<lambda>ps. int (length ps)"] by (simp add: peersSize_def [abs_def])
    fix p n2 assume n2: "extends False n1 n2" "pool_at F T n2" and p: "state n2 = state n1 \<and> p = (0 :: int)"
    have "elects F T n2 (t_becomeLeader F) (\<lambda>_ u. state u = role_becomeLeader (state n2))"
      by (rule elects_becomeLeader [OF n2(2)]) (use alone n2(1) p fs assms(3,4) in \<open>simp_all add: extends_def\<close>)
    then have "elects F T n2 (t_becomeLeader F) (\<lambda>_ u. currentRole (state u) = LEADER)" by (rule pool.emits_weaken) simp
    then show "elects F T n2 (if quorum (0 + 1) p then t_becomeLeader F else tret ()) (\<lambda>_ u. currentRole (state u) = LEADER)"
      using p by (simp add: quorum_def)
  qed
  then show "elects F T n1 (tbind (Halt (count_true fs)) (\<lambda>k. tbind (t_read peersSize) (\<lambda>n_peers.
      if quorum (k + 1) n_peers then t_becomeLeader F else tret ()))) (\<lambda>_ u. currentRole (state u) = LEADER)"
    using fs by simp
qed (simp_all add: assms(1))

text \<open>A node that leads in term \<open>T\<close>, or will after its next election.\<close>

definition electable :: "int \<Rightarrow> raft_node \<Rightarrow> bool" where
  "electable T n \<longleftrightarrow> (currentRole (state n) = LEADER \<and> currentTerm (state n) = T) \<or>
     (currentRole (state n) \<noteq> LEADER \<and> jlong (currentTerm (state n) + 1) = T)"

lemma elects_startElection:
  assumes "pool_at F T n" and "peers n = []" and "currentRole (state n) \<noteq> LEADER" and "jlong (currentTerm (state n) + 1) = T"
  shows "elects F T n (t_startElection F) (\<lambda>_ u. currentRole (state u) = LEADER)"
  unfolding t_startElection_def
proof (rule pool.rg_bind [OF elects_becomeCandidate [OF assms(1,3)] assms(1)],
    rule pool.rg_bind [where P = "\<lambda>_ u. state u = becomeCandidate (state n)"], goal_cases)
  case (1 x n1)
  then show ?case by (intro elects_modify) (simp add: pool_at_def pool_inv_def extends_def)
next
  case (3 x n1 y n2)
  show ?case
  proof (rule pool.rg_bind [OF elects_last 3(5)], rule pool.rg_bind [OF elects_last_term], assumption, assumption,
      rule pool.rg_bind [where P = "\<lambda>ids u. state u = becomeCandidate (state n) \<and> ids = []"])
    fix l n3 t n4 assume n3: "extends False n2 n3" "state n3 = state n2" and n4: "extends False n3 n4" "pool_at F T n4" "state n4 = state n3"
    have alone: "peers n4 = []" using assms(2) 3(1,4) n3(1) n4(1) by (simp add: extends_def)
    show "elects F T n4 (t_read (\<lambda>n. map fst (peers n))) (\<lambda>ids u. state u = becomeCandidate (state n) \<and> ids = [])"
      using elects_alone [OF alone, where f = "map fst" and F = F and T = T] n4(3) n3(2) 3(6) by simp
    fix ids :: "string list" and n5 assume n5: "extends False n4 n5" "pool_at F T n5" "state n5 = becomeCandidate (state n) \<and> ids = []"
    have "elects F T n5 (t_electionCallback F) (\<lambda>_ u. currentRole (state u) = LEADER)"
      by (rule elects_electionCallback [OF n5(2)]) (use alone n5 assms(4) in \<open>simp_all add: extends_def\<close>)
    then show "elects F T n5 (tbind (t_for_each (\<lambda>p. t_submit (Vote_Task p l t)) ids) (\<lambda>_.
        if ids = [] then t_electionCallback F else t_modify (\<lambda>n. n\<lparr>tasks := tasks n @ [Election_Callback]\<rparr>)))
        (\<lambda>_ u. currentRole (state u) = LEADER)"
      using n5(3) by simp
  qed
qed

lemma elects_leaderElectionTask:
  assumes "pool_at F T n" and "peers n = []" and "electable T n"
  shows "elects F T n (t_leaderElectionTask F) (\<lambda>_ u. currentRole (state u) = LEADER)"
  unfolding t_leaderElectionTask_def
proof (rule pool.rg_bind [OF elects_read assms(1)])
  fix r n1 assume n1: "extends False n n1" "pool_at F T n1" "state n1 = state n \<and> (\<exists>w. extends True n w \<and> r = currentRole (state w))"
  have r: "r = currentRole (state n1)" using n1(3) same_state by metis
  have "peers n1 = []" using n1(1) assms(2) by (simp add: extends_def)
  moreover have "r \<noteq> LEADER \<Longrightarrow> jlong (currentTerm (state n1) + 1) = T" using assms(3) n1(3) r by (simp add: electable_def)
  ultimately have "elects F T n1 (t_startElection F) (\<lambda>_ u. currentRole (state u) = LEADER)" if "r \<noteq> LEADER"
    using elects_startElection [OF n1(2)] r that by simp
  moreover have "elects F T n1 (tret () :: unit raft_thread) (\<lambda>_ u. currentRole (state u) = LEADER)" if "r = LEADER"
    by (rule elects_leading) (use r that in simp)
  ultimately show "elects F T n1 (if r \<noteq> LEADER then t_startElection F else tret ()) (\<lambda>_ u. currentRole (state u) = LEADER)"
    by simp
qed

lemma elects_ticks:
  assumes "pool_at F T n" and "peers n = []" and "electable T n"
  shows "elects F T n (t_for_each (\<lambda>_. t_leaderElectionTask F) (replicate (Suc k) ())) (\<lambda>_ u. currentRole (state u) = LEADER)"
  using assms
proof (induction k arbitrary: n)
  case 0
  show ?case
    unfolding replicate.simps t_for_each.simps
    by (rule pool.rg_bind [OF elects_leaderElectionTask [OF 0] 0(1)], rule elects_leading)
next
  case (Suc k)
  show ?case
    unfolding replicate.simps(2) [of "Suc k"] t_for_each.simps
  proof (rule pool.rg_bind [OF elects_leaderElectionTask [OF Suc.prems] Suc.prems(1)])
    fix u assume u: "extends False n u" "pool_at F T u" "currentRole (state u) = LEADER"
    show "elects F T u (t_for_each (\<lambda>_. t_leaderElectionTask F) (replicate (Suc k) ())) (\<lambda>_ u. currentRole (state u) = LEADER)"
      by (rule Suc.IH [OF u(2)]) (use Suc.prems(2) u in \<open>simp_all add: extends_def electable_def pool_at_def\<close>)
  qed
qed

section \<open>Heartbeats\<close>

lemma pool_submit: "pool.rg F T st False n (t_submit t) (\<lambda>_ _. True)"
  unfolding t_submit_def
  by (rule pool.rg_atomic) (auto simp: submit_def pool_at_def pool_inv_def extends_def)

lemma pool_heartbeatTask:
  assumes "pool_at F T n"
  shows "pool.rg F T st False n t_heartbeatTask (\<lambda>_ _. True)"
  unfolding t_heartbeatTask_def
proof (rule pool.rg_bind [where P = "\<lambda>_ _. True", OF pool_read assms])
  fix r n1 assume n1: "pool_at F T n1"
  have "pool.rg F T st False n1 (tbind (t_read (\<lambda>n. map fst (peers n))) (t_for_each (\<lambda>p. t_submit (Send_Task p)))) (\<lambda>_ _. True)"
    by (rule pool.rg_bind [where P = "\<lambda>_ _. True", OF pool_read n1], simp, rule pool_for_each, rule pool_submit)
  then show "pool.rg F T st False n1 (if r = LEADER then tbind (t_read (\<lambda>n. map fst (peers n))) (t_for_each (\<lambda>p. t_submit (Send_Task p))) else tret ())
      (\<lambda>_ _. True)"
    by (simp add: pool_ret)
qed simp

section \<open>The jobs of a node without peers\<close>

text \<open>The jobs that such a node has: puts and gets, elections and heartbeats; its worker pool has nothing to do.\<close>

fun alone_job :: "job \<Rightarrow> bool" where
  "alone_job (Serve (Put k v)) \<longleftrightarrow> True"
| "alone_job (Serve (Get k)) \<longleftrightarrow> True"
| "alone_job (Heartbeat_Ticks k) \<longleftrightarrow> True"
| "alone_job _ \<longleftrightarrow> False"

definition job_emitted :: "int \<Rightarrow> job \<Rightarrow> reply option \<Rightarrow> log_entry multiset" where
  "job_emitted T j r = (case (j, r) of (Serve c, Some x) \<Rightarrow> emitted T c x | _ \<Rightarrow> {#})"

definition job_answered :: "job \<Rightarrow> reply option \<Rightarrow> raft_node \<Rightarrow> bool" where
  "job_answered j r n = (case j of Serve c \<Rightarrow> \<exists>x. r = Some x \<and> answered False c x n | _ \<Rightarrow> r = None)"

lemma answered_later:
  assumes "answered st c r n" and "extends st n m"
  shows "answered st c r m"
proof (cases c)
  case (Get k)
  have "set (node_log n) \<subseteq> set (node_log m)" using assms(2) by (auto simp: extends_def)
  then show ?thesis using assms(1) unfolding answered_def Get call.case by blast
qed (use assms proposal_kept_later in \<open>auto simp: answered_def\<close>)

lemma pool_alone_job:
  assumes "pool_at F T n" and "alone_job j"
  shows "pool.emits F T False False n (t_job F j) {#} (job_emitted T j) (job_answered j)"
  using assms(2)
proof (cases j)
  case (Serve c)
  have "pool.emits F T False False n (t_call F c) {#} (emitted T c) (answered False c)"
    by (rule pool_call [OF assms(1)]) (use assms(2) Serve in auto)
  then show ?thesis
    unfolding t_job_def Serve job.case
    by (rule pool.emits_bind [OF _ assms(1)], intro pool_ret)
      (auto simp: job_answered_def job_emitted_def intro: answered_later)
next
  case (Heartbeat_Ticks k)
  show ?thesis
    unfolding t_job_def Heartbeat_Ticks job.case
    by (rule pool.rg_bind [OF pool_for_each], rule pool_heartbeatTask, assumption, rule assms(1), rule assms(1), rule pool_ret)
      (simp_all add: job_answered_def job_emitted_def)
qed auto

lemma elects_job:
  assumes "pool_at F T n" and "peers n = []" and "electable T n"
  shows "elects F T n (t_job F (Election_Ticks (Suc k))) (\<lambda>r u. r = None \<and> currentRole (state u) = LEADER)"
  unfolding t_job_def job.case
proof (rule pool.rg_bind [OF elects_ticks [OF assms] assms(1)])
  fix u :: raft_node assume "currentRole (state u) = LEADER"
  then show "elects F T u (tret None :: reply option raft_thread) (\<lambda>r u. r = None \<and> currentRole (state u) = LEADER)"
    by (intro elects_ret) (auto simp: extends_def)
qed

lemma compatible_calls: "pool.compatible st (replicate k False)"
  by (auto simp: pool.compatible_def intro: extends_fixed)

lemma compatible_elector: "pool.compatible False (True # replicate k False)"
  unfolding pool.compatible_def by (auto simp: nth_Cons' intro: extends_fixed)

end
