(* ===== verification/Recovery.thy ===== *)
theory Recovery
  imports Election_Pool
begin

text \<open>
  What a put that runs alone makes of a node that interleaved calls have left behind, and what a new process makes
  of the database of one that was stopped at any statement.
\<close>

section \<open>One put alone\<close>

lemma for_each_append: "for_each f (xs @ ys) n = bind (for_each f xs) (\<lambda>_. for_each f ys) n"
  by (induction xs arbitrary: n) (auto simp: bind_def split: prod.split outcome.split)

text \<open>Checking the last index of a node without peers commits and applies everything.\<close>

lemma commit_check_last:
  assumes "pool_at F T n" and "node_log n \<noteq> []" and "le_term (last (node_log n)) = currentTerm (state n)" and "peers n = []"
    and "l = int (length (node_log n))"
  shows "commit_check F l n = (Val (), commit_to l n)"
proof -
  have u: "usable F n" "0 \<le> node_applied n" using assms(1) by (simp_all add: pool_at_def pool_inv_def)
  have "on_db (getLogEntry F l) n = (Val (Some (last (node_log n))), n)"
    using assms(2,5) by (cases "node_log n") (simp_all add: node_store.get_entry [OF u(1)] last_conv_nth)
  moreover have "quorum (replicationCount n l) (peersSize n)" using assms(4) by (simp add: quorum_def replicationCount_def peersSize_def)
  moreover have "applyCommittedEntries F (n\<lparr>storage := with_commit l (storage n)\<rparr>) = (Val (), commit_to l n)"
    unfolding commit_to_def by (rule applyCommittedEntries_ok) (use assms(1,5) in \<open>simp_all add: pool_at_def pool_inv_def\<close>)
  ultimately show ?thesis using assms(3) by (simp add: commit_check_def node_index_ops [OF u(1)])
qed

lemma commit_to_last:
  assumes "pool_inv F n" and "l = int (length (node_log n))"
  shows "node_log (commit_to l n) = node_log n" "node_commit (commit_to l n) = l" "node_applied (commit_to l n) = l"
    and "kv_store (storage (commit_to l n)) = replay (drop (nat (node_applied n)) (node_log n)) (kv_store (storage n))"
    and "state (commit_to l n) = state n" "peers (commit_to l n) = peers n"
  using assms by (auto simp: commit_to_def apply_committed_def pool_inv_def)

text \<open>The checks before it leave the log alone.\<close>

lemma checks_alone:
  assumes "pool_at F T n" and "0 \<le> c" and "l \<le> int (length (node_log n))"
  shows "\<exists>u. for_each (commit_check F) [c + 1..l] n = (Val (), u) \<and> pool_at F T u \<and> node_log u = node_log n \<and> state u = state n \<and> peers u = peers n"
proof -
  have "pool.rg F T True False n (t_for_each (t_commit_check F) [c + 1..l]) (\<lambda>_ _. True)"
  proof (rule pool_for_each [OF _ assms(1)])
    fix i u assume i: "i \<in> set [c + 1..l]" and u: "extends True n u" "pool_at F T u"
    show "pool.rg F T True False u (t_commit_check F i) (\<lambda>_ _. True)"
      by (rule pool_commit_check [OF u(2)]) (use i assms(2,3) extends_length [OF u(1)] in auto)
  qed
  from pool.emits_alone [OF this assms(1)] obtain u where u: "for_each (commit_check F) [c + 1..l] n = (Val (), u)" "pool_at F T u"
    "extends True n u" "mset (node_log u) = mset (node_log n)"
    by auto
  obtain es where "node_log u = node_log n @ es" using u(3) by (auto simp: extends_def)
  then have "node_log u = node_log n" using u(4) by simp
  then show ?thesis using u(1-3) by (auto simp: extends_def)
qed

lemma updateCommitIndex_alone:
  assumes "pool_at F T n" and "node_log n \<noteq> []" and "le_term (last (node_log n)) = currentTerm (state n)" and "peers n = []"
    and "node_commit n < int (length (node_log n))"
  shows "\<exists>m. updateCommitIndex F n = (Val (), m) \<and> pool_inv F m \<and> node_log m = node_log n \<and> state m = state n \<and> peers m = [] \<and>
    node_commit m = int (length (node_log n)) \<and> node_applied m = int (length (node_log n))"
proof -
  let ?l = "int (length (node_log n))" and ?c = "node_commit n"
  have u: "usable F n" "0 \<le> ?c" using assms(1) by (simp_all add: pool_at_def pool_inv_def)
  have split: "[?c + 1..?l] = [?c + 1..?l - 1] @ [?l]"
    using upto_rec2 [of "?c + 1" ?l] assms(5) by simp
  obtain v where v: "for_each (commit_check F) [?c + 1..?l - 1] n = (Val (), v)" "pool_at F T v" "node_log v = node_log n"
    "state v = state n" "peers v = peers n"
    using checks_alone [OF assms(1) u(2), of "?l - 1"] by auto
  have last: "commit_check F ?l v = (Val (), commit_to ?l v)" by (rule commit_check_last [OF v(2)]) (use assms(2-4) v(3-5) in simp_all)
  have "\<exists>m. for_each (commit_check F) [?l - 1 + 1..?l] v = (Val (), m) \<and> pool_at F T m"
    using checks_alone [OF v(2), of "?l - 1" ?l] v(3) assms(2) by auto
  then have "pool_inv F (commit_to ?l v)" using last by (auto simp: pool_at_def)
  moreover have "updateCommitIndex F n = (Val (), commit_to ?l v)"
    unfolding updateCommitIndex_def using v(1) last
    by (simp add: node_store.last_index [OF u(1)] node_index_ops [OF u(1)] split for_each_append)
  moreover have "pool_inv F v" using v(2) by (simp add: pool_at_def)
  ultimately show ?thesis using commit_to_last [of F v ?l] v(3-5) assms(4) by auto
qed

lemma put_alone:
  assumes "pool_inv F n" and "currentRole (state n) = LEADER" and "peers n = []"
  shows "\<exists>m. service_put F k v n = (Val \<lparr>pr_success = True, pr_old_value = ''''\<rparr>, m) \<and> pool_inv F m \<and> state m = state n \<and> peers m = [] \<and>
    node_log m = node_log n @ [new_entry (currentTerm (state n)) k v] \<and>
    node_commit m = int (length (node_log m)) \<and> node_applied m = int (length (node_log m)) \<and>
    (node_commit n = int (length (node_log n)) \<and> node_applied n = int (length (node_log n)) \<longrightarrow>
      kv_store (storage m) = (kv_store (storage n))(k \<mapsto> v))"
proof -
  let ?e = "new_entry (currentTerm (state n)) k v"
  have at: "pool_at F (currentTerm (state n)) n" using assms(1) by (simp add: pool_at_def)
  obtain p where p: "on_db (appendLogEntry F ?e) n = (Val (int (length (node_log n)) + 1), p)" "usable F p"
    "node_log p = node_log n @ [?e]" "rest_node p = rest_node n"
    using node_store.append_entry [OF pool_usable [OF at], of ?e] by (auto simp: new_entry_def)
  note same = rest_node_eq [OF p(4)] rest_db_eq [of "storage p" "storage n"]
  have at_p: "pool_at F (currentTerm (state n)) p" by (rule pool_at_grows [OF at p(2-4)])
  have behind: "node_commit p < int (length (node_log p))" using same assms(1) p(3) by (simp add: pool_inv_def)
  obtain m where m: "updateCommitIndex F p = (Val (), m)" "pool_inv F m" "node_log m = node_log p" "state m = state p" "peers m = []"
    "node_commit m = int (length (node_log p))" "node_applied m = int (length (node_log p))"
    using updateCommitIndex_alone [OF at_p _ _ _ behind] p(3) same assms(3) by (auto simp: new_entry_def)
  have put: "service_put F k v n = (Val \<lparr>pr_success = True, pr_old_value = ''''\<rparr>, m)"
    using assms(2,3) p(1) m(1) same
    by (simp add: service_put_def proposeEntry_def replicateEntry_def node_store.last_index [OF p(2)])
  have "kv_store (storage m) = (kv_store (storage n))(k \<mapsto> v)"
    if upto: "node_commit n = int (length (node_log n)) \<and> node_applied n = int (length (node_log n))"
  proof -
    let ?l = "int (length (node_log p))"
    have "commit_check F ?l p = (Val (), commit_to ?l p)"
      by (rule commit_check_last [OF at_p]) (use p(3) same assms(3) in \<open>simp_all add: new_entry_def\<close>)
    moreover have "node_commit p + 1 = ?l" using upto same p(3) by simp
    then have "[node_commit p + 1..?l] = [?l]" by (simp only: upto_single)
    ultimately have "updateCommitIndex F p = (Val (), commit_to ?l p)"
      by (simp add: updateCommitIndex_def node_store.last_index [OF p(2)] node_index_ops [OF p(2)])
    then have "m = commit_to ?l p" using m(1) by simp
    then show ?thesis
      using commit_to_last(4) [of F p ?l] at_p upto same p(3) by (simp add: pool_at_def new_entry_def)
  qed
  with put m p(3) same show ?thesis by (intro exI [of _ m]) simp
qed

text \<open>When everything counts as applied, every logged key is answered with a value that was logged for it.\<close>

lemma all_keys_shown:
  assumes "pool_inv F n" and "node_applied n = int (length (node_log n))" and "e \<in> set (node_log n)"
  shows "\<exists>e'\<in>set (node_log n). le_key e' = le_key e \<and> service_get F (le_key e) n = (Val \<lparr>gr_value = le_value e', gr_found = True\<rparr>, n)"
proof -
  obtain i where "i < length (node_log n)" "node_log n ! i = e" using assms(3) by (auto simp: in_set_conv_nth)
  then obtain v where v: "kv_store (storage n) (le_key e) = Some v" using assms(1,2) by (fastforce simp: pool_inv_def)
  then obtain e' where "e' \<in> set (node_log n)" "le_key e' = le_key e" "le_value e' = v" using assms(1) unfolding pool_inv_def by blast
  moreover have "usable F n" using assms(1) by (simp add: pool_inv_def)
  ultimately show ?thesis using v by (auto simp: service_get_ok answer_def)
qed

section \<open>A new process\<close>

text \<open>The database as the next process finds it and opens it.\<close>

lemma restart_pool:
  assumes "pool_inv F n" and "connects url"
  shows "\<exists>d. SQLiteStorage F connects url ((storage n)\<lparr>conn_open := False\<rparr>) = (Val (), d) \<and>
    pool_inv F (RaftNode rnd i [] d) \<and> log_entries d = node_log n"
proof -
  let ?rows = "[\<lparr>st_lastApplied = 0, st_commitIndex = 0, st_currentTerm = 0, st_votedFor = None\<rparr>]"
  let ?d = "(storage n)\<lparr>conn_open := True, state_rows := state_rows (storage n) @ ?rows\<rparr>"
  have "accepts F" "state_rows (storage n) \<noteq> []" using assms(1) by (simp_all add: pool_inv_def usable_log_def)
  then have "SQLiteStorage F connects url ((storage n)\<lparr>conn_open := False\<rparr>) = (Val (), ?d)"
    and "commit_of ?d = node_commit n" "applied_of ?d = node_applied n" "log_entries ?d = node_log n" "usable_log F ?d"
    using SQLiteStorage_ok [of F connects url] assms
    by (auto simp: commit_of_def applied_of_def log_entries_def usable_log_def pool_inv_def split: list.split)
  moreover from this have "pool_inv F (RaftNode rnd i [] ?d)"
    using assms(1) \<open>state_rows (storage n) \<noteq> []\<close> by (simp add: pool_inv_def)
  ultimately show ?thesis by blast
qed

text \<open>It elects itself and takes one put.\<close>

lemma restarted_serves:
  assumes "pool_inv F (RaftNode rnd i [] d)"
  shows "\<exists>n m. leaderElectionTask F (RaftNode rnd i [] d) = (Val (), n) \<and>
    service_put F k v n = (Val \<lparr>pr_success = True, pr_old_value = ''''\<rparr>, m) \<and> pool_inv F m \<and>
    node_log m = log_entries d @ [new_entry 1 k v] \<and> node_applied m = int (length (node_log m))"
proof -
  let ?n = "RaftNode rnd i [] d"
  have u: "usable F ?n" using assms by (simp add: pool_inv_def)
  have alone: "peers ?n = []" using RaftNode_peers(2) [of rnd i "[]" d] by simp
  obtain n where n: "startElection F ?n = (Val (), n)" "state n = role_becomeLeader (becomeCandidate (state ?n))" "storage n = d"
    "peers n = []" "running n" "nextIndex n = []"
    using startElection_alone [OF u alone] by auto
  have "pool_inv F n" using assms n(3,5,6) by (simp add: pool_inv_def)
  moreover have "currentRole (state n) = LEADER" "currentTerm (state n) = 1" using n(2) by (simp_all add: jlong_def)
  ultimately obtain m where "service_put F k v n = (Val \<lparr>pr_success = True, pr_old_value = ''''\<rparr>, m)" "pool_inv F m"
    "node_log m = node_log n @ [new_entry 1 k v]" "node_applied m = int (length (node_log m))"
    using put_alone [of F n k v] n(4) by auto
  moreover have "leaderElectionTask F ?n = (Val (), n)" using n(1) by (simp add: leaderElectionTask_def)
  ultimately show ?thesis using n(3) by auto
qed

end
