(* ===== verification/Interrupted_Puts.thy ===== *)
theory Interrupted_Puts
  imports Recovery
begin

text \<open>
  Puts that stop at certain statements and go on later, on a leader without peers: how far a put goes alone, and what two of them
  leave behind when one puts the commit index back.
\<close>

section \<open>How far a put goes\<close>

text \<open>What a put still has to do after the commitment.\<close>

definition answer_put :: "unit raft_thread \<Rightarrow> reply raft_thread" where
  "answer_put t = tbind (tbind t (\<lambda>_. tret True)) (\<lambda>success. tret (Put_Reply \<lparr>pr_success = success, pr_old_value = ''''\<rparr>))"

lemma put_begins:
  assumes "usable F n" and "currentRole (state n) = LEADER" and "peers n = []"
  shows "\<exists>p. usable F p \<and> node_log p = node_log n @ [new_entry (currentTerm (state n)) k v] \<and> rest_node p = rest_node n \<and>
    goes (t_call F (Put k v)) n (answer_put (t_for_each (t_commit_check F) [node_commit n + 1..int (length (node_log n)) + 1])) p"
proof -
  let ?e = "new_entry (currentTerm (state n)) k v"
  obtain p where p: "on_db (appendLogEntry F ?e) n = (Val (int (length (node_log n)) + 1), p)" "usable F p"
    "node_log p = node_log n @ [?e]" "rest_node p = rest_node n"
    using node_store.append_entry [OF assms(1), of ?e] by (auto simp: new_entry_def)
  note same = rest_node_eq [OF p(4)] rest_db_eq [of "storage p" "storage n"]
  have "goes (t_updateCommitIndex F) p (t_for_each (t_commit_check F) [node_commit n + 1..int (length (node_log n)) + 1]) p"
    unfolding t_updateCommitIndex_def
    by (rule goes_bind, simp add: node_store.last_index [OF p(2)], rule goes_bind, simp add: node_index_ops [OF p(2)])
      (use same p(3) goes_refl in \<open>simp add: add.commute\<close>)
  then have "goes (t_replicateEntry F) p (tbind (t_for_each (t_commit_check F) [node_commit n + 1..int (length (node_log n)) + 1]) (\<lambda>_. tret True)) p"
    unfolding t_replicateEntry_def
    by (intro goes_bind [of "t_read _" p "[]" p] goes_bind [of "t_for_each _ []" p "()" p] goes_nested) (use same assms(3) in simp_all)
  then have "goes (t_proposeEntry F k v) n (tbind (t_for_each (t_commit_check F) [node_commit n + 1..int (length (node_log n)) + 1]) (\<lambda>_. tret True)) p"
    unfolding t_proposeEntry_def
    by (intro goes_bind [of "t_read _" n LEADER n]) (use assms(2) p in
      \<open>auto intro!: goes_bind [of "t_read (\<lambda>n. currentTerm (state n))"] goes_bind [of "t_db _"] simp: node_store.last_index [OF p(2)]\<close>)
  then have "goes (t_call F (Put k v)) n (answer_put (t_for_each (t_commit_check F) [node_commit n + 1..int (length (node_log n)) + 1])) p"
    unfolding answer_put_def t_call_def call.case by (rule goes_nested)
  with p show ?thesis by blast
qed

text \<open>Checking an entry of its own term: the index is moved next.\<close>

abbreviation t_commit_to :: "faults \<Rightarrow> int \<Rightarrow> unit raft_thread" where
  "t_commit_to F i \<equiv> tbind (t_db (setCommitIndex F i)) (\<lambda>_. t_applyCommittedEntries F)"

lemma check_begins:
  assumes "usable F n" and "peers n = []" and "1 \<le> i" and "i \<le> int (length (node_log n))"
    and "le_term (node_log n ! nat (i - 1)) = currentTerm (state n)"
  shows "goes (t_commit_check F i) n (t_commit_to F i) n"
proof -
  have "quorum (replicationCount n i) (peersSize n)" using assms(2) by (simp add: quorum_def replicationCount_def peersSize_def)
  then show ?thesis
    unfolding t_commit_check_def
    by (intro goes_bind [of "t_db _" n "Some (node_log n ! nat (i - 1))" n] goes_bind [of "t_deref _" n "node_log n ! nat (i - 1)" n]
        goes_bind [of "t_read _" n "currentTerm (state n)" n])
      (use assms in \<open>auto simp: node_store.get_entry intro!: goes_bind [of "t_read _"] goes_refl\<close>)
qed

lemma goes_answer: "goes t s u w \<Longrightarrow> goes (answer_put (tbind t f)) s (answer_put (tbind u f)) w"
  unfolding answer_put_def by (intro goes_nested)

lemma goes_answer_part: "run_alone t s = (Val (), w) \<Longrightarrow> goes (answer_put (tbind t f)) s (answer_put (f ())) w"
  unfolding answer_put_def by (intro goes_nested, rule goes_bind) (auto intro: goes_refl)

text \<open>A part of a put that is applied when the indices agree changes nothing.\<close>

lemma apply_nothing:
  assumes "usable F n" and "0 \<le> node_applied n" and "node_applied n \<le> int (length (node_log n))" and "node_commit n = node_applied n"
  shows "goes (answer_put (tbind (t_applyCommittedEntries F) (\<lambda>_. tret ()))) n (tret (Put_Reply \<lparr>pr_success = True, pr_old_value = ''''\<rparr>))
    (n\<lparr>storage := with_applied (node_applied n) (storage n)\<rparr>)"
proof -
  have "run_alone (t_applyCommittedEntries F) n = (Val (), n\<lparr>storage := with_applied (node_applied n) (storage n)\<rparr>)"
    using assms by (simp add: applyCommittedEntries_ok apply_committed_def)
  from goes_answer_part [OF this, of "\<lambda>_. tret ()"] show ?thesis by (simp add: answer_put_def)
qed

text \<open>What is left of a put before it moves the commit index, and after.\<close>

abbreviation about_to_commit :: "faults \<Rightarrow> int \<Rightarrow> reply raft_thread" where
  "about_to_commit F i \<equiv> answer_put (tbind (t_commit_to F i) (\<lambda>_. tret ()))"

abbreviation about_to_apply :: "faults \<Rightarrow> reply raft_thread" where
  "about_to_apply F \<equiv> answer_put (tbind (t_applyCommittedEntries F) (\<lambda>_. tret ()))"

lemma moves_index: "usable F n \<Longrightarrow> goes (about_to_commit F i) n (about_to_apply F) (n\<lparr>storage := with_commit i (storage n)\<rparr>)"
  by (intro goes_answer, rule goes_bind) (auto simp: node_index_ops intro: goes_refl)

section \<open>Two puts\<close>

text \<open>
  The first put stops before it moves the commit index to its entry; the second logs its own, commits and applies that of the first,
  moves the index to its own, and stops before it applies it; the first moves the index back; then both go on.
\<close>

lemma first_put:
  assumes "usable F n" and "currentRole (state n) = LEADER" and "peers n = []" and "node_commit n = int (length (node_log n))"
  shows "\<exists>p. usable F p \<and> node_log p = node_log n @ [new_entry (currentTerm (state n)) k v] \<and> rest_node p = rest_node n \<and>
    goes (t_call F (Put k v)) n (about_to_commit F (int (length (node_log n)) + 1)) p"
proof -
  let ?N = "int (length (node_log n))"
  obtain p where p: "usable F p" "node_log p = node_log n @ [new_entry (currentTerm (state n)) k v]" "rest_node p = rest_node n"
    "goes (t_call F (Put k v)) n (answer_put (t_for_each (t_commit_check F) [?N + 1..?N + 1])) p"
    using put_begins [OF assms(1-3), of k v] assms(4) by auto
  note same = rest_node_eq [OF p(3)]
  have "goes (answer_put (t_for_each (t_commit_check F) [?N + 1..?N + 1])) p (about_to_commit F (?N + 1)) p"
    by (simp, intro goes_answer check_begins) (use p same assms in \<open>simp_all add: nth_append new_entry_def\<close>)
  with p(4) have "goes (t_call F (Put k v)) n (about_to_commit F (?N + 1)) p" by (rule goes_trans)
  with p show ?thesis by blast
qed

lemma second_put:
  assumes "usable F p" and "currentRole (state p) = LEADER" and "peers p = []" and "state_rows (storage p) \<noteq> []"
    and "node_log p = l @ [e]" and "le_term e = currentTerm (state p)" and "N = int (length l)" and "node_commit p = N" and "node_applied p = N"
  shows "\<exists>c. goes (t_call F (Put k v)) p (about_to_apply F) (c\<lparr>storage := with_commit (N + 2) (storage c)\<rparr>) \<and> usable F c \<and>
    node_log c = node_log p @ [new_entry (currentTerm (state p)) k v] \<and> node_applied c = N + 1 \<and> state_rows (storage c) \<noteq> [] \<and>
    kv_store (storage c) = (kv_store (storage p))(le_key e \<mapsto> le_value e)"
proof -
  obtain q where q: "usable F q" "node_log q = l @ [e, new_entry (currentTerm (state p)) k v]" "rest_node q = rest_node p"
    "goes (t_call F (Put k v)) p (answer_put (t_for_each (t_commit_check F) [N + 1..N + 2])) q"
    using put_begins [OF assms(1-3), of k v] assms(5,7,8) by (auto simp: add.commute)
  note same = rest_node_eq [OF q(3)] rest_db_eq [of "storage q" "storage p"]
  let ?c = "commit_to (N + 1) q"
  have range: "[N + 1..N + 2] = [N + 1, N + 2]" by (simp add: upto.simps)
  have part: "commit_check F (N + 1) q = (Val (), ?c)"
    using q(1,2) same assms(3-9) by (simp add: commit_check_def node_store.get_entry node_index_ops applyCommittedEntries_ok commit_to_def nth_append
      quorum_def replicationCount_def peersSize_def)
  have c: "usable F ?c" "node_log ?c = l @ [e, new_entry (currentTerm (state p)) k v]" "state ?c = state p" "peers ?c = []" "node_applied ?c = N + 1"
    "kv_store (storage ?c) = (kv_store (storage p))(le_key e \<mapsto> le_value e)" "state_rows (storage ?c) \<noteq> []"
    using q(1,2) same assms(3-9) by (simp_all add: commit_to_def apply_committed_def nat_add_distrib)
  have "goes (answer_put (t_for_each (t_commit_check F) [N + 1..N + 2])) q (answer_put (t_for_each (t_commit_check F) [N + 2])) ?c"
    unfolding range t_for_each.simps by (rule goes_answer_part) (simp add: part)
  also have "goes (answer_put (t_for_each (t_commit_check F) [N + 2])) ?c (about_to_commit F (N + 2)) ?c"
    unfolding t_for_each.simps
    by (intro goes_answer check_begins) (use c assms(7) in \<open>simp_all add: nth_append new_entry_def nat_add_distrib\<close>)
  also note moves_index [OF c(1), of "N + 2"]
  finally have "goes (t_call F (Put k v)) p (about_to_apply F) (?c\<lparr>storage := with_commit (N + 2) (storage ?c)\<rparr>)" by (rule goes_trans [OF q(4)])
  with c assms(5) show ?thesis by (intro exI [of _ ?c]) simp
qed

lemma commit_put_back:
  assumes "usable F n" and "currentRole (state n) = LEADER" and "peers n = []" and "N = int (length (node_log n))"
    and "node_commit n = N" and "node_applied n = N" and "state_rows (storage n) \<noteq> []"
  shows "\<exists>m. pool_step\<^sup>*\<^sup>* (map (t_call F) [Put k v, Put k' v'], n) (replicate 2 (tret (Put_Reply \<lparr>pr_success = True, pr_old_value = ''''\<rparr>)), m) \<and>
    usable F m \<and> node_log m = node_log n @ [new_entry (currentTerm (state n)) k v, new_entry (currentTerm (state n)) k' v'] \<and>
    node_commit m = N + 1 \<and> node_applied m = N + 1 \<and> kv_store (storage m) = (kv_store (storage n))(k \<mapsto> v)"
proof -
  let ?e = "new_entry (currentTerm (state n)) k v" and ?e' = "new_entry (currentTerm (state n)) k' v'"
  let ?reply = "tret (Put_Reply \<lparr>pr_success = True, pr_old_value = ''''\<rparr>)" and ?put = "t_call F (Put k v)" and ?put' = "t_call F (Put k' v')"
  let ?commit = "about_to_commit F (N + 1)" and ?apply = "about_to_apply F"
  obtain p where p: "usable F p" "node_log p = node_log n @ [?e]" "rest_node p = rest_node n" "goes ?put n ?commit p"
    using first_put [OF assms(1-3), of k v] assms(4,5) by auto
  have same: "state p = state n" "peers p = []" "state_rows (storage p) \<noteq> []" "node_commit p = N" "node_applied p = N"
    "kv_store (storage p) = kv_store (storage n)"
    using rest_node_eq [OF p(3)] rest_db_eq [of "storage p" "storage n"] assms by simp_all
  obtain c where c: "goes ?put' p ?apply (c\<lparr>storage := with_commit (N + 2) (storage c)\<rparr>)" "usable F c" "node_log c = node_log n @ [?e, ?e']"
    "node_applied c = N + 1" "state_rows (storage c) \<noteq> []" "kv_store (storage c) = (kv_store (storage n))(k \<mapsto> v)"
    using second_put [OF p(1) _ same(2,3) p(2), of N k' v'] same assms(2,4) p(2) by (auto simp: new_entry_def)
  let ?d = "c\<lparr>storage := with_commit (N + 2) (storage c)\<rparr>" and ?b = "c\<lparr>storage := with_commit (N + 1) (with_commit (N + 2) (storage c))\<rparr>"
  have moved_back: "goes ?commit ?d ?apply ?b" using moves_index [of F ?d "N + 1"] c(2) by simp
  let ?m = "\<lambda>u. u\<lparr>storage := with_applied (node_applied u) (storage u)\<rparr>"
  have ends: "goes ?apply ?b ?reply (?m ?b)" "goes ?apply (?m ?b) ?reply (?m (?m ?b))"
    by (rule apply_nothing; use c assms(4) in simp)+
  have run1: "pool_step\<^sup>*\<^sup>* ([?put, ?put'], n) ([?commit, ?put'], p)" using goes_pool [OF p(4), where i = 0 and ts = "[?put, ?put']"] by simp
  have run2: "pool_step\<^sup>*\<^sup>* ([?commit, ?put'], p) ([?commit, ?apply], ?d)" using goes_pool [OF c(1), where i = 1 and ts = "[?commit, ?put']"] by simp
  have run3: "pool_step\<^sup>*\<^sup>* ([?commit, ?apply], ?d) ([?apply, ?apply], ?b)" using goes_pool [OF moved_back, where i = 0 and ts = "[?commit, ?apply]"] by simp
  have run4: "pool_step\<^sup>*\<^sup>* ([?apply, ?apply], ?b) ([?apply, ?reply], ?m ?b)"
    using goes_pool [OF ends(1), where i = 1 and ts = "[?apply, ?apply]"] by simp
  have run5: "pool_step\<^sup>*\<^sup>* ([?apply, ?reply], ?m ?b) ([?reply, ?reply], ?m (?m ?b))"
    using goes_pool [OF ends(2), where i = 0 and ts = "[?apply, ?reply]"] by simp
  have "pool_step\<^sup>*\<^sup>* (map (t_call F) [Put k v, Put k' v'], n) (replicate 2 ?reply, ?m (?m ?b))"
    using rtranclp_trans [OF run1 rtranclp_trans [OF run2 rtranclp_trans [OF run3 rtranclp_trans [OF run4 run5]]]] by (simp add: numeral_2_eq_2)
  then show ?thesis by (rule exI [of _ "?m (?m ?b)", OF conjI]) (use c in simp)
qed

end
