(* ===== verification/Server_Properties.thy ===== *)
theory Server_Properties
  imports Kv_Server
begin

text \<open>
  The properties of the server: the Raft node's log, commitment and elections, the storage, and
  the service in front of them, each with an application to a concrete node.
\<close>

section \<open>Concrete nodes\<close>

text \<open>A fresh database of an engine that accepts every statement; a leader of term 2 with two peers and one entry.\<close>

abbreviation no_faults :: faults where
  "no_faults \<equiv> \<lambda>_ _. False"

definition fresh_db :: db where
  "fresh_db = \<lparr>conn_open = True, kv_store = Map.empty, logs = [],
     state_rows = [\<lparr>st_lastApplied = 0, st_commitIndex = 0, st_currentTerm = 0, st_votedFor = None\<rparr>]\<rparr>"

definition one_entry_db :: db where
  "one_entry_db = fresh_db\<lparr>logs := [\<lparr>row_index = 1, row_term = 2, row_key = ''k'', row_value = ''v''\<rparr>]\<rparr>"

definition sample_node :: "string list \<Rightarrow> db \<Rightarrow> raft_node" where
  "sample_node ps d = RaftNode (\<lambda>_. 7) ''a:1'' ps d"

definition sample_leader :: raft_node where
  "sample_leader = (sample_node [''b'', ''c''] one_entry_db)\<lparr>state := \<lparr>currentRole = LEADER, currentTerm = 2, rs_votedFor = None\<rparr>\<rparr>"

lemma accepts_no_faults [simp]: "accepts no_faults"
  by (simp add: accepts_def)

lemma sample_dbs [simp]:
  "usable_log no_faults fresh_db" "usable_log no_faults one_entry_db"
  "log_entries fresh_db = []" "log_entries one_entry_db = [new_entry 2 ''k'' ''v'']"
  "commit_of fresh_db = 0" "applied_of fresh_db = 0" "commit_of one_entry_db = 0" "applied_of one_entry_db = 0"
  "kv_store fresh_db = Map.empty" "kv_store one_entry_db = Map.empty"
  "state_rows fresh_db \<noteq> []" "state_rows one_entry_db \<noteq> []"
  by (simp_all add: fresh_db_def one_entry_db_def usable_log_def log_entries_def entry_of_def commit_of_def applied_of_def)

lemma sample_node_simps [simp]:
  "storage (sample_node ps d) = d" "running (sample_node ps d)" "state (sample_node ps d) = newRaftState"
  "tasks (sample_node ps d) = []" "nextIndex (sample_node ps d) = []" "matchIndex (sample_node ps d) = []"
  "distinct (map fst (peers (sample_node ps d)))" "peers (sample_node [] d) = []"
  by (simp_all add: sample_node_def RaftNode_peers) (simp add: RaftNode_def)

lemma sample_peers [simp]: "map fst (peers (sample_node [''b'', ''c''] d)) = [''b'', ''c'']"
  by (simp add: sample_node_def RaftNode_def Let_def)

lemma sample_leader_simps [simp]:
  "storage sample_leader = one_entry_db" "running sample_leader" "currentTerm (state sample_leader) = 2"
  "currentRole (state sample_leader) = LEADER" "nextIndex sample_leader = []" "matchIndex sample_leader = []"
  "map fst (peers sample_leader) = [''b'', ''c'']" "tasks sample_leader = []"
  by (simp_all add: sample_leader_def)

lemma sample_invs [simp]:
  "node_inv no_faults sample_leader" "send_inv no_faults sample_leader"
  "node_inv no_faults (sample_node ps fresh_db)" "running_inv no_faults (sample_node ps fresh_db)"
  by (simp_all add: node_inv_def send_inv_def running_inv_def)

lemma matching_single: "matching [a] [b] \<longleftrightarrow> le_term a \<noteq> le_term b \<or> a = b"
  by (auto simp: matching_def)

section \<open>Receiving entries\<close>

text \<open>
  C10. A message of an older term is refused and leaves the node as it was. A message whose
  previous entry is missing or has another term is refused too: then the node has taken over the
  term and restarted its timer, and its log, indices and table are as before.
\<close>

theorem appendEntries_rejects:
  assumes "usable F n" and "running n"
    and "tm < currentTerm (state n) \<or> \<not> prev_matches n prev prev_term"
  shows "\<exists>m. appendEntries F leader tm prev prev_term es leaderCommit n = (Val False, m) \<and> storage m = storage n \<and>
    (if tm < currentTerm (state n) then m = n
     else currentTerm (state m) = tm \<and> electionTimer m = Some (150 + random n (random_calls n)) \<and>
       (if tm > currentTerm (state n) then currentRole (state m) = FOLLOWER \<and> votedFor m = None else state m = state n))"
  using assms(3) by (auto simp: appendEntries_cases [OF assms(1,2)] not_less)

theorem appendEntries_rejects_witness:
  "\<exists>m. appendEntries no_faults ''b'' 3 1 1 [] 1 sample_leader = (Val False, m) \<and> storage m = one_entry_db \<and>
     currentTerm (state m) = 3 \<and> currentRole (state m) = FOLLOWER"
  using appendEntries_rejects [of no_faults sample_leader 3 1 1 "''b''" "[]" 1]
  by (auto simp: prev_matches_def new_entry_def)

text \<open>
  C8. A message that is not refused, and does not contradict a committed entry: the log becomes
  the log with the received entries spliced in, the commit index follows the leader's as far as the
  log goes, and the node stays consistent, with the table the replay of the applied entries.
\<close>

theorem appendEntries_accepts:
  assumes "node_inv F n" and "running n" and "currentTerm (state n) \<le> tm" and "prev_matches n prev prev_term" and "0 \<le> prev"
    and "\<forall>j<length es. nat prev + j < nat (node_commit n) \<longrightarrow> le_term (node_log n ! (nat prev + j)) = le_term (es ! j)"
  shows "\<exists>m. appendEntries F leader tm prev prev_term es leaderCommit n = (Val True, m) \<and> node_inv F m \<and>
    node_log m = log_splice (node_log n) (nat prev) es \<and>
    node_commit m = (if leaderCommit > node_commit n then min leaderCommit (int (length (node_log m))) else node_commit n) \<and>
    currentTerm (state m) = tm"
  using appendEntries_ok [OF assms] by blast

theorem appendEntries_accepts_witness:
  "\<exists>m. appendEntries no_faults ''b'' 4 0 0 [new_entry 3 ''x'' ''1'', new_entry 4 ''y'' ''2''] 1 sample_leader = (Val True, m) \<and>
     node_log m = [new_entry 3 ''x'' ''1'', new_entry 4 ''y'' ''2''] \<and> node_commit m = 1 \<and> currentTerm (state m) = 4"
  using appendEntries_accepts [of no_faults sample_leader 4 0 0 "[new_entry 3 ''x'' ''1'', new_entry 4 ''y'' ''2'']" "''b''" 1]
  by (auto simp: prev_matches_def new_entry_def)

text \<open>
  C9. Log matching: when equal terms at equal positions mean equal entries, a node that receives the
  rest of the leader's log after a position up to which both agree has the leader's log as a prefix of
  its own.
\<close>

theorem appendEntries_follows_leader:
  assumes "node_inv F n" and "running n" and "currentTerm (state n) \<le> tm"
    and "i \<le> length leader_log" and "i \<le> length (node_log n)" and "take i (node_log n) = take i leader_log"
    and "matching (node_log n) leader_log" and "\<forall>e\<in>set leader_log. le_index e = 0"
    and "nat (node_commit n) \<le> i"
  shows "\<exists>m. appendEntries F leader tm (int i) (if i = 0 then 0 else le_term (leader_log ! (i - 1))) (drop i leader_log) leaderCommit n =
    (Val True, m) \<and> node_inv F m \<and> take (length leader_log) (node_log m) = leader_log"
proof -
  have "le_term (node_log n ! (i - 1)) = le_term (leader_log ! (i - 1))" if "i > 0"
    using assms(6) that by (metis diff_less less_numeral_extra(1) nth_take)
  then have match: "prev_matches n (int i) (if i = 0 then 0 else le_term (leader_log ! (i - 1)))"
    using assms(5) by (simp add: prev_matches_def nat_diff_distrib)
  have stored: "\<forall>e\<in>set leader_log. stored e = e"
    using assms(8) by (auto simp: new_entry_def)
  have keep: "\<forall>j<length (drop i leader_log). nat (int i) + j < nat (node_commit n) \<longrightarrow>
      le_term (node_log n ! (nat (int i) + j)) = le_term (drop i leader_log ! j)"
    using assms(9) by auto
  have "0 \<le> int i" by simp
  from appendEntries_ok [OF assms(1-3) match this keep, of leader leaderCommit] show ?thesis
    using log_splice_leader [OF assms(6,4,5,7) stored] by auto
qed

theorem appendEntries_follows_leader_witness:
  "\<exists>m. appendEntries no_faults ''b'' 3 0 0 [new_entry 3 ''x'' ''1''] 1 sample_leader = (Val True, m) \<and>
     take 1 (node_log m) = [new_entry 3 ''x'' ''1'']"
  using appendEntries_follows_leader [of no_faults sample_leader 3 0 "[new_entry 3 ''x'' ''1'']" "''b''" 1]
  by (auto simp: matching_single new_entry_def)

text \<open>
  C34. The commit index follows the leader's up to the end of the receiver's own log, not up to the
  last entry that the message covers: a heartbeat without entries that agrees only on the empty prefix
  commits and applies the whole log of the receiver, whatever the leader's log is.
\<close>

theorem heartbeat_commits_unchecked_entries:
  assumes "node_inv F n" and "running n" and "currentTerm (state n) \<le> tm"
    and "node_commit n < int (length (node_log n))" and "int (length (node_log n)) \<le> leaderCommit"
  shows "\<exists>m. appendEntries F leader tm 0 0 [] leaderCommit n = (Val True, m) \<and> node_log m = node_log n \<and>
    node_commit m = int (length (node_log n)) \<and> kv_store (storage m) = replay (node_log n) Map.empty"
proof -
  have "prev_matches n 0 0" by (simp add: prev_matches_def)
  from appendEntries_ok [OF assms(1-3) this, of "[]" leader leaderCommit]
  obtain m where m: "appendEntries F leader tm 0 0 [] leaderCommit n = (Val True, m)" "node_inv F m" "node_log m = node_log n"
    "node_commit m = int (length (node_log n))" "advances (storage n) (storage m)"
    using assms(4,5) by auto
  then have "node_applied m = node_commit m" using assms(4) by (auto simp: advances_def)
  then show ?thesis using m by (auto simp: node_inv_def)
qed

theorem heartbeat_commits_unchecked_entries_witness:
  "\<exists>m. appendEntries no_faults ''b'' 2 0 0 [] 9 sample_leader = (Val True, m) \<and>
     node_commit m = 1 \<and> kv_store (storage m) ''k'' = Some ''v''"
  using heartbeat_commits_unchecked_entries [of no_faults sample_leader 2 9 "''b''"] by (auto simp: new_entry_def)

section \<open>Committing\<close>

text \<open>
  C12. A leader moves its commit index to the last entry after it that is of the leader's term and
  held by enough followers, or leaves it; the log stays, and everything up to the index is applied
  when it moves.
\<close>

theorem updateCommitIndex_spec:
  assumes "node_inv F n"
  shows "\<exists>m. updateCommitIndex F n = (Val (), m) \<and> node_inv F m \<and> node_log m = node_log n \<and>
    node_commit m = Max (insert (node_commit n) {i. node_commit n < i \<and> i \<le> int (length (node_log n)) \<and> committable n i}) \<and>
    (node_commit m = node_commit n \<or> node_applied m = node_commit m)"
proof -
  obtain d where d: "updateCommitIndex F n = (Val (), n\<lparr>storage := d\<rparr>)" "node_inv F (n\<lparr>storage := d\<rparr>)"
    "log_entries d = node_log n" "commit_of d = commit_target n" "advances (storage n) d"
    using updateCommitIndex_ok [OF assms] by blast
  then show ?thesis by (auto simp: commit_target_Max advances_def)
qed

theorem updateCommitIndex_spec_witness:
  "\<exists>m. updateCommitIndex no_faults (sample_leader\<lparr>matchIndex := [(''b'', 1)]\<rparr>) = (Val (), m) \<and> node_commit m = 1 \<and>
     kv_store (storage m) ''k'' = Some ''v''"
proof -
  let ?n = "sample_leader\<lparr>matchIndex := [(''b'', 1)]\<rparr>"
  have peers: "length (peers sample_leader) = 2" using sample_leader_simps(7) by (metis length_map length_Cons list.size(3) numeral_2_eq_2)
  have "{i. 0 < i \<and> i \<le> 1 \<and> committable ?n i} = {1}"
    using peers by (auto simp: committable_def quorum_def replicationCount_def peersSize_def new_entry_def)
  moreover have "node_inv no_faults ?n" using sample_invs(1) by (simp add: node_inv_def)
  ultimately show ?thesis using updateCommitIndex_spec [of no_faults ?n] by (auto simp: node_inv_def new_entry_def)
qed

text \<open>
  C13. On a leader, a proposal is appended, committed and applied within the call, and every entry
  of the log is applied with it; no message to a peer is needed, since entries are sent by calling the
  node's own \<open>appendEntries\<close>.
\<close>

theorem proposeEntry_commits_locally:
  assumes "send_inv F n" and "currentRole (state n) = LEADER" and "distinct (map fst (peers n))"
  shows "\<exists>m. proposeEntry F k v n = (Val True, m) \<and> send_inv F m \<and> state m = state n \<and>
    node_log m = node_log n @ [new_entry (currentTerm (state n)) k v] \<and>
    node_commit m = int (length (node_log m)) \<and> node_applied m = node_commit m \<and>
    kv_store (storage m) = replay (node_log m) Map.empty"
  using proposeEntry_ok [OF assms] by blast

theorem proposeEntry_commits_locally_witness:
  "\<exists>m. proposeEntry no_faults ''x'' ''1'' sample_leader = (Val True, m) \<and> node_commit m = 2 \<and>
     kv_store (storage m) ''x'' = Some ''1'' \<and> kv_store (storage m) ''k'' = Some ''v''"
  using proposeEntry_commits_locally [of no_faults sample_leader "''x''" "''1''"] by (auto simp: new_entry_def)

section \<open>Invariants of a running node\<close>

text \<open>
  C4. As long as each method runs to its end before the next one begins, and no entries arrive from another node: whatever the scheduled tasks, the timer,
  the worker pool and the clients do, in any order of methods and with any answers to vote requests, a node that starts on a consistent, working database keeps its log
  numbered from 1 without gaps, keeps \<open>0 \<le> lastApplied \<le> commitIndex \<le> last log index\<close>, and keeps its key-value
  table equal to the replay of the log up to \<open>lastApplied\<close>. When the statements of methods interleave, the table is not the replay in
  general (\<open>late_apply_loses_value\<close>); what holds then is \<open>concurrent_calls_consistent\<close>.
\<close>

theorem node_stays_consistent:
  assumes "usable_log F d" and "state_rows d \<noteq> []" and "commit_of d \<le> int (length (log_entries d))"
    and "0 \<le> applied_of d" and "applied_of d \<le> commit_of d"
    and "kv_store d = replay (take (nat (applied_of d)) (log_entries d)) Map.empty"
    and "(local_step F)\<^sup>*\<^sup>* (RaftNode rnd i ps d) n"
  shows "indexed (logs (storage n)) \<and> 0 \<le> node_applied n \<and> node_applied n \<le> node_commit n \<and>
    node_commit n \<le> int (length (node_log n)) \<and>
    kv_store (storage n) = replay (take (nat (node_applied n)) (node_log n)) Map.empty"
proof -
  have "running_inv F (RaftNode rnd i ps d)"
    using assms(1-6) RaftNode_peers(1) by (simp add: running_inv_def send_inv_def node_inv_def)
  from server_steps.inv_reachable [OF this assms(7)] show ?thesis
    by (simp add: running_inv_def send_inv_def node_inv_def usable_log_def)
qed

theorem node_stays_consistent_witness:
  "\<exists>n. local_step no_faults (RaftNode (\<lambda>_. 7) ''a:1'' [] fresh_db) n \<and>
     kv_store (storage n) = replay (take (nat (node_applied n)) (node_log n)) Map.empty"
proof -
  let ?n = "RaftNode (\<lambda>_. 7) ''a:1'' [] fresh_db"
  obtain r m where m: "leaderElectionTask no_faults ?n = (r, m)" by fastforce
  then have step: "local_step no_faults ?n m" by (intro local_step.tick) simp_all
  then have "(local_step no_faults)\<^sup>*\<^sup>* ?n m" by blast
  with step node_stays_consistent [of no_faults fresh_db "\<lambda>_. 7" "''a:1''" "[]" m] show ?thesis by auto
qed

text \<open>
  A node that has a peer never becomes the leader: not by any sequence of its own steps, of
  received entries and of answers to its vote requests, be the votes granted or not.
\<close>

theorem node_with_peers_never_leads:
  assumes "ps \<noteq> []" and "(node_step F)\<^sup>*\<^sup>* (RaftNode rnd i ps d) n"
  shows "currentRole (state n) \<noteq> LEADER"
proof -
  have "set (map fst (peers (RaftNode rnd i ps d))) \<noteq> {}" using assms(1) RaftNode_peers(2) by simp
  then have "peers (RaftNode rnd i ps d) \<noteq> []" by auto
  with followers.inv_reachable [OF _ assms(2)] show ?thesis by simp
qed

theorem node_with_peers_never_leads_witness:
  "\<exists>n. startElection no_faults (sample_node [''b''] fresh_db) = (Val (), n) \<and> currentRole (state n) \<noteq> LEADER"
proof -
  let ?n = "RaftNode (\<lambda>_. 7) ''a:1'' [''b''] fresh_db"
  have "peers ?n \<noteq> []" using RaftNode_peers(2) [of "\<lambda>_. 7" "''a:1''" "[''b'']" fresh_db] by force
  then obtain m where m: "startElection no_faults ?n = (Val (), m)"
    using startElection_with_peers [of no_faults ?n] by auto
  then have "node_step no_faults ?n m"
    by (intro node_step.own local_step.tick [where r = "Val ()"]) (simp_all add: leaderElectionTask_def)
  then have "(node_step no_faults)\<^sup>*\<^sup>* ?n m" by blast
  with node_with_peers_never_leads [of "[''b'']" no_faults "\<lambda>_. 7" "''a:1''" fresh_db m] m show ?thesis
    by (simp add: sample_node_def)
qed

section \<open>Elections\<close>

text \<open>
  An election of a node with peers: the term goes up by one, wrapping at \<open>Long.MAX_VALUE\<close>, the
  node votes for itself, and exactly one request goes to every peer with the position of the last
  log entry, followed by the count of the votes.
\<close>

theorem startElection_requests_votes:
  assumes "usable F n" and "running n" and "peers n \<noteq> []"
  shows "startElection F n = (Val (), n\<lparr>state := (state n)\<lparr>currentRole := CANDIDATE, currentTerm := jlong (currentTerm (state n) + 1)\<rparr>,
    votedFor := Some (nodeId n),
    tasks := tasks n @ map (\<lambda>p. Vote_Task p (int (length (node_log n)))
        (if node_log n = [] then 0 else le_term (last (node_log n)))) (map fst (peers n)) @ [Election_Callback]\<rparr>)"
  using startElection_with_peers [OF assms] by (simp add: becomeCandidate_def)

theorem startElection_requests_votes_witness:
  "\<exists>m. startElection no_faults sample_leader = (Val (), m) \<and> currentTerm (state m) = 3 \<and>
     tasks m = [Vote_Task ''b'' 1 2, Vote_Task ''c'' 1 2, Election_Callback]"
proof -
  have "peers sample_leader \<noteq> []" using sample_leader_simps(7) by force
  with startElection_requests_votes [of no_faults sample_leader] show ?thesis
    by (simp add: new_entry_def jlong_def)
qed

text \<open>
  C33. A method of a node that runs without interference by another thread does not lower the term, as long as the next term is still a \<open>long\<close>:
  none of the scheduled tasks, the timer, the tasks of the pool, the proposals, the received entries and the shutdown does, on any
  database and with any answers to vote requests. With interference the term can go back (\<open>vote_answers_lower_term\<close>).
\<close>

theorem terms_never_decrease:
  assumes "node_step F n m" and "is_long (currentTerm (state n) + 1)"
  shows "currentTerm (state n) \<le> currentTerm (state m)"
  using assms by (rule node_step_terms)

theorem terms_never_decrease_witness:
  "2 \<le> currentTerm (state (snd (appendEntries no_faults ''b'' 5 0 0 [] 0 sample_leader)))"
proof -
  obtain b m where m: "appendEntries no_faults ''b'' 5 0 0 [] 0 sample_leader = (b, m)" by fastforce
  then have "node_step no_faults sample_leader m" by (rule node_step.receive)
  from terms_never_decrease [OF this] m show ?thesis by (simp add: is_long_def)
qed

text \<open>
  The test \<open>count > peers.size() / 2\<close> of elections and of commitment, where the cluster has one
  node more than peers: two disjoint groups can both pass it exactly when the number of peers is odd.
\<close>

theorem quorums_can_be_disjoint:
  "(\<exists>a b. quorum a (int k) \<and> quorum b (int k) \<and> a + b \<le> int k + 1) \<longleftrightarrow> odd k"
  by (rule quorum_overlap)

text \<open>
  Every accepted message of the current term restarts the election timer with a timeout of at
  least 150 and less than 300 milliseconds; after the scheduler's shutdown it is rejected instead.
\<close>

theorem election_timeout_bounds:
  assumes "0 \<le> random n (random_calls n)" and "random n (random_calls n) < 150"
  shows "\<exists>m. resetElectionTimer n = (if running n then Val () else Exc RejectedExecutionException, m) \<and>
    (if running n then \<exists>t. electionTimer m = Some t \<and> 150 \<le> t \<and> t < 300 else electionTimer m = None)"
  using assms by (simp add: resetElectionTimer_def)

theorem election_timeout_bounds_witness:
  "\<exists>m t. resetElectionTimer (sample_node [] fresh_db) = (Val (), m) \<and> electionTimer m = Some t \<and> 150 \<le> t \<and> t < 300"
  using election_timeout_bounds [of "sample_node [] fresh_db"]
  by (auto simp: sample_node_def RaftNode_def Let_def)

section \<open>Storage\<close>

text \<open>
  An appended entry gets the next index, which is then the last one, and reading that index
  returns its term, key and value; the earlier entries, the table and the indices are untouched.
\<close>

theorem append_then_read:
  assumes "usable_log F d"
  shows "\<exists>i d'. appendLogEntry F e d = (Val i, d') \<and> getLastLogIndex F d' = (Val i, d') \<and>
    getLogEntry F i d' = (Val (Some (new_entry (le_term e) (le_key e) (le_value e))), d') \<and>
    (\<forall>j. j < i \<longrightarrow> fst (getLogEntry F j d') = fst (getLogEntry F j d)) \<and> rest_db d' = rest_db d"
proof -
  obtain d' where d': "appendLogEntry F e d = (Val (int (length (log_entries d)) + 1), d')" "usable_log F d'"
    "log_entries d' = log_entries d @ [new_entry (le_term e) (le_key e) (le_value e)]" "rest_db d' = rest_db d"
    using sqlite.append_entry [OF assms, of e] by blast
  then show ?thesis
    using sqlite.get_entry [OF assms] sqlite.get_entry [OF d'(2)] sqlite.last_index [OF d'(2)]
    by (auto simp: nth_append nat_less_iff)
qed

theorem append_then_read_witness:
  "\<exists>d'. appendLogEntry no_faults (new_entry 5 ''x'' ''1'') one_entry_db = (Val 2, d') \<and>
     getLogEntry no_faults 2 d' = (Val (Some (new_entry 5 ''x'' ''1'')), d') \<and>
     fst (getLogEntry no_faults 1 d') = Val (Some (new_entry 2 ''k'' ''v''))"
proof -
  have last: "fst (appendLogEntry no_faults (new_entry 5 ''x'' ''1'') one_entry_db) = Val 2"
    by (auto simp: appendLogEntry_def stmt_def one_entry_db_def fresh_db_def Let_def)
  have one: "fst (getLogEntry no_faults 1 one_entry_db) = Val (Some (new_entry 2 ''k'' ''v''))"
    by (simp add: getLogEntry_def stmt_def one_entry_db_def fresh_db_def entry_of_def)
  from append_then_read [of no_faults one_entry_db "new_entry 5 ''x'' ''1''"] last one show ?thesis
    by (auto simp: new_entry_def)
qed

text \<open>
  A database engine that rejects the definition of the \<open>logs\<close> table, as an engine does in whose
  grammar the column name \<open>index\<close> is a reserved word, keeps every server from starting, with any
  configuration and on any file.
\<close>

theorem rejected_schema_stops_server:
  assumes "\<forall>d. db_faults env d Create_Logs"
  shows "\<exists>e. fst (KVStoreServer env config d) = Exc e"
proof -
  have storage: "\<exists>e d'. SQLiteStorage (db_faults env) connects url d = (Exc e, d')" for connects url d
    using assms
    by (cases "db_faults env (d\<lparr>conn_open := True\<rparr>) Create_Kv")
       (auto simp: SQLiteStorage_def initializeDatabase_def stmt_def bind_def or_throw_def try_catch_def)
  have port: "\<exists>p. config_port config = Val p \<or> (\<exists>e. config_port config = Exc e)"
    by (auto simp: config_port_def parseInt_def Let_def split: option.split list.split)
  obtain e d' where "(case cfg_storagePath config of None \<Rightarrow> throw (RuntimeException ''Failed to initialize database'')
      | Some path \<Rightarrow> SQLiteStorage (db_faults env) (db_connects env) path) d = (Exc e, d')"
    using storage by (cases "cfg_storagePath config") (simp_all, blast)
  then show ?thesis using port by (auto simp: KVStoreServer_def)
qed

theorem rejected_schema_stops_server_witness:
  "\<exists>e. fst (KVStoreServer \<lparr>db_faults = (\<lambda>_ q. q = Create_Logs), db_connects = (\<lambda>_. True), grpc_builds = (\<lambda>_. True),
      grpc_binds = (\<lambda>_. True), math_random = (\<lambda>_. 0)\<rparr>
    \<lparr>cfg_nodeId = Some ''a:1'', cfg_peers = [], cfg_storagePath = Some ''jdbc:sqlite:a.db''\<rparr> fresh_db) = Exc e"
  by (rule rejected_schema_stops_server) simp

end
