(* ===== verification/Thread_Properties.thy ===== *)
theory Thread_Properties
  imports Interrupted_Puts Server_Properties
begin

text \<open>
  The properties of calls that interleave: what every interleaving keeps and answers, that all of them
  end, that a call on its own is the atomic step of the other theories, and what two puts of one key can
  leave behind.
\<close>

section \<open>Samples\<close>

definition alone_leader :: raft_node where
  "alone_leader = (sample_node [] fresh_db)\<lparr>state := \<lparr>currentRole = LEADER, currentTerm = 1, rs_votedFor = None\<rparr>\<rparr>"

lemma alone_leader_simps [simp]:
  "storage alone_leader = fresh_db" "running alone_leader" "nextIndex alone_leader = []" "peers alone_leader = []"
  "currentRole (state alone_leader) = LEADER"
  by (simp_all add: alone_leader_def)

lemma alone_leader_pool [simp]: "pool_inv no_faults alone_leader"
  by (simp add: pool_inv_def)

lemma sample_leader_pool [simp]: "pool_inv no_faults sample_leader"
  by (simp add: pool_inv_def)

section \<open>Every interleaving\<close>

lemma calls_keep:
  assumes "pool_inv F n" and "pool_step\<^sup>*\<^sup>* (map (t_call F) cs, n) (us, m)"
  shows "pool_inv F m" "extends True n m" "length us = length cs"
    and "i < length cs \<Longrightarrow> us ! i = Halt r \<Longrightarrow> \<exists>x. r = Val x \<and> answered True (cs ! i) x m"
    and "(\<And>i. i < length cs \<Longrightarrow> us ! i = Halt (Val (x i))) \<Longrightarrow>
      mset (node_log m) = mset (node_log n) + (\<Sum>i\<leftarrow>[0..<length cs]. emitted (currentTerm (state n)) (cs ! i) (x i))"
proof -
  let ?T = "currentTerm (state n)" and ?ks = "replicate (length cs) False"
  have at: "pool_at F ?T n" using assms(1) by (simp add: pool_at_def)
  have kinds: "length ?ks = length (map (t_call F) cs)" "pool.compatible True ?ks" by (simp, rule compatible_calls)
  have calls: "pool.emits F ?T True (?ks ! i) n (map (t_call F) cs ! i) {#} (emitted ?T (cs ! i)) (answered True (cs ! i))"
    if "i < length (map (t_call F) cs)" for i
    using that pool_call [OF at, of _ True] by (simp add: steady_def)
  note keeps = pool.pool_keeps [OF assms(2) at kinds calls]
  then show "pool_inv F m" "extends True n m" "length us = length cs" by (simp_all add: pool_at_def)
  then show "\<exists>x. r = Val x \<and> answered True (cs ! i) x m" if "i < length cs" "us ! i = Halt r"
    using pool.pool_result [OF assms(2) at kinds calls, of i r] that by simp
  show "mset (node_log m) = mset (node_log n) + (\<Sum>i\<leftarrow>[0..<length cs]. emitted ?T (cs ! i) (x i))"
    if "\<And>i. i < length cs \<Longrightarrow> us ! i = Halt (Val (x i))"
    using pool.pool_total [OF assms(2) at kinds calls, of x] that by simp
qed

text \<open>
  C7. Puts, gets and heartbeats that run on any number of threads of a node, however their statements
  interleave, keep the node consistent: the indices stay within the log, which only grows, the role and the
  term stay, and the table holds only proposed pairs. No call throws; a put that has ended answers success
  exactly on a leader, and its entry is in the log; a get answers with a value that was proposed for its key.
\<close>

theorem concurrent_calls_consistent:
  assumes "pool_inv F n" and "pool_step\<^sup>*\<^sup>* (map (t_call F) cs, n) (us, m)"
  shows "pool_inv F m \<and> (\<exists>es. node_log m = node_log n @ es) \<and> state m = state n \<and>
    (\<forall>i<length cs. \<forall>r. us ! i = Halt r \<longrightarrow> (\<exists>x. r = Val x \<and> answered True (cs ! i) x m))"
  using calls_keep [OF assms] by (auto simp: extends_def)

theorem concurrent_calls_consistent_witness:
  "\<exists>us m. pool_step\<^sup>*\<^sup>* (map (t_call no_faults) [Put ''a'' ''1'', Heartbeat ''b'', Get ''k''], sample_leader) (us, m) \<and>
     pool_inv no_faults m"
proof -
  let ?c = "(map (t_call no_faults) [Put ''a'' ''1'', Heartbeat ''b'', Get ''k''], sample_leader)"
  obtain us m where m: "schedule [0, 1, 2, 0, 1] ?c = (us, m)" by fastforce
  then have "pool_step\<^sup>*\<^sup>* ?c (us, m)" using schedule_steps [of ?c "[0, 1, 2, 0, 1]"] by simp
  moreover from this have "pool_inv no_faults m"
    using concurrent_calls_consistent [OF sample_leader_pool] by blast
  ultimately show ?thesis by blast
qed

section \<open>Termination\<close>

text \<open>The entries of the puts among some calls, which a leader logs in its term.\<close>

definition call_entries :: "raft_node \<Rightarrow> call \<Rightarrow> log_entry list" where
  "call_entries n c = (case c of Put k v \<Rightarrow> [new_entry (currentTerm (state n)) k v] | _ \<Rightarrow> [])"

definition put_entries :: "raft_node \<Rightarrow> call list \<Rightarrow> log_entry list" where
  "put_entries n cs = (if currentRole (state n) = LEADER then concat (map (call_entries n) cs) else [])"

lemma emitted_answered:
  assumes "answered True c x m" and "state m = state n"
  shows "emitted (currentTerm (state n)) c x = mset (put_entries n [c])"
  using assms by (auto simp: answered_def emitted_def proposed_def proposal_kept_def put_entries_def call_entries_def split: call.splits)

lemma mset_put_entries: "mset (put_entries n cs) = (\<Sum>c\<leftarrow>cs. mset (put_entries n [c]))"
  by (induction cs) (auto simp: put_entries_def)

lemma maximal_run_answered:
  assumes "pool_inv F n" and "maximal_run f" and "f 0 = (map (t_call F) cs, n)"
  shows "\<exists>i us m. f i = (us, m) \<and> (\<forall>j<length cs. \<exists>x. us ! j = Halt (Val x) \<and> answered True (cs ! j) x m) \<and>
    extends True n m \<and> mset (node_log m) = mset (node_log n) + mset (put_entries n cs)"
proof -
  obtain i where ended: "\<forall>t\<in>set (fst (f i)). \<exists>r. t = Halt r" using maximal_run_ends [OF assms(2)] by blast
  obtain us m where c: "f i = (us, m)" by fastforce
  have "pool_step\<^sup>*\<^sup>* (map (t_call F) cs, n) (us, m)"
    using maximal_run_steps [OF assms(2), of i] assms(3) c by simp
  note keep = calls_keep [OF assms(1) this]
  have "\<exists>x. us ! j = Halt (Val x) \<and> answered True (cs ! j) x m" if "j < length cs" for j
  proof -
    have "us ! j \<in> set us" using keep(3) that by simp
    then obtain r where r: "us ! j = Halt r" using ended c by auto
    then show ?thesis using keep(4) [OF that r] by blast
  qed
  then obtain x where x: "\<And>j. j < length cs \<Longrightarrow> us ! j = Halt (Val (x j)) \<and> answered True (cs ! j) (x j) m" by metis
  have "state m = state n" using keep(2) by (simp add: extends_def)
  then have "map (\<lambda>i. emitted (currentTerm (state n)) (cs ! i) (x i)) [0..<length cs] = map (\<lambda>c. mset (put_entries n [c])) cs"
    using x emitted_answered [of _ _ m n] by (intro nth_equalityI) simp_all
  then have "mset (node_log m) = mset (node_log n) + mset (put_entries n cs)"
    using keep(5) [of x] x mset_put_entries [of n cs] by simp
  then show ?thesis using c x keep(2) by blast
qed

text \<open>
  C14. Every interleaving of calls ends, whatever the scheduler does: it reaches a state in which all calls
  have been answered, with the answers that belong to them. The log has grown by exactly the entries of the
  puts, each once, in some order; on a node that does not lead it has not grown.
\<close>

theorem concurrent_calls_end:
  assumes "pool_inv F n" and "maximal_run f" and "f 0 = (map (t_call F) cs, n)"
  shows "\<exists>i us m es. f i = (us, m) \<and> (\<forall>j<length cs. \<exists>x. us ! j = Halt (Val x) \<and> answered True (cs ! j) x m) \<and>
    node_log m = node_log n @ es \<and> mset es = mset (put_entries n cs)"
proof -
  obtain i us m where m: "f i = (us, m)" "\<forall>j<length cs. \<exists>x. us ! j = Halt (Val x) \<and> answered True (cs ! j) x m"
    "extends True n m" "mset (node_log m) = mset (node_log n) + mset (put_entries n cs)"
    using maximal_run_answered [OF assms] by blast
  then obtain es where "node_log m = node_log n @ es" by (auto simp: extends_def)
  with m show ?thesis by (intro exI [of _ i] exI [of _ us] exI [of _ m] exI [of _ es]) simp
qed

theorem concurrent_calls_end_witness:
  "\<exists>f i us m es. maximal_run f \<and> f 0 = (map (t_call no_faults) [Put ''k'' ''v'', Get ''k'', Heartbeat ''b''], sample_leader) \<and>
     f i = (us, m) \<and> (\<exists>x. us ! 0 = Halt (Val x) \<and> answered True (Put ''k'' ''v'') x m) \<and>
     node_log m = node_log sample_leader @ es \<and> mset es = {#new_entry 2 ''k'' ''v''#}"
proof -
  let ?cs = "[Put ''k'' ''v'', Get ''k'', Heartbeat ''b'']"
  obtain f where f: "maximal_run f" "f 0 = (map (t_call no_faults) ?cs, sample_leader)" using maximal_run_exists by blast
  have "put_entries sample_leader ?cs = [new_entry 2 ''k'' ''v'']" by (simp add: put_entries_def call_entries_def)
  then show ?thesis using concurrent_calls_end [OF sample_leader_pool f] f by fastforce
qed

section \<open>What interleaved puts can leave behind\<close>

text \<open>
  Three puts, of which two write the same key. The first stops between reading the two indices and applying its
  entry; the second runs to its end, which applies both entries; the third stops after reading the indices; the
  first applies its entry and puts \<open>lastApplied\<close> back; the third goes on and puts it forward again.
\<close>

definition late_apply :: "nat list" where
  "late_apply = replicate 14 0 @ replicate 19 1 @ replicate 14 2 @ replicate 3 0 @ replicate 3 2"

definition late_calls :: "call list" where
  "late_calls = [Put ''k'' ''old'', Put ''k'' ''new'', Put ''x'' ''y'']"

definition after_late_apply :: raft_node where
  "after_late_apply = snd (schedule late_apply (map (t_call no_faults) late_calls, alone_leader))"

lemma late_apply_run:
  "map ended (fst (schedule late_apply (map (t_call no_faults) late_calls, alone_leader))) =
     replicate 3 (Some (Val (Put_Reply \<lparr>pr_success = True, pr_old_value = ''''\<rparr>)))"
  "map le_value (node_log after_late_apply) = [''old'', ''new'', ''y'']" "node_commit after_late_apply = 3"
  "node_applied after_late_apply = 3" "kv_store (storage after_late_apply) ''k'' = Some ''old''"
  by code_simp+

lemma after_late_apply_pool:
  "pool_inv no_faults after_late_apply" "state after_late_apply = state alone_leader" "peers after_late_apply = []"
proof -
  obtain us where "schedule late_apply (map (t_call no_faults) late_calls, alone_leader) = (us, after_late_apply)"
    by (metis after_late_apply_def prod.collapse)
  then have "pool_step\<^sup>*\<^sup>* (map (t_call no_faults) late_calls, alone_leader) (us, after_late_apply)"
    using schedule_steps [of "(map (t_call no_faults) late_calls, alone_leader)" late_apply] by simp
  from calls_keep(1,2) [OF alone_leader_pool this] show "pool_inv no_faults after_late_apply" "state after_late_apply = state alone_leader" "peers after_late_apply = []"
    by (simp_all add: extends_def alone_leader_def)
qed

text \<open>Some puts, one after the other.\<close>

fun put_all :: "faults \<Rightarrow> (string \<times> string) list \<Rightarrow> unit raft" where
  "put_all F [] = ret ()"
| "put_all F ((k, v) # ps) = bind (service_put F k v) (\<lambda>_. put_all F ps)"

lemma put_all_others:
  assumes "pool_inv F n" and "currentRole (state n) = LEADER" and "peers n = []"
    and "node_commit n = int (length (node_log n))" and "node_applied n = int (length (node_log n))" and "k \<notin> fst ` set ps"
  shows "\<exists>m. put_all F ps n = (Val (), m) \<and> pool_inv F m \<and> kv_store (storage m) k = kv_store (storage n) k"
  using assms
proof (induction F ps arbitrary: n rule: put_all.induct)
  case (2 F k' v ps)
  obtain m where m: "service_put F k' v n = (Val \<lparr>pr_success = True, pr_old_value = ''''\<rparr>, m)" "pool_inv F m" "state m = state n" "peers m = []"
    "node_commit m = int (length (node_log m))" "node_applied m = int (length (node_log m))"
    "kv_store (storage m) = (kv_store (storage n))(k' \<mapsto> v)"
    using put_alone [OF "2.prems"(1-3), of k' v] "2.prems"(4,5) by blast
  then show ?case using "2.IH" [of m] "2.prems"(2,6) by auto
qed simp

text \<open>
  C20. On a leader without peers, three puts can all succeed and leave, for a key that two of them wrote, the value of
  the entry that is earlier in the log, while all entries count as committed and applied. The later value is lost
  for good: however many puts of other keys follow, a get of the key answers with the earlier one.
\<close>

theorem late_apply_loses_value:
  "case schedule late_apply (map (t_call no_faults) [Put ''k'' ''old'', Put ''k'' ''new'', Put ''x'' ''y''], alone_leader) of (ts, n) \<Rightarrow>
     map ended ts = replicate 3 (Some (Val (Put_Reply \<lparr>pr_success = True, pr_old_value = ''''\<rparr>))) \<and>
     map le_value (node_log n) = [''old'', ''new'', ''y''] \<and> node_commit n = 3 \<and> node_applied n = 3 \<and>
     fst (bind (put_all no_faults (filter (\<lambda>p. fst p \<noteq> ''k'') ps)) (\<lambda>_. service_get no_faults ''k'') n) =
       Val \<lparr>gr_value = ''old'', gr_found = True\<rparr>"
proof -
  let ?n = after_late_apply
  have others: "''k'' \<notin> fst ` set (filter (\<lambda>p. fst p \<noteq> ''k'') ps)" by auto
  have len: "length (node_log ?n) = 3" using arg_cong [OF late_apply_run(2), of length] by simp
  obtain m where m: "put_all no_faults (filter (\<lambda>p. fst p \<noteq> ''k'') ps) ?n = (Val (), m)" "pool_inv no_faults m"
    "kv_store (storage m) ''k'' = Some ''old''"
    using put_all_others [OF after_late_apply_pool(1) _ after_late_apply_pool(3), of "''k''" "filter (\<lambda>p. fst p \<noteq> ''k'') ps"]
      after_late_apply_pool(2) late_apply_run(3-5) len others by auto
  have "usable no_faults m" using m(2) by (simp add: pool_inv_def)
  then have "fst (bind (put_all no_faults (filter (\<lambda>p. fst p \<noteq> ''k'') ps)) (\<lambda>_. service_get no_faults ''k'') ?n) =
      Val \<lparr>gr_value = ''old'', gr_found = True\<rparr>"
    using m(1,3) by (simp add: service_get_ok answer_def)
  then show ?thesis
    unfolding late_calls_def [symmetric] split_beta after_late_apply_def [symmetric] using late_apply_run(1-4) by blast
qed

text \<open>
  C21. On any leader without peers on which everything is committed and applied, for any two puts of different keys, there is an interleaving
  in which both succeed and end without the second having been applied: both entries are in the log, but the first put has put the commit
  index back. The table has changed at the first key only, and a get of the second key answers as if its put had not happened.
\<close>

theorem acknowledged_put_not_found:
  assumes "pool_inv F n" and "currentRole (state n) = LEADER" and "peers n = []" and "k \<noteq> k'"
    and "node_commit n = int (length (node_log n))" and "node_applied n = int (length (node_log n))"
  shows "\<exists>m. pool_step\<^sup>*\<^sup>* (map (t_call F) [Put k v, Put k' v'], n) (replicate 2 (tret (Put_Reply \<lparr>pr_success = True, pr_old_value = ''''\<rparr>)), m) \<and>
    node_log m = node_log n @ [new_entry (currentTerm (state n)) k v, new_entry (currentTerm (state n)) k' v'] \<and>
    node_commit m = int (length (node_log n)) + 1 \<and> node_applied m = node_commit m \<and>
    kv_store (storage m) = (kv_store (storage n))(k \<mapsto> v) \<and> fst (service_get F k' m) = fst (service_get F k' n)"
proof -
  have inv: "usable F n" "state_rows (storage n) \<noteq> []" using assms(1) by (simp_all add: pool_inv_def)
  obtain m where m: "pool_step\<^sup>*\<^sup>* (map (t_call F) [Put k v, Put k' v'], n) (replicate 2 (tret (Put_Reply \<lparr>pr_success = True, pr_old_value = ''''\<rparr>)), m)"
    "usable F m" "node_log m = node_log n @ [new_entry (currentTerm (state n)) k v, new_entry (currentTerm (state n)) k' v']"
    "node_commit m = int (length (node_log n)) + 1" "node_applied m = int (length (node_log n)) + 1"
    "kv_store (storage m) = (kv_store (storage n))(k \<mapsto> v)"
    using commit_put_back [OF inv(1) assms(2,3) refl assms(5,6) inv(2)] by blast
  moreover have "fst (service_get F k' m) = fst (service_get F k' n)" using m(2,6) inv(1) assms(4) by (simp add: service_get_ok)
  ultimately show ?thesis by (intro exI [of _ m]) simp
qed

theorem acknowledged_put_not_found_witness:
  "\<exists>m. pool_step\<^sup>*\<^sup>* (map (t_call no_faults) [Put ''a'' ''1'', Put ''b'' ''2''], alone_leader)
       (replicate 2 (tret (Put_Reply \<lparr>pr_success = True, pr_old_value = ''''\<rparr>)), m) \<and>
     map le_key (node_log m) = [''a'', ''b''] \<and> fst (service_get no_faults ''b'' m) = Val \<lparr>gr_value = '''', gr_found = False\<rparr>"
proof -
  have "fst (service_get no_faults ''b'' alone_leader) = Val \<lparr>gr_value = '''', gr_found = False\<rparr>" by code_simp
  then show ?thesis
    using acknowledged_put_not_found [OF alone_leader_pool alone_leader_simps(5,4), of "''a''" "''b''" "''1''" "''2''"] by (auto simp: new_entry_def)
qed

text \<open>
  C22. Whatever interleaved calls have left behind on a leader without peers, the next put that runs alone repairs all but
  the values: afterwards both indices are at the end of the log, and a get of every key of the log, the keys of
  all acknowledged puts among them, finds a value that was logged for the key.
\<close>

theorem next_put_shows_every_key:
  assumes "pool_inv F n" and "peers n = []" and "currentRole (state n) = LEADER" and "pool_step\<^sup>*\<^sup>* (map (t_call F) cs, n) (us, m)"
  shows "\<exists>m'. service_put F k v m = (Val \<lparr>pr_success = True, pr_old_value = ''''\<rparr>, m') \<and>
    node_commit m' = int (length (node_log m')) \<and> node_applied m' = int (length (node_log m')) \<and> set (node_log m) \<subseteq> set (node_log m') \<and>
    (\<forall>e\<in>set (node_log m'). \<exists>e'\<in>set (node_log m'). le_key e' = le_key e \<and>
       service_get F (le_key e) m' = (Val \<lparr>gr_value = le_value e', gr_found = True\<rparr>, m'))"
proof -
  note keep = calls_keep(1,2) [OF assms(1,4)]
  have "currentRole (state m) = LEADER" "peers m = []" using keep(2) assms(2,3) by (simp_all add: extends_def)
  then obtain m' where "service_put F k v m = (Val \<lparr>pr_success = True, pr_old_value = ''''\<rparr>, m')" "pool_inv F m'"
    "node_log m' = node_log m @ [new_entry (currentTerm (state m)) k v]"
    "node_commit m' = int (length (node_log m'))" "node_applied m' = int (length (node_log m'))"
    using put_alone [OF keep(1)] by blast
  then show ?thesis using all_keys_shown [of F m'] by (intro exI [of _ m']) auto
qed

theorem next_put_shows_every_key_witness:
  "\<exists>us m m'. pool_step\<^sup>*\<^sup>* (map (t_call no_faults) [Put ''a'' ''1'', Put ''b'' ''2''], alone_leader) (us, m) \<and>
     service_put no_faults ''c'' ''3'' m = (Val \<lparr>pr_success = True, pr_old_value = ''''\<rparr>, m') \<and>
     node_applied m' = int (length (node_log m'))"
proof -
  let ?c = "(map (t_call no_faults) [Put ''a'' ''1'', Put ''b'' ''2''], alone_leader)"
  obtain us m where "schedule [0, 1, 0, 0, 1, 0, 1] ?c = (us, m)" by fastforce
  then have "pool_step\<^sup>*\<^sup>* ?c (us, m)" using schedule_steps [of ?c "[0, 1, 0, 0, 1, 0, 1]"] by simp
  moreover from this have "\<exists>m'. service_put no_faults ''c'' ''3'' m = (Val \<lparr>pr_success = True, pr_old_value = ''''\<rparr>, m') \<and>
      node_applied m' = int (length (node_log m'))"
    using next_put_shows_every_key [OF alone_leader_pool alone_leader_simps(4,5), of _ us m "''c''" "''3''"] by blast
  ultimately show ?thesis by blast
qed

end
