(* ===== verification/Raft_Types.thy ===== *)
theory Raft_Types
  imports Raft_Steps
begin

text \<open>
  The well-formedness of a node, which every step keeps whatever the database does: any statement may
  fail, any message may arrive and any method may end with an exception half-way.
\<close>

section \<open>The database\<close>

definition wf_db :: "db \<Rightarrow> bool" where
  "wf_db d \<longleftrightarrow> indexed (logs d) \<and> (\<forall>r\<in>set (state_rows d). 0 \<le> st_lastApplied r \<and> 0 \<le> st_commitIndex r)"

lemma yields_stmt:
  assumes "\<And>d. wf_db d \<Longrightarrow> wf_db (snd (f d)) \<and> Q (fst (f d))"
  shows "yields wf_db (stmt F q f) Q"
  using assms by (auto simp: yields_def stmt_def split: prod.split) (metis fst_conv snd_conv)+

lemma yields_or_throw: "yields wf_db m Q \<Longrightarrow> yields wf_db (or_throw msg m) Q"
  unfolding or_throw_def by (rule yields_try_catch) (auto intro: yields_rules)

lemma yields_or_print: "yields wf_db m Q \<Longrightarrow> Q x \<Longrightarrow> yields wf_db (or_print x m) Q"
  unfolding or_print_def by (rule yields_try_catch) (auto intro: yields_rules)

lemma indexed_filter: "indexed rows \<Longrightarrow> indexed (filter (\<lambda>r. \<not> i \<le> row_index r) rows)"
proof (cases "1 \<le> i")
  case False
  assume "indexed rows"
  then have "\<forall>r\<in>set rows. i \<le> row_index r"
    using False by (auto simp: indexed_nth in_set_conv_nth)
  then have "filter (\<lambda>r. \<not> i \<le> row_index r) rows = []" by (simp add: filter_empty_conv)
  then show ?thesis by simp
qed (simp add: filter_indexed_less indexed_take)

lemma yields_reads:
  "yields wf_db (getLastLogIndex F) (\<lambda>l. 0 \<le> l)" "yields wf_db (getLogEntry F i) (\<lambda>_. True)"
  "yields wf_db (getLogEntries F i j) (\<lambda>_. True)" "yields wf_db (get_kv F k) (\<lambda>_. True)"
  "yields wf_db (getCommitIndex F) (\<lambda>c. 0 \<le> c)" "yields wf_db (getLastApplied F) (\<lambda>a. 0 \<le> a)"
  unfolding storage_defs
  by (intro yields_or_throw yields_or_print yields_stmt; auto simp: wf_db_def max_index_indexed split: list.splits)+

lemma yields_writes:
  "yields wf_db (appendLogEntry F e) (\<lambda>_. True)" "yields wf_db (deleteLogEntriesFrom F i) (\<lambda>_. True)"
  "0 \<le> c \<Longrightarrow> yields wf_db (setCommitIndex F c) (\<lambda>_. True)" "0 \<le> c \<Longrightarrow> yields wf_db (setLastApplied F c) (\<lambda>_. True)"
  "yields wf_db (updateKeyValue F k v) (\<lambda>_. True)" "yields wf_db close_storage (\<lambda>_. True)"
  unfolding storage_defs close_storage_def
  by (intro yields_or_throw yields_or_print yields_stmt yields_modify;
      auto simp: wf_db_def max_index_indexed Let_def indexed_filter)+

lemma yields_last_term: "yields wf_db (getLastLogTerm F) (\<lambda>_. True)"
  unfolding getLastLogTerm_def
  by (intro yields_bind [OF yields_reads(1)] yields_rules yields_bind [OF yields_reads(2)]) simp_all

section \<open>The node\<close>

text \<open>A map from the node's peers to numbers from \<open>low\<close> on.\<close>

definition wf_map :: "string list \<Rightarrow> int \<Rightarrow> (string \<times> int) list \<Rightarrow> bool" where
  "wf_map ids low m \<longleftrightarrow> distinct (map fst m) \<and> (\<forall>x\<in>set m. fst x \<in> set ids \<and> low \<le> snd x)"

fun wf_task :: "string list \<Rightarrow> task \<Rightarrow> bool" where
  "wf_task ids (Send_Task p) \<longleftrightarrow> p \<in> set ids"
| "wf_task ids (Vote_Task p i t) \<longleftrightarrow> p \<in> set ids \<and> 0 \<le> i"
| "wf_task ids Election_Callback \<longleftrightarrow> True"

text \<open>
  The tables are in order; the node knows each peer once and has a channel to exactly its peers; the
  indices it keeps for followers are indices for peers, from 1 and from 0; a pending timer is due in
  150 to 299 milliseconds; waiting tasks concern peers.
\<close>

definition wf_node :: "string list \<Rightarrow> raft_node \<Rightarrow> bool" where
  "wf_node ids n \<longleftrightarrow> wf_db (storage n) \<and> map fst (peers n) = ids \<and> distinct ids \<and>
     distinct (map fst (grpcChannels n)) \<and> fst ` set (grpcChannels n) = set ids \<and>
     wf_map ids 1 (nextIndex n) \<and> wf_map ids 0 (matchIndex n) \<and>
     (\<forall>k. 0 \<le> random n k \<and> random n k < 150) \<and>
     (\<forall>t. electionTimer n = Some t \<longrightarrow> 150 \<le> t \<and> t < 300) \<and> (\<forall>t\<in>set (tasks n). wf_task ids t)"

lemma set_update_subset: "set (AList.update k v m) \<subseteq> insert (k, v) (set m)"
  by (induction m) auto

lemma wf_map_update: "wf_map ids low m \<Longrightarrow> p \<in> set ids \<Longrightarrow> low \<le> v \<Longrightarrow> wf_map ids low (AList.update p v m)"
  using set_update_subset [of p v m] unfolding wf_map_def
  by (auto simp: distinct_update)

lemma wf_map_fold:
  "wf_map ids low m \<Longrightarrow> set ps \<subseteq> set ids \<Longrightarrow> low \<le> v \<Longrightarrow> wf_map ids low (fold (\<lambda>p. AList.update p v) ps m)"
  by (induction ps arbitrary: m) (auto intro: wf_map_update)

lemma wf_parts:
  assumes "wf_node ids n"
  shows "map fst (peers n) = ids" "wf_map ids 1 (nextIndex n)" "t \<in> set (tasks n) \<Longrightarrow> wf_task ids t"
    and "0 \<le> random n k" "random n k < 150"
  using assms by (auto simp: wf_node_def)

lemma getOrDefault_low: "wf_map ids 1 m \<Longrightarrow> 1 \<le> getOrDefault m p 1"
  by (auto simp: getOrDefault_def wf_map_def split: option.split dest!: map_of_SomeD)

text \<open>Changes of parts that the well-formedness reads, and of parts that it does not read.\<close>

lemma wf_changes:
  assumes "wf_node ids n"
  shows "wf_db d \<Longrightarrow> wf_node ids (n\<lparr>storage := d\<rparr>)"
    and "p \<in> set ids \<Longrightarrow> 1 \<le> i \<Longrightarrow> wf_node ids (n\<lparr>nextIndex := AList.update p i (nextIndex n)\<rparr>)"
    and "p \<in> set ids \<Longrightarrow> 0 \<le> i \<Longrightarrow> wf_node ids (n\<lparr>matchIndex := AList.update p i (matchIndex n)\<rparr>)"
    and "\<forall>x. t = Some x \<longrightarrow> 150 \<le> x \<and> x < 300 \<Longrightarrow> wf_node ids (n\<lparr>electionTimer := t\<rparr>)"
    and "\<forall>t\<in>set ts. wf_task ids t \<Longrightarrow> wf_node ids (n\<lparr>tasks := ts\<rparr>)"
    and "wf_node ids (n\<lparr>state := r, votedFor := v\<rparr>)" "wf_node ids (n\<lparr>state := r\<rparr>)"
    and "wf_node ids (n\<lparr>random_calls := j\<rparr>)" "wf_node ids (n\<lparr>running := b\<rparr>)"
  using assms wf_map_update unfolding wf_node_def by simp_all

lemma yields_db: "yields wf_db q Q \<Longrightarrow> yields (wf_node ids) (on_db q) Q"
  unfolding yields_def on_db_def
  by (auto simp: wf_changes(1) wf_node_def split: prod.split)

lemma yields_read: "(\<And>n. wf_node ids n \<Longrightarrow> Q (f n)) \<Longrightarrow> yields (wf_node ids) (read_node f) Q"
  by (simp add: yields_def)

lemma yields_deref: "yields I (deref x) (\<lambda>_. True)"
  by (cases x) (simp_all add: yields_pure)

lemma yields_for_each: "(\<And>x. x \<in> set xs \<Longrightarrow> yields I (f x) (\<lambda>_. True)) \<Longrightarrow> yields I (for_each f xs) (\<lambda>_. True)"
  by (induction xs) (auto intro!: yields_pure yields_bind [where P = "\<lambda>_. True"])

lemmas yields_node = yields_reads [THEN yields_db] yields_writes [THEN yields_db] yields_last_term [THEN yields_db]

lemma yields_read_any: "yields (wf_node ids) (read_node f) (\<lambda>_. True)"
  by (rule yields_read) simp

lemmas yields_method = yields_node [THEN yields_bind] yields_deref [THEN yields_bind] yields_read_any [THEN yields_bind]
  yields_node(2,3,4,7-12) yields_if yields_pure TrueI

text \<open>A first part whose value does not matter.\<close>

lemma yields_then: "yields I m (\<lambda>_. True) \<Longrightarrow> (\<And>x. yields I (f x) Q) \<Longrightarrow> yields I (bind m f) Q"
  by (rule yields_bind)


section \<open>Methods\<close>

lemma yields_applyCommittedEntries: "yields (wf_node ids) (applyCommittedEntries F) (\<lambda>_. True)"
  unfolding applyCommittedEntries_def applyToStateMachine_def
  by (intro yields_method, rule yields_then [OF yields_for_each]) (intro yields_method; simp)+

lemma yields_commit: "0 \<le> i \<Longrightarrow> yields (wf_node ids) (bind (on_db (setCommitIndex F i)) (\<lambda>_. applyCommittedEntries F)) (\<lambda>_. True)"
  by (intro yields_method yields_applyCommittedEntries)

lemma yields_updateCommitIndex: "yields (wf_node ids) (updateCommitIndex F) (\<lambda>_. True)"
  unfolding updateCommitIndex_def commit_check_def
proof (rule yields_bind [OF yields_node(1)], rule yields_bind [OF yields_node(5)], rule yields_for_each)
  fix l c i :: int assume "0 \<le> c" "i \<in> set [c + 1..l]"
  then have "0 \<le> i" by simp
  then show "yields (wf_node ids) (bind (on_db (getLogEntry F i)) (\<lambda>x. bind (deref x) (\<lambda>e.
      bind (read_node (\<lambda>n. le_term e = currentTerm (state n) \<and> quorum (replicationCount n i) (peersSize n))) (\<lambda>commit.
      if commit then bind (on_db (setCommitIndex F i)) (\<lambda>_. applyCommittedEntries F) else ret ())))) (\<lambda>_. True)"
    by (intro yields_bind [OF yields_node(2)] yields_bind [OF yields_deref] yields_bind [OF yields_read_any] yields_if yields_commit yields_pure TrueI)
qed

lemma yields_resetElectionTimer: "yields (wf_node ids) resetElectionTimer (\<lambda>_. True)"
  unfolding resetElectionTimer_def
proof (rule yields_bind [OF yields_modify], goal_cases)
  case (2 u)
  show ?case
    by (rule yields_bind [where P = "\<lambda>t. 150 \<le> t \<and> t < 300", OF yields_read], simp add: wf_parts,
        rule yields_bind [OF yields_modify], simp add: wf_changes, rule yields_bind [OF yields_read_any],
        intro yields_if yields_modify yields_pure wf_changes) auto
qed (simp add: wf_changes)

lemma yields_append_loop: "yields (wf_node ids) (append_loop F i es) (\<lambda>_. True)"
proof (induction es arbitrary: i)
  case (Cons e es)
  show ?case unfolding append_loop.simps by (intro yields_method Cons)
qed (simp add: yields_pure)

lemma yields_prev_differs: "yields (wf_node ids) (prev_differs F i t) (\<lambda>_. True)"
  unfolding prev_differs_def by (intro yields_method)

lemma yields_appendEntries: "yields (wf_node ids) (appendEntries F p tm i t es c) (\<lambda>_. True)"
  unfolding appendEntries_def
proof (rule yields_bind [OF yields_read_any], intro yields_if yields_pure TrueI, rule yields_bind [OF yields_modify], goal_cases)
  case (2 current u)
  show ?case
  proof (rule yields_bind [OF yields_resetElectionTimer], rule yields_bind [OF yields_node(1)],
      rule yields_then, intro yields_if yields_pure TrueI yields_prev_differs,
      intro yields_if yields_pure TrueI, rule yields_bind [OF yields_append_loop], rule yields_bind [OF yields_node(5)],
      rule yields_then, intro yields_if yields_pure TrueI, rule yields_bind [OF yields_node(1)])
    fix d l :: int assume "0 \<le> d" "d < c" "0 \<le> l"
    then show "yields (wf_node ids) (bind (on_db (setCommitIndex F (min c l))) (\<lambda>_. applyCommittedEntries F)) (\<lambda>_. True)"
      by (intro yields_commit) simp
  qed (simp add: yields_pure)
qed (simp add: wf_changes)

lemma yields_sendAppendEntries:
  assumes "p \<in> set ids"
  shows "yields (wf_node ids) (sendAppendEntries F p) (\<lambda>_. True)"
  unfolding sendAppendEntries_def
proof (rule yields_bind [OF yields_read_any], rule yields_bind [OF yields_node(1)], rule yields_bind [OF yields_node(3)],
    rule yields_then, intro yields_method, rule yields_bind [OF yields_read_any],
    rule yields_bind [OF yields_node(5)], rule yields_bind [OF yields_appendEntries], rule yields_if, goal_cases)
  case (1 nextIdx l es t tm c success)
  show ?case
    by (rule yields_bind [OF yields_node(1)], rule yields_bind [OF yields_modify], simp add: wf_changes assms,
        rule yields_bind [OF yields_node(1)], rule yields_bind [OF yields_modify], simp add: wf_changes assms,
        rule yields_updateCommitIndex)
next
  case (2 nextIdx l es t tm c success)
  show ?case by (rule yields_modify) (simp add: wf_changes assms)
qed

lemma yields_proposeEntry: "yields (wf_node ids) (proposeEntry F k v) (\<lambda>_. True)"
  unfolding proposeEntry_def replicateEntry_def
proof (rule yields_bind [OF yields_read_any], intro yields_if yields_pure TrueI, rule yields_bind [OF yields_node(7)],
    rule yields_bind [OF yields_node(1)], rule yields_bind [where P = "\<lambda>xs. xs = ids"])
  show "yields (wf_node ids) (read_node (\<lambda>n. map fst (peers n))) (\<lambda>xs. xs = ids)"
    by (rule yields_read) (simp add: wf_parts)
  show "yields (wf_node ids) (bind (for_each (sendAppendEntries F) xs) (\<lambda>_. bind (updateCommitIndex F) (\<lambda>_. ret True))) (\<lambda>_. True)"
    if "xs = ids" for xs
    by (rule yields_bind [OF yields_for_each], rule yields_sendAppendEntries, simp add: that,
        rule yields_bind [OF yields_updateCommitIndex], simp add: yields_pure)
qed

lemma yields_submit: "wf_task ids t \<Longrightarrow> yields (wf_node ids) (submit t) (\<lambda>_. True)"
  unfolding submit_def
  by (intro yields_bind [OF yields_read_any] yields_if yields_pure yields_modify wf_changes) (auto dest: wf_parts(3))

lemma yields_peers: "yields (wf_node ids) (read_node (\<lambda>n. map fst (peers n))) (\<lambda>xs. xs = ids)"
  by (rule yields_read) (simp add: wf_parts)

lemma yields_submit_all:
  "(\<And>p. p \<in> set ids \<Longrightarrow> wf_task ids (g p)) \<Longrightarrow> yields (wf_node ids) (for_each (\<lambda>p. submit (g p)) ids) (\<lambda>_. True)"
  by (intro yields_for_each yields_submit)

lemma yields_heartbeatTask: "yields (wf_node ids) heartbeatTask (\<lambda>_. True)"
  unfolding heartbeatTask_def
  by (intro yields_bind [OF yields_read_any] yields_if yields_pure yields_bind [OF yields_peers]) (auto intro: yields_submit_all)

lemma yields_becomeLeader: "yields (wf_node ids) (becomeLeader F) (\<lambda>_. True)"
  unfolding becomeLeader_def
proof (rule yields_then [OF yields_modify], simp add: wf_changes, rule yields_bind [OF yields_node(1)], rule yields_modify)
  fix l :: int and n assume "0 \<le> l" "wf_node ids n"
  then show "wf_node ids (n\<lparr>nextIndex := fold (\<lambda>id. AList.update id (l + 1)) (map fst (peers n)) (nextIndex n),
      matchIndex := fold (\<lambda>id. AList.update id 0) (map fst (peers n)) (matchIndex n)\<rparr>)"
    by (auto simp: wf_node_def intro!: wf_map_fold)
qed

lemma count_true_ends: "case count_true vs of Val k \<Rightarrow> True | Exc e \<Rightarrow> True | _ \<Rightarrow> False"
  by (induction vs rule: count_true.induct) (auto split: outcome.splits)

lemma yields_electionCallback: "yields (wf_node ids) (electionCallback F) (\<lambda>_. True)"
  unfolding electionCallback_def
  by (intro yields_try_catch yields_then [of _ countVotes] yields_bind [OF yields_read_any] yields_if yields_becomeLeader yields_pure)
    (simp_all add: yields_def countVotes_def count_true_ends)

lemma yields_startElection: "yields (wf_node ids) (startElection F) (\<lambda>_. True)"
  unfolding startElection_def
proof (rule yields_then [OF yields_modify], simp add: wf_changes, rule yields_bind [OF yields_node(1)], rule yields_bind [OF yields_node(13)],
    rule yields_bind [OF yields_peers], rule yields_then)
  fix l t :: int and xs assume "0 \<le> l" "xs = ids"
  then show "yields (wf_node ids) (for_each (\<lambda>p. submit (Vote_Task p l t)) xs) (\<lambda>_. True)"
    by (simp add: yields_submit_all)
  show "yields (wf_node ids) (if xs = [] then electionCallback F else modify (\<lambda>n. n\<lparr>tasks := tasks n @ [Election_Callback]\<rparr>)) (\<lambda>_. True)"
    by (intro yields_if yields_electionCallback yields_modify wf_changes) (auto dest: wf_parts(3))
qed

lemma yields_run_task: "wf_task ids t \<Longrightarrow> yields (wf_node ids) (run_task F rpc t) (\<lambda>_. True)"
proof (cases t)
  case (Vote_Task p i j)
  have "yields (wf_node ids) (requestVote rpc p i j) (\<lambda>_. True)"
    by (auto simp: yields_def requestVote_def wf_changes split: option.split)
  then show ?thesis using Vote_Task by (simp add: run_task_def yields_then yields_pure)
qed (simp_all add: run_task_def yields_sendAppendEntries yields_electionCallback)

lemma yields_shutdown: "yields (wf_node ids) shutdown_node (\<lambda>_. True)"
  unfolding shutdown_node_def by (rule yields_then [OF yields_modify]) (simp_all add: wf_changes yields_node)

section \<open>Steps\<close>

lemma yields_after: "yields I m Q \<Longrightarrow> I n \<Longrightarrow> m n = (r, n') \<Longrightarrow> I n'"
  using yieldsD [of I m Q n r n'] by simp

lemma node_step_wf:
  assumes "node_step F n m" and "wf_node ids n"
  shows "wf_node ids m"
  using assms(1)
proof cases
  case own
  then show ?thesis
  proof cases
    case (tick r)
    then have "m = n \<or> startElection F n = (r, m)" by (simp add: leaderElectionTask_def split: if_splits)
    then show ?thesis using yields_after [OF yields_startElection assms(2)] assms(2) by blast
  next
    case (timer t r)
    have "wf_node ids (n\<lparr>electionTimer := None\<rparr>)" using assms(2) by (simp add: wf_changes)
    then show ?thesis using yields_after [OF yields_startElection _ timer(2)] by blast
  next
    case (work ts t us rpc r)
    have "wf_node ids (n\<lparr>tasks := ts @ us\<rparr>)" "wf_task ids t" 
      using wf_changes(5) [OF assms(2)] wf_parts(3) [OF assms(2)] work(1) by simp_all
    then show ?thesis using yields_after [OF yields_run_task _ work(2)] by blast
  qed (use yields_after [OF yields_heartbeatTask assms(2)] yields_after [OF yields_proposeEntry assms(2)] in blast)+
qed (use yields_after [OF yields_appendEntries assms(2)] yields_after [OF yields_shutdown assms(2)] in blast)+

interpretation typed_node: invariant_system "wf_node ids" "node_step F" "wf_node ids"
  for F ids
  by unfold_locales (auto intro: node_step_wf)

end
