(* ===== verification/Typed_Threads.thy ===== *)
theory Typed_Threads
  imports Raft_Types Election_Threads
begin

text \<open>
  Every single action of every job keeps a node well-formed, whatever the database does and whatever other threads
  do between the actions.
\<close>

section \<open>Actions\<close>

interpretation typed: invariant_threads "wf_node ids" "\<lambda>_ :: jexn. True"
  for ids .

lemma typed_atomic: "yields (wf_node ids) m Q \<Longrightarrow> typed.safe ids (atomic m) Q"
  by (rule typed.safe_atomic) (auto simp: yields_def)

lemmas typed_db = yields_node [THEN typed_atomic, folded t_db_def]

lemma typed_read: "(\<And>n. wf_node ids n \<Longrightarrow> Q (f n)) \<Longrightarrow> typed.safe ids (t_read f) Q"
  unfolding t_read_def by (rule typed_atomic) (rule yields_read)

lemma typed_read_any: "typed.safe ids (t_read f) (\<lambda>_. True)"
  by (rule typed_read) simp

lemma typed_modify: "(\<And>n. wf_node ids n \<Longrightarrow> wf_node ids (g n)) \<Longrightarrow> typed.safe ids (t_modify g) (\<lambda>_. True)"
  unfolding t_modify_def by (rule typed_atomic) (rule yields_modify)

lemma typed_state: "typed.safe ids (t_modify (\<lambda>n. n\<lparr>state := h n\<rparr>)) (\<lambda>_. True)"
  by (rule typed_modify) (simp add: wf_changes)

lemma typed_voted: "typed.safe ids (t_modify (\<lambda>n. n\<lparr>votedFor := h n\<rparr>)) (\<lambda>_. True)"
  by (rule typed_modify) (simp add: wf_node_def)

lemma typed_deref: "typed.safe ids (t_deref x) (\<lambda>_. True)"
  unfolding t_deref_def by (intro typed.safe_option typed.safe_ret typed.safe_fail TrueI)

lemma typed_next: "p \<in> set ids \<Longrightarrow> 1 \<le> i \<Longrightarrow> typed.safe ids (t_modify (\<lambda>n. n\<lparr>nextIndex := AList.update p i (nextIndex n)\<rparr>)) (\<lambda>_. True)"
  by (rule typed_modify) (simp add: wf_changes)

lemma typed_match: "p \<in> set ids \<Longrightarrow> 0 \<le> i \<Longrightarrow> typed.safe ids (t_modify (\<lambda>n. n\<lparr>matchIndex := AList.update p i (matchIndex n)\<rparr>)) (\<lambda>_. True)"
  by (rule typed_modify) (simp add: wf_changes)

lemma typed_peers: "typed.safe ids (t_read (\<lambda>n. map fst (peers n))) (\<lambda>xs. xs = ids)"
  by (rule typed_read) (simp add: wf_parts)

lemmas typed_method = typed_db [THEN typed.safe_bind] typed_deref [THEN typed.safe_bind] typed_read_any [THEN typed.safe_bind]
  typed_db(2,3,4,7-12) typed.safe_rules

section \<open>Replication\<close>

lemma typed_applyCommittedEntries: "typed.safe ids (t_applyCommittedEntries F) (\<lambda>_. True)"
  unfolding t_applyCommittedEntries_def
  by (intro typed_method, rule typed.safe_then [OF typed.safe_for_each]) (intro typed_method; simp)+

lemma typed_commit: "0 \<le> i \<Longrightarrow> typed.safe ids (tbind (t_db (setCommitIndex F i)) (\<lambda>_. t_applyCommittedEntries F)) (\<lambda>_. True)"
  by (intro typed_method typed_applyCommittedEntries)

lemma typed_updateCommitIndex: "typed.safe ids (t_updateCommitIndex F) (\<lambda>_. True)"
  unfolding t_updateCommitIndex_def
proof (rule typed.safe_bind [OF typed_db(1)], rule typed.safe_bind [OF typed_db(5)], rule typed.safe_for_each)
  fix l c i :: int assume "0 \<le> c" "i \<in> set [c + 1..l]"
  then have "0 \<le> i" by simp
  then show "typed.safe ids (t_commit_check F i) (\<lambda>_. True)"
    unfolding t_commit_check_def
    by (intro typed.safe_bind [OF typed_db(2)] typed.safe_bind [OF typed_deref] typed.safe_bind [OF typed_read_any] typed.safe_rules typed_commit)
qed

lemma typed_resetElectionTimer: "typed.safe ids t_resetElectionTimer (\<lambda>_. True)"
  unfolding t_resetElectionTimer_def
proof (rule typed.safe_bind [OF typed_modify], goal_cases)
  case (2 u)
  have draw: "typed.safe ids (atomic (\<lambda>n. (Val (150 + random n (random_calls n)), n\<lparr>random_calls := random_calls n + 1\<rparr>))) (\<lambda>t. 150 \<le> t \<and> t < 300)"
    by (rule typed.safe_atomic) (simp add: wf_changes wf_parts)
  show ?case
    by (rule typed.safe_bind [OF draw], rule typed.safe_bind [OF typed_read_any],
        intro typed.safe_rules typed_modify typed.safe_fail wf_changes) auto
qed (simp add: wf_changes)

lemma typed_append_loop: "typed.safe ids (t_append_loop F i es) (\<lambda>_. True)"
proof (induction es arbitrary: i)
  case (Cons e es)
  show ?case unfolding t_append_loop.simps by (intro typed_method Cons)
qed (simp add: typed.safe_ret)

lemma typed_finish_append: "typed.safe ids (t_finish_append F i es c) (\<lambda>_. True)"
  unfolding t_finish_append_def
proof (rule typed.safe_then [OF typed_append_loop], rule typed.safe_bind [OF typed_db(5)],
    rule typed.safe_then, intro typed.safe_rules, rule typed.safe_bind [OF typed_db(1)])
  fix d l :: int assume "0 \<le> d" "d < c" "0 \<le> l"
  then show "typed.safe ids (tbind (t_db (setCommitIndex F (min c l))) (\<lambda>_. t_applyCommittedEntries F)) (\<lambda>_. True)"
    by (intro typed_commit) simp
qed (simp add: typed.safe_ret)

lemma typed_becomeFollower: "typed.safe ids (t_becomeFollower tm) (\<lambda>_. True)"
  unfolding t_becomeFollower_def by (intro typed.safe_then typed_state)

lemma typed_observe_term: "typed.safe ids (t_observe_term tm) (\<lambda>_. True)"
  unfolding t_observe_term_def
  by (intro typed.safe_then [OF typed_read_any] typed.safe_rules typed.safe_then typed_state typed_voted typed_becomeFollower)

lemma typed_appendEntries: "typed.safe ids (t_appendEntries F p tm i t es c) (\<lambda>_. True)"
  unfolding t_appendEntries_def t_accept_def t_prev_differs_def
  by (intro typed.safe_then [OF typed_read_any] typed.safe_rules typed.safe_then [OF typed_observe_term]
      typed.safe_then [OF typed_resetElectionTimer] typed.safe_then [OF typed.safe_any [OF typed_db(1)]]
      typed.safe_then [OF typed_db(2)] typed.safe_then [OF typed_deref] typed_finish_append typed.safe_then)

lemma typed_sendAppendEntries:
  assumes "p \<in> set ids"
  shows "typed.safe ids (t_sendAppendEntries F p) (\<lambda>_. True)"
  unfolding t_sendAppendEntries_def
proof (rule typed.safe_then [OF typed_read_any], rule typed.safe_bind [OF typed_db(1)], rule typed.safe_bind [OF typed_db(3)],
    rule typed.safe_then, intro typed_method, rule typed.safe_then [OF typed_read_any],
    rule typed.safe_bind [OF typed_db(5)], rule typed.safe_then [OF typed_appendEntries], rule typed.safe_if, goal_cases)
  case (1 nextIdx l es t tm c success)
  show ?case
    by (rule typed.safe_bind [OF typed_db(1)], rule typed.safe_then [OF typed_next], rule assms, simp,
        rule typed.safe_bind [OF typed_db(1)], rule typed.safe_then [OF typed_match], rule assms, assumption, rule typed_updateCommitIndex)
next
  case (2 nextIdx l es t tm c success)
  show ?case by (rule typed.safe_then [OF typed_read_any], rule typed_next, rule assms) simp
qed

lemma typed_proposeEntry: "typed.safe ids (t_proposeEntry F k v) (\<lambda>_. True)"
proof -
  have "typed.safe ids (t_replicateEntry F) (\<lambda>_. True)"
    unfolding t_replicateEntry_def
    by (rule typed.safe_bind [OF typed_peers], rule typed.safe_then [OF typed.safe_for_each], rule typed_sendAppendEntries, simp)
      (intro typed.safe_then [OF typed_updateCommitIndex] typed.safe_ret TrueI)
  then show ?thesis
    unfolding t_proposeEntry_def
    by (intro typed.safe_then [OF typed_read_any] typed.safe_rules typed.safe_then [OF typed_db(7)] typed.safe_then [OF typed.safe_any [OF typed_db(1)]])
qed

section \<open>Elections and jobs\<close>

lemma typed_submit: "wf_task ids t \<Longrightarrow> typed.safe ids (t_submit t) (\<lambda>_. True)"
  unfolding t_submit_def by (rule typed_atomic) (rule yields_submit)

lemma typed_becomeLeader: "typed.safe ids (t_becomeLeader F) (\<lambda>_. True)"
  unfolding t_becomeLeader_def
  by (rule typed.safe_then [OF typed_state], rule typed.safe_bind [OF typed_db(1)], rule typed.safe_bind [OF typed_peers],
      rule typed.safe_for_each, intro typed.safe_then typed_next typed_match) simp_all

lemma typed_electionCallback: "typed.safe ids (t_electionCallback F) (\<lambda>_. True)"
proof -
  have count: "typed.safe ids (Halt (count_true vs)) (\<lambda>_. True)" for vs
    using count_true_ends [of vs] by (cases "count_true vs") (simp_all add: typed.safe_ret typed.safe_fail)
  show ?thesis
    unfolding t_electionCallback_def
    by (intro typed.safe_catch typed.safe_then [OF typed_read_any] typed.safe_then [OF count] typed.safe_rules typed_becomeLeader)
qed

lemma typed_startElection: "typed.safe ids (t_startElection F) (\<lambda>_. True)"
proof -
  have candidate: "typed.safe ids t_becomeCandidate (\<lambda>_. True)"
    unfolding t_becomeCandidate_def by (intro typed.safe_then typed_state typed_read_any)
  have last: "typed.safe ids (t_getLastLogTerm F) (\<lambda>_. True)"
    unfolding t_getLastLogTerm_def
    by (intro typed.safe_then [OF typed.safe_any [OF typed_db(1)]] typed.safe_rules typed.safe_then [OF typed_db(2)])
  show ?thesis
    unfolding t_startElection_def
  proof (rule typed.safe_then [OF candidate], rule typed.safe_then [OF typed_voted], rule typed.safe_bind [OF typed_db(1)],
      rule typed.safe_then [OF last], rule typed.safe_bind [OF typed_peers], rule typed.safe_then [OF typed.safe_for_each])
    fix l t :: int and xs p assume "0 \<le> l" "xs = ids" "p \<in> set xs"
    then show "typed.safe ids (t_submit (Vote_Task p l t)) (\<lambda>_. True)" by (intro typed_submit) simp
  next
    fix xs :: "string list"
    show "typed.safe ids (if xs = [] then t_electionCallback F else t_modify (\<lambda>n. n\<lparr>tasks := tasks n @ [Election_Callback]\<rparr>)) (\<lambda>_. True)"
      by (intro typed.safe_rules typed_electionCallback typed_modify wf_changes) (auto dest: wf_parts(3))
  qed
qed

lemma typed_requestVote: "typed.safe ids (t_requestVote rpc p i t) (\<lambda>_. True)"
  unfolding t_requestVote_def
  by (intro typed.safe_then [OF typed_read_any] typed.safe_rules typed.safe_then typed_state typed_voted typed_becomeFollower)

lemma typed_run_task: "wf_task ids t \<Longrightarrow> typed.safe ids (t_run_task F rpc t) (\<lambda>_. True)"
  unfolding t_run_task_def
  by (cases t) (auto intro: typed_sendAppendEntries typed_electionCallback typed.safe_then [OF typed_requestVote] typed.safe_ret)

lemma typed_leaderElectionTask: "typed.safe ids (t_leaderElectionTask F) (\<lambda>_. True)"
  unfolding t_leaderElectionTask_def by (intro typed.safe_then [OF typed_read_any] typed.safe_rules typed_startElection)

lemma typed_heartbeatTask: "typed.safe ids t_heartbeatTask (\<lambda>_. True)"
  unfolding t_heartbeatTask_def
  by (intro typed.safe_then [OF typed_read_any] typed.safe_rules typed.safe_bind [OF typed_peers] typed.safe_for_each typed_submit) simp

lemma typed_take_task: "typed.safe ids (atomic (take_task i)) (\<lambda>t. \<forall>x. t = Some x \<longrightarrow> wf_task ids x)"
proof (rule typed.safe_atomic)
  fix n assume n: "wf_node ids n"
  have "\<forall>t\<in>set (take i (tasks n) @ drop (Suc i) (tasks n)). wf_task ids t"
    using wf_parts(3) [OF n] by (auto dest: in_set_takeD in_set_dropD)
  then have "wf_node ids (n\<lparr>tasks := take i (tasks n) @ drop (Suc i) (tasks n)\<rparr>)" by (rule wf_changes(5) [OF n])
  then show "wf_node ids (snd (take_task i n)) \<and>
      (case fst (take_task i n) of Val t \<Rightarrow> \<forall>x. t = Some x \<longrightarrow> wf_task ids x | Exc e \<Rightarrow> True | _ \<Rightarrow> False)"
    using n wf_parts(3) [OF n] by (simp add: take_task_def)
qed

text \<open>Heartbeats are sent to peers.\<close>

definition wf_job :: "string list \<Rightarrow> job \<Rightarrow> bool" where
  "wf_job ids j \<longleftrightarrow> (\<forall>p. j = Serve (Heartbeat p) \<longrightarrow> p \<in> set ids)"

lemma typed_call: "(\<And>p. c = Heartbeat p \<Longrightarrow> p \<in> set ids) \<Longrightarrow> typed.safe ids (t_call F c) (\<lambda>_. True)"
  unfolding t_call_def
  by (cases c) (auto intro!: typed.safe_then [OF typed_proposeEntry] typed.safe_then [OF typed_db(4)] typed.safe_then [OF typed_sendAppendEntries]
      typed.safe_ret)

lemma typed_job:
  assumes "wf_job ids j"
  shows "typed.safe ids (t_job F j) (\<lambda>_. True)"
proof (cases j)
  case (Serve c)
  show ?thesis
    unfolding t_job_def Serve job.case
    by (rule typed.safe_then [OF typed_call]) (use assms Serve in \<open>auto simp: wf_job_def intro: typed.safe_ret\<close>)
next
  case (Work i vote)
  show ?thesis
    unfolding t_job_def Work job.case
    by (rule typed.safe_bind [OF typed_take_task], rule typed.safe_then, intro typed.safe_rules typed_run_task)
      (auto intro: typed.safe_ret)
next
  case Timer
  have timer: "typed.safe ids (atomic take_timer) (\<lambda>_. True)"
    by (rule typed.safe_atomic) (simp add: take_timer_def wf_changes)
  show ?thesis
    unfolding t_job_def Timer job.case
    by (intro typed.safe_then [OF timer] typed.safe_then typed.safe_rules typed_startElection)
qed (auto simp: t_job_def intro!: typed.safe_then [OF typed.safe_for_each] typed_leaderElectionTask typed_heartbeatTask
    typed.safe_then [OF typed_appendEntries] typed.safe_ret)

end
