(* ===== verification/Peer_Pool.thy ===== *)
theory Peer_Pool
  imports Election_Threads
begin

text \<open>
  A node with peers, with all its threads: elections, the timer, the worker pool with its vote requests and
  callbacks, heartbeats, puts and gets. None of their actions makes the node the leader or writes to its database.
\<close>

section \<open>What the threads keep\<close>

definition stays_frozen :: "faults \<Rightarrow> db \<Rightarrow> raft_node \<Rightarrow> bool" where
  "stays_frozen F d n \<longleftrightarrow> usable_log F d \<and> frozen d n"

interpretation peer: invariant_threads "stays_frozen F d" "\<lambda>_ :: jexn. False"
  for F d .

lemma peer_atomic:
  assumes "\<And>n. stays_frozen F d n \<Longrightarrow> \<exists>x m. p n = (Val x, m) \<and> stays_frozen F d m \<and> Q x"
  shows "peer.safe F d (atomic p) Q"
  by (rule peer.safe_atomic) (use assms in fastforce)

lemma peer_read: "(\<And>n. stays_frozen F d n \<Longrightarrow> Q (f n)) \<Longrightarrow> peer.safe F d (t_read f) Q"
  unfolding t_read_def by (rule peer_atomic) auto

lemma peer_read_any: "peer.safe F d (t_read f) (\<lambda>_. True)"
  by (rule peer_read) simp

lemma peer_modify: "(\<And>n. stays_frozen F d n \<Longrightarrow> stays_frozen F d (g n)) \<Longrightarrow> peer.safe F d (t_modify g) (\<lambda>_. True)"
  unfolding t_modify_def by (rule peer_atomic) auto

text \<open>Queries leave the database alone.\<close>

lemma peer_query:
  assumes "\<And>n. stays_frozen F d n \<Longrightarrow> q d = (Val x, d)"
  shows "peer.safe F d (t_db q) (\<lambda>y. y = x)"
  unfolding t_db_def
proof (rule peer_atomic)
  fix n assume n: "stays_frozen F d n"
  then have "storage n = d" by (simp add: stays_frozen_def frozen_def)
  then have "on_db q n = (Val x, n)" using assms [OF n] by (simp add: on_db_def)
  then show "\<exists>y m. on_db q n = (Val y, m) \<and> stays_frozen F d m \<and> y = x" using n by blast
qed

lemma peer_last: "peer.safe F d (t_db (getLastLogIndex F)) (\<lambda>l. l = int (length (log_entries d)))"
  by (rule peer_query) (simp add: stays_frozen_def sqlite.last_index)

lemma peer_entry: "peer.safe F d (t_db (getLogEntry F i)) (\<lambda>_. True)"
proof -
  have "peer.safe F d (t_db (getLogEntry F i)) (\<lambda>y. y = (case getLogEntry F i d of (Val x, _) \<Rightarrow> x))"
    by (rule peer_query) (simp add: stays_frozen_def usable_log_def storage_defs stmt_ok)
  then show ?thesis by (rule peer.safe_any)
qed

lemma peer_get: "peer.safe F d (t_db (get_kv F k)) (\<lambda>v. v = kv_store d k)"
  by (rule peer_query) (simp add: stays_frozen_def usable_log_def storage_defs stmt_ok)

section \<open>Methods\<close>

lemma stays_frozen_changes:
  assumes "stays_frozen F d n"
  shows "currentRole r \<noteq> LEADER \<Longrightarrow> stays_frozen F d (n\<lparr>state := r\<rparr>)" "stays_frozen F d (n\<lparr>votedFor := v\<rparr>)"
    and "\<forall>p. Send_Task p \<notin> set ts \<Longrightarrow> stays_frozen F d (n\<lparr>tasks := ts\<rparr>)" "stays_frozen F d (n\<lparr>electionTimer := e\<rparr>)"
  using assms by (simp_all add: stays_frozen_def frozen_def)

lemma stays_frozen_parts:
  assumes "stays_frozen F d n"
  shows "currentRole (state n) \<noteq> LEADER" "peers n \<noteq> []" "running n" "Send_Task p \<notin> set (tasks n)"
  using assms by (simp_all add: stays_frozen_def frozen_def)

lemma peer_becomeFollower: "peer.safe F d (t_becomeFollower tm) (\<lambda>_. True)"
  unfolding t_becomeFollower_def
  by (intro peer.safe_then peer_modify stays_frozen_changes) (auto dest: stays_frozen_parts)

lemma peer_becomeCandidate: "peer.safe F d t_becomeCandidate (\<lambda>_. True)"
  unfolding t_becomeCandidate_def
  by (intro peer.safe_then peer_modify peer_read stays_frozen_changes) (auto dest: stays_frozen_parts)

lemma peer_electionCallback: "peer.safe F d (t_electionCallback F) (\<lambda>_. True)"
proof -
  have fails: "count_true (voteFutures n) = Exc ClassCastException" if "stays_frozen F d n" for n
    using stays_frozen_parts(2) [OF that] by (cases "peers n") (simp_all add: voteFutures_def)
  have split: "t_electionCallback F = tbind (t_read voteFutures) (\<lambda>fs.
      tcatch (tbind (Halt (count_true fs)) (\<lambda>k. tbind (t_read peersSize) (\<lambda>n_peers.
        if quorum (k + 1) n_peers then t_becomeLeader F else tret ()))) (\<lambda>e. tret ()))"
    by (simp add: t_electionCallback_def t_read_def atomic_def read_node_def fun_eq_iff)
  have "peer.safe F d (tcatch (tbind (Halt (count_true fs)) g) (\<lambda>e. tret ())) (\<lambda>_. True)"
    if "count_true fs = Exc ClassCastException" for fs and g :: "int \<Rightarrow> unit raft_thread"
    using that by (simp add: peer.safe_ret)
  then show ?thesis
    unfolding split by (intro peer.safe_bind [OF peer_read [where Q = "\<lambda>fs. count_true fs = Exc ClassCastException"]] fails)
qed

lemma peer_submit: "(\<And>p. t \<noteq> Send_Task p) \<Longrightarrow> peer.safe F d (t_submit t) (\<lambda>_. True)"
  unfolding t_submit_def
proof (rule peer_atomic)
  fix n assume n: "stays_frozen F d n" and t: "\<And>p. t \<noteq> Send_Task p"
  have "stays_frozen F d (n\<lparr>tasks := tasks n @ [t]\<rparr>)"
    using stays_frozen_parts(4) [OF n] t by (intro stays_frozen_changes [OF n]) auto
  then show "\<exists>x m. submit t n = (Val x, m) \<and> stays_frozen F d m \<and> True"
    using stays_frozen_parts(3) [OF n] by (simp add: submit_def)
qed

lemma peer_last_term: "peer.safe F d (t_getLastLogTerm F) (\<lambda>_. True)"
  unfolding t_getLastLogTerm_def
  by (intro peer.safe_then [OF peer.safe_any [OF peer_last]] peer.safe_if peer.safe_then [OF peer_entry] peer.safe_ret TrueI)

lemma peer_startElection: "peer.safe F d (t_startElection F) (\<lambda>_. True)"
  unfolding t_startElection_def
proof (rule peer.safe_then [OF peer_becomeCandidate], rule peer.safe_then [OF peer_modify], rule stays_frozen_changes(2), assumption,
    rule peer.safe_then [OF peer.safe_any [OF peer_last]], rule peer.safe_then [OF peer_last_term],
    rule peer.safe_then [OF peer_read], simp, rule peer.safe_then [OF peer.safe_for_each], rule peer_submit, simp)
  fix ids :: "string list"
  show "peer.safe F d (if ids = [] then t_electionCallback F else t_modify (\<lambda>n. n\<lparr>tasks := tasks n @ [Election_Callback]\<rparr>)) (\<lambda>_. True)"
    by (intro peer.safe_if peer_electionCallback peer_modify stays_frozen_changes) (auto dest: stays_frozen_parts(4))
qed

lemma peer_leaderElectionTask: "peer.safe F d (t_leaderElectionTask F) (\<lambda>_. True)"
  unfolding t_leaderElectionTask_def
  by (rule peer.safe_then [OF peer_read], simp, intro peer.safe_if peer_startElection peer.safe_ret TrueI)

lemma peer_heartbeatTask: "peer.safe F d t_heartbeatTask (\<lambda>_. True)"
  unfolding t_heartbeatTask_def
proof (rule peer.safe_bind [OF peer_read [where Q = "\<lambda>r. r \<noteq> LEADER"]], rule stays_frozen_parts(1), assumption)
  show "peer.safe F d (if r = LEADER then tbind (t_read (\<lambda>n. map fst (peers n))) (t_for_each (\<lambda>p. t_submit (Send_Task p))) else tret ()) (\<lambda>_. True)"
    if "r \<noteq> LEADER" for r
    using that by (simp add: peer.safe_ret)
qed

lemma peer_requestVote: "peer.safe F d (t_requestVote rpc p i t) (\<lambda>_. True)"
  unfolding t_requestVote_def
proof (rule peer.safe_then [OF peer_read], simp, rule peer.safe_then [OF peer_read], simp)
  fix tm me
  show "peer.safe F d (case rpc p \<lparr>vr_term = tm, vr_candidateId = me, vr_lastLogIndex = i, vr_lastLogTerm = t\<rparr> of
       None \<Rightarrow> tret False
     | Some response \<Rightarrow>
         tbind (t_read (\<lambda>n. currentTerm (state n))) (\<lambda>current.
         if vs_term response > current then
           tbind (t_modify (\<lambda>n. n\<lparr>state := setCurrentTerm (vs_term response) (state n)\<rparr>)) (\<lambda>_.
           tbind (t_becomeFollower (vs_term response)) (\<lambda>_.
           tbind (t_modify (\<lambda>n. n\<lparr>votedFor := None\<rparr>)) (\<lambda>_. tret False)))
         else tret (vs_voteGranted response))) (\<lambda>_. True)"
  proof (cases "rpc p \<lparr>vr_term = tm, vr_candidateId = me, vr_lastLogIndex = i, vr_lastLogTerm = t\<rparr>")
    case None
    then show ?thesis by (simp add: peer.safe_ret)
  next
    case (Some response)
    show ?thesis
      unfolding Some option.case
      by (rule peer.safe_then [OF peer_read], simp,
          intro peer.safe_if peer.safe_then peer_modify peer_becomeFollower stays_frozen_changes peer.safe_ret TrueI)
        (auto dest: stays_frozen_parts)
  qed
qed

lemma peer_put: "peer.safe F d (t_proposeEntry F k v) (\<lambda>b. \<not> b)"
  unfolding t_proposeEntry_def
proof (rule peer.safe_bind [OF peer_read [where Q = "\<lambda>r. r \<noteq> LEADER"]], rule stays_frozen_parts(1), assumption)
  show "peer.safe F d (if r \<noteq> LEADER then tret False else tbind (t_read (\<lambda>n. currentTerm (state n))) (\<lambda>tm.
      tbind (t_db (appendLogEntry F (new_entry tm k v))) (\<lambda>_. tbind (t_db (getLastLogIndex F)) (\<lambda>_. t_replicateEntry F)))) (\<lambda>b. \<not> b)"
    if "r \<noteq> LEADER" for r
    using that by (simp add: peer.safe_ret)
qed

section \<open>Jobs\<close>

text \<open>The jobs of a server whose node nobody but itself sends entries to.\<close>

fun own_job :: "job \<Rightarrow> bool" where
  "own_job (Serve (Heartbeat p)) \<longleftrightarrow> False"
| "own_job (Receive leader tm prev prev_term es leaderCommit) \<longleftrightarrow> False"
| "own_job _ \<longleftrightarrow> True"

text \<open>What they answer.\<close>

definition refusal :: "db \<Rightarrow> job \<Rightarrow> reply option" where
  "refusal d j = (case j of
     Serve (Put k v) \<Rightarrow> Some (Put_Reply \<lparr>pr_success = False, pr_old_value = ''''\<rparr>)
   | Serve (Get k) \<Rightarrow> Some (Get_Reply (answer (kv_store d k)))
   | _ \<Rightarrow> None)"

lemma peer_task:
  assumes "\<And>p. t \<noteq> Send_Task p"
  shows "peer.safe F d (t_run_task F rpc t) (\<lambda>_. True)"
proof (cases t)
  case (Vote_Task p i j)
  show ?thesis
    unfolding t_run_task_def Vote_Task task.case by (intro peer.safe_then [OF peer_requestVote] peer.safe_ret TrueI)
next
  case Election_Callback
  show ?thesis unfolding t_run_task_def Election_Callback task.case by (rule peer_electionCallback)
qed (use assms in simp)

lemma peer_work: "peer.safe F d (t_job F (Work i vote)) (\<lambda>r. r = None)"
  unfolding t_job_def job.case
proof (rule peer.safe_bind [OF peer_atomic [where Q = "\<lambda>t. \<forall>p. t \<noteq> Some (Send_Task p)"]])
  fix n assume n: "stays_frozen F d n"
  have "Send_Task p \<notin> set (take i (tasks n) @ drop (Suc i) (tasks n))" for p
    using stays_frozen_parts(4) [OF n, of p] by (auto dest: in_set_takeD in_set_dropD)
  then have "stays_frozen F d (n\<lparr>tasks := take i (tasks n) @ drop (Suc i) (tasks n)\<rparr>)" by (intro stays_frozen_changes [OF n]) blast
  moreover have "i < length (tasks n) \<Longrightarrow> tasks n ! i \<noteq> Send_Task p" for p
    using stays_frozen_parts(4) [OF n] by (metis nth_mem)
  ultimately show "\<exists>x m. take_task i n = (Val x, m) \<and> stays_frozen F d m \<and> (\<forall>p. x \<noteq> Some (Send_Task p))"
    using n by (simp add: take_task_def)
next
  fix t assume t: "\<forall>p. t \<noteq> Some (Send_Task p)"
  have "peer.safe F d (case t of None \<Rightarrow> tret () | Some t \<Rightarrow> t_run_task F (\<lambda>_ _. vote) t) (\<lambda>_. True)"
    by (intro peer.safe_option peer_task peer.safe_ret TrueI) (use t in auto)
  then show "peer.safe F d (tbind (case t of None \<Rightarrow> tret () | Some t \<Rightarrow> t_run_task F (\<lambda>_ _. vote) t) (\<lambda>_. tret None)) (\<lambda>r. r = None)"
    by (rule peer.safe_then) (rule peer.safe_ret, rule refl)
qed

lemma peer_job:
  assumes "own_job j"
  shows "peer.safe F d (t_job F j) (\<lambda>r. r = refusal d j)"
proof (cases j)
  case (Serve c)
  show ?thesis
  proof (cases c)
    case (Put k v)
    have "peer.safe F d (t_call F c) (\<lambda>r. r = Put_Reply \<lparr>pr_success = False, pr_old_value = ''''\<rparr>)"
      unfolding t_call_def Put call.case by (rule peer.safe_bind [OF peer_put], rule peer.safe_ret) simp
    then show ?thesis
      unfolding t_job_def Serve job.case by (rule peer.safe_bind) (rule peer.safe_ret, simp add: refusal_def Put)
  next
    case (Get k)
    have "peer.safe F d (t_call F c) (\<lambda>r. r = Get_Reply (answer (kv_store d k)))"
      unfolding t_call_def Get call.case by (rule peer.safe_bind [OF peer_get], rule peer.safe_ret) (simp add: answer_def)
    then show ?thesis
      unfolding t_job_def Serve job.case by (rule peer.safe_bind) (rule peer.safe_ret, simp add: refusal_def Get)
  qed (use assms Serve in simp)
next
  case (Election_Ticks k)
  show ?thesis
    unfolding t_job_def Election_Ticks job.case
    by (rule peer.safe_then [OF peer.safe_for_each], rule peer_leaderElectionTask, rule peer.safe_ret) (simp add: refusal_def)
next
  case (Heartbeat_Ticks k)
  show ?thesis
    unfolding t_job_def Heartbeat_Ticks job.case
    by (rule peer.safe_then [OF peer.safe_for_each], rule peer_heartbeatTask, rule peer.safe_ret) (simp add: refusal_def)
next
  case (Work i vote)
  show ?thesis using peer_work [of F d i vote] by (simp add: Work refusal_def)
next
  case Timer
  have "peer.safe F d (atomic take_timer) (\<lambda>_. True)"
    by (rule peer_atomic) (auto simp: take_timer_def intro: stays_frozen_changes)
  then show ?thesis
    unfolding t_job_def Timer job.case
    by (rule peer.safe_then, intro peer.safe_then peer.safe_if peer_startElection peer.safe_ret) (simp_all add: refusal_def)
qed (use assms in simp)

end
