(* ===== verification/Fault_Properties.thy ===== *)
theory Fault_Properties
  imports Raft_Types Server_Properties
begin

text \<open>
  The node on a database that fails: what it keeps whatever fails, and what is lost where
  \<open>SQLiteStorage.java\<close> prints an exception and goes on.
\<close>

section \<open>A new node is well-formed\<close>

lemma initializeGrpcChannels_keys:
  assumes "set ids \<subseteq> fst ` set ps"
  shows "distinct (map fst (initializeGrpcChannels ps ids)) \<and> fst ` set (initializeGrpcChannels ps ids) = set ids"
proof -
  have "distinct (map fst cs) \<Longrightarrow>
      distinct (map fst (fold (\<lambda>id channels. case map_of ps id of None \<Rightarrow> channels
        | Some info \<Rightarrow> AList.update id (ni_host info, ni_port info) channels) ids cs)) \<and>
      fst ` set (fold (\<lambda>id channels. case map_of ps id of None \<Rightarrow> channels
        | Some info \<Rightarrow> AList.update id (ni_host info, ni_port info) channels) ids cs) = set ids \<union> fst ` set cs" for cs
    using assms
  proof (induction ids arbitrary: cs)
    case (Cons i ids)
    then obtain info where "map_of ps i = Some info" by (metis insert_subset list.simps(15) map_of_eq_None_iff option.exhaust)
    then show ?case using Cons by (simp add: distinct_update dom_update)
  qed simp
  from this [of "[]"] show ?thesis by (simp add: initializeGrpcChannels_def)
qed

lemma RaftNode_wf:
  assumes "wf_db d" and "\<forall>k. 0 \<le> rnd k \<and> rnd k < 150"
  shows "wf_node (map fst (peers (RaftNode rnd i ps d))) (RaftNode rnd i ps d)"
proof -
  let ?n = "RaftNode rnd i ps d"
  have "grpcChannels ?n = initializeGrpcChannels (peers ?n) ps" by (simp add: RaftNode_def Let_def)
  moreover have "set ps \<subseteq> fst ` set (peers ?n)" "set (map fst (peers ?n)) = set ps"
    using RaftNode_peers(2) [of rnd i ps d] by auto
  ultimately have "distinct (map fst (grpcChannels ?n))" "fst ` set (grpcChannels ?n) = set (map fst (peers ?n))"
    using initializeGrpcChannels_keys [of ps "peers ?n"] by simp_all
  moreover have "distinct (map fst (peers ?n))" by (rule RaftNode_peers(1))
  moreover have "storage ?n = d" "nextIndex ?n = []" "matchIndex ?n = []" "electionTimer ?n = None" "tasks ?n = []" "random ?n = rnd"
    by (simp_all add: RaftNode_def Let_def)
  ultimately show ?thesis using assms by (simp add: wf_node_def wf_map_def)
qed

text \<open>
  A node stays well-formed through every sequence of steps, whatever statements of the database fail,
  whatever messages arrive and however the methods end: its log is numbered from 1 without gaps, the
  indices are not negative, it knows each peer of its configuration once and has a channel to exactly those,
  \<open>nextIndex\<close> is at least 1 and \<open>matchIndex\<close> at least 0 for peers only, a pending election timer is due in
  150 to 299 milliseconds, and the waiting tasks concern peers.
\<close>

theorem node_stays_well_formed:
  assumes "wf_db d" and "\<forall>k. 0 \<le> rnd k \<and> rnd k < 150" and "(node_step F)\<^sup>*\<^sup>* (RaftNode rnd i ps d) m"
  shows "\<exists>ids. set ids = set ps \<and> wf_node ids m"
  using typed_node.inv_steps [OF assms(3) RaftNode_wf [OF assms(1,2)]] RaftNode_peers(2) by blast

theorem node_stays_well_formed_witness:
  "\<exists>m ids. (node_step (\<lambda>_ _. True))\<^sup>*\<^sup>* (RaftNode (\<lambda>_. 7) ''a:1'' [''b'', ''c''] fresh_db) m \<and> set ids = {''b'', ''c''} \<and> wf_node ids m"
proof -
  let ?n = "RaftNode (\<lambda>_. 7) ''a:1'' [''b'', ''c''] fresh_db"
  obtain r m where "appendEntries (\<lambda>_ _. True) ''b'' 5 0 0 [] 0 ?n = (r, m)" by fastforce
  then have "(node_step (\<lambda>_ _. True))\<^sup>*\<^sup>* ?n m" using receive by blast
  moreover have "wf_db fresh_db" by (simp add: wf_db_def fresh_db_def)
  ultimately show ?thesis using node_stays_well_formed [of fresh_db "\<lambda>_. 7"] by fastforce
qed

section \<open>Statements that fail\<close>

definition only_fails :: "sql \<Rightarrow> faults \<Rightarrow> bool" where
  "only_fails q F \<longleftrightarrow> (\<forall>d q'. F d q' \<longleftrightarrow> q' = q)"

lemma only_fails_stmt:
  assumes "only_fails q F" and "conn_open d"
  shows "stmt F q' f d = (if q' = q then (Exc SQLException, d) else (Val (fst (f d)), snd (f d)))"
  using assms by (simp add: stmt_def only_fails_def split: prod.split)

lemma only_fails_ops:
  assumes "only_fails q F" and "conn_open d" and "indexed (logs d)"
  shows "q \<noteq> Select_Max \<Longrightarrow> getLastLogIndex F d = (Val (int (length (log_entries d))), d)"
    and "q \<noteq> Select_Entry \<Longrightarrow> getLogEntry F i d =
      (Val (if 1 \<le> i \<and> i \<le> int (length (log_entries d)) then Some (log_entries d ! nat (i - 1)) else None), d)"
    and "q \<noteq> Select_Commit \<Longrightarrow> getCommitIndex F d = (Val (commit_of d), d)"
    and "q \<noteq> Select_Applied \<Longrightarrow> getLastApplied F d = (Val (applied_of d), d)"
    and "q \<noteq> Update_Applied \<Longrightarrow> setLastApplied F a d = (Val (), with_applied a d)"
  using assms by (auto simp: storage_defs or_throw_def or_print_def only_fails_stmt max_index_indexed find_indexed log_entries_def
      commit_of_def applied_of_def with_applied_def)

lemma append_when_delete_fails:
  assumes "only_fails Delete_From F" and "conn_open (storage n)" and "indexed (logs (storage n))"
    and "i < length (node_log n)" and "le_term (node_log n ! i) \<noteq> le_term e"
  shows "\<exists>d. append_loop F (int i + 1) [e] n = (Val (), n\<lparr>storage := d\<rparr>) \<and> log_entries d = node_log n @ [stored e] \<and>
     conn_open d \<and> indexed (logs d) \<and> commit_of d = node_commit n"
proof -
  note ops = only_fails_ops [OF assms(1-3), simplified]
  have delete: "deleteLogEntriesFrom F (int i + 1) (storage n) = (Val (), storage n)"
    using assms(1,2) by (simp add: deleteLogEntriesFrom_def or_print_def only_fails_stmt)
  obtain d where d: "appendLogEntry F e (storage n) = (Val (int (length (node_log n)) + 1), d)" "log_entries d = node_log n @ [stored e]"
    "conn_open d" "indexed (logs d)" "commit_of d = node_commit n"
    using assms(1-3) by (simp add: appendLogEntry_def or_throw_def only_fails_stmt Let_def max_index_indexed log_entries_def
        entry_of_def commit_of_def)
  have "append_loop F (int i + 1) [e] n = (Val (), n\<lparr>storage := d\<rparr>)"
    using assms(4,5) delete d(1) ops by simp
  then show ?thesis using d by blast
qed

text \<open>
  C35. When the database fails to delete the entries that contradict the leader, \<open>deleteLogEntriesFrom\<close> prints the
  exception and returns: \<open>appendEntries\<close> goes on, adds the leader's entry at the end of the contradicting log instead of
  at its place, and answers that the logs agree.
\<close>

theorem failed_delete_accepts_conflict:
  assumes "only_fails Delete_From F" and "conn_open (storage n)" and "indexed (logs (storage n))" and "running n"
    and "currentTerm (state n) \<le> tm" and "prev_matches n (int i) prev_term"
    and "i < length (node_log n)" and "le_term (node_log n ! i) \<noteq> le_term e" and "leaderCommit \<le> node_commit n"
  shows "\<exists>m. appendEntries F leader tm (int i) prev_term [e] leaderCommit n = (Val True, m) \<and>
    node_log m = node_log n @ [stored e] \<and> le_term (node_log m ! i) \<noteq> le_term e"
proof -
  let ?h = "heard tm n"
  have h: "conn_open (storage ?h)" "indexed (logs (storage ?h))" "i < length (node_log ?h)" "le_term (node_log ?h ! i) \<noteq> le_term e"
    using assms by simp_all
  note ops = only_fails_ops [OF assms(1) h(1,2), simplified]
  obtain d where d: "append_loop F (int i + 1) [e] ?h = (Val (), ?h\<lparr>storage := d\<rparr>)" "log_entries d = node_log n @ [stored e]"
    "conn_open d" "indexed (logs d)" "commit_of d = node_commit n"
    using append_when_delete_fails [OF assms(1) h] by auto
  have "?h\<lparr>storage := storage n\<rparr> = ?h" by (simp add: heard_def Let_def)
  then have last: "on_db (getLastLogIndex F) ?h = (Val (int (length (node_log n))), ?h)" using ops(1) by simp
  have differs: "prev_differs F (int i) prev_term ?h = (Val False, ?h)"
    using assms(6,7) ops(2) by (auto simp: prev_differs_def prev_matches_def)
  have commit: "on_db (getCommitIndex F) (?h\<lparr>storage := d\<rparr>) = (Val (node_commit n), ?h\<lparr>storage := d\<rparr>)"
    using only_fails_ops(3) [OF assms(1) d(3,4)] d(5) by simp
  have "accept_entries F (int i) [e] leaderCommit ?h = (Val True, ?h\<lparr>storage := d\<rparr>)"
    unfolding accept_entries_def using d(1) commit assms(9) by (simp del: append_loop.simps)
  then have "appendEntries F leader tm (int i) prev_term [e] leaderCommit n = (Val True, ?h\<lparr>storage := d\<rparr>)"
    unfolding appendEntries_heard [OF assms(4,5)] using assms(7) by (auto simp: bind_Val_iff last differs)
  then show ?thesis using d(2) assms(7,8) by (simp add: nth_append)
qed

theorem failed_delete_accepts_conflict_witness:
  "\<exists>m. appendEntries (\<lambda>_ q. q = Delete_From) ''b'' 3 (int 0) 0 [new_entry 3 ''x'' ''y''] 0 (sample_node [''b''] one_entry_db) = (Val True, m) \<and>
     node_log m = [new_entry 2 ''k'' ''v'', new_entry 3 ''x'' ''y'']"
proof -
  have "indexed (logs one_entry_db)" "conn_open one_entry_db" by (simp_all add: one_entry_db_def fresh_db_def indexed_def)
  then show ?thesis
    using failed_delete_accepts_conflict [of "\<lambda>_ q. q = Delete_From" "sample_node [''b''] one_entry_db" 3 0 0 "new_entry 3 ''x'' ''y''" 0 "''b''"]
    by (auto simp: only_fails_def prev_matches_def new_entry_def)
qed

lemma for_each_same: "(\<And>x. x \<in> set xs \<Longrightarrow> f x n = (Val (), n)) \<Longrightarrow> for_each f xs n = (Val (), n)"
  by (induction xs) simp_all

text \<open>
  C36. When the database fails to write the key-value table, \<open>updateKeyValue\<close> prints the exception and returns:
  \<open>applyCommittedEntries\<close> leaves the table as it is and still counts all committed entries as applied, so that they
  are never applied again.
\<close>

theorem failed_upsert_counts_as_applied:
  assumes "only_fails Upsert_Kv F" and "conn_open (storage n)" and "indexed (logs (storage n))"
    and "0 \<le> node_applied n" and "node_applied n \<le> node_commit n" and "node_commit n \<le> int (length (node_log n))"
  shows "applyCommittedEntries F n = (Val (), n\<lparr>storage := with_applied (node_commit n) (storage n)\<rparr>)"
proof -
  note ops = only_fails_ops [OF assms(1-3), simplified]
  have upsert: "updateKeyValue F k v (storage n) = (Val (), storage n)" for k v
    using assms(1,2) by (simp add: updateKeyValue_def or_print_def only_fails_stmt)
  have "for_each (\<lambda>i. bind (on_db (getLogEntry F i)) (applyToStateMachine F)) [node_applied n + 1..node_commit n] n = (Val (), n)"
    by (rule for_each_same) (use assms(4,6) ops(2) upsert in \<open>simp add: applyToStateMachine_def\<close>)
  then show ?thesis using ops(3-5) assms(5) by (simp add: applyCommittedEntries_def max_def)
qed

theorem failed_upsert_counts_as_applied_witness:
  "let n = sample_node [] (with_commit 1 one_entry_db) in
     applyCommittedEntries (\<lambda>_ q. q = Upsert_Kv) n = (Val (), n\<lparr>storage := with_applied 1 (with_commit 1 one_entry_db)\<rparr>)"
proof -
  have "indexed (logs one_entry_db)" "conn_open one_entry_db" by (simp_all add: one_entry_db_def fresh_db_def indexed_def)
  then show ?thesis
    using failed_upsert_counts_as_applied [of "\<lambda>_ q. q = Upsert_Kv" "sample_node [] (with_commit 1 one_entry_db)"]
    by (simp add: only_fails_def Let_def)
qed

end
