(* ===== verification/Job_Properties.thy ===== *)
theory Job_Properties
  imports Thread_Properties Typed_Threads Peer_Pool Fault_Properties
begin

text \<open>
  The properties of a whole server process, all of its threads interleaved action by action: elections and calls
  of a server without peers, a crash at any action of it, a server with peers, and what holds on any database.
\<close>

section \<open>A server without peers\<close>

text \<open>The term in which a node without peers leads, now or after its next election.\<close>

definition leading_term :: "raft_node \<Rightarrow> int" where
  "leading_term n = (if currentRole (state n) = LEADER then currentTerm (state n) else jlong (currentTerm (state n) + 1))"

lemma jobs_keep:
  assumes "pool_inv F n" and "peers n = []" and "\<forall>j\<in>set js. alone_job j"
    and "pool_step\<^sup>*\<^sup>* (map (t_job F) (Election_Ticks (Suc k) # js), n) (us, m)"
  shows "pool_at F (leading_term n) m" "extends False n m" "length us = Suc (length js)"
    and "us ! 0 = Halt r \<Longrightarrow> r = Val None \<and> currentRole (state m) = LEADER"
    and "i < length js \<Longrightarrow> us ! Suc i = Halt r \<Longrightarrow> \<exists>x. r = Val x \<and> job_answered (js ! i) x m"
    and "us ! 0 = Halt (Val None) \<Longrightarrow> (\<And>i. i < length js \<Longrightarrow> us ! Suc i = Halt (Val (x i))) \<Longrightarrow>
      mset (node_log m) = mset (node_log n) + (\<Sum>i\<leftarrow>[0..<length js]. job_emitted (leading_term n) (js ! i) (x i))"
proof -
  let ?T = "leading_term n" and ?js = "Election_Ticks (Suc k) # js" and ?ks = "True # replicate (length js) False"
  define E where "E i = (case i of 0 \<Rightarrow> \<lambda>_. {#} | Suc i \<Rightarrow> job_emitted ?T (js ! i))" for i
  define Q where "Q i = (case i of 0 \<Rightarrow> \<lambda>r u. r = None \<and> currentRole (state u) = LEADER | Suc i \<Rightarrow> job_answered (js ! i))" for i
  have at: "pool_at F ?T n" and elect: "electable ?T n" using assms(1) by (simp_all add: pool_at_def leading_term_def electable_def)
  have len: "length ?ks = length (map (t_job F) ?js)" by simp
  have each: "pool.emits F ?T False (?ks ! i) n (map (t_job F) ?js ! i) {#} (E i) (Q i)" if i: "i < length (map (t_job F) ?js)" for i
  proof (cases i)
    case 0
    show ?thesis using elects_job [OF at assms(2) elect, of k] unfolding 0 E_def Q_def by simp
  next
    case (Suc j)
    then have "alone_job (js ! j)" "j < length js" using i assms(3) by simp_all
    then show ?thesis using pool_alone_job [OF at, of "js ! j"] unfolding Suc E_def Q_def by simp
  qed
  note pool = assms(4) at len compatible_elector each
  from pool.pool_keeps [OF pool] show "pool_at F ?T m" "extends False n m" and us: "length us = Suc (length js)" by simp_all
  show "r = Val None \<and> currentRole (state m) = LEADER" if "us ! 0 = Halt r"
    using pool.pool_result [OF pool, of 0 r] that us by (auto simp: Q_def)
  show "\<exists>x. r = Val x \<and> job_answered (js ! i) x m" if "i < length js" "us ! Suc i = Halt r"
    using pool.pool_result [OF pool, of "Suc i" r] that us by (simp add: Q_def)
  show "mset (node_log m) = mset (node_log n) + (\<Sum>i\<leftarrow>[0..<length js]. job_emitted ?T (js ! i) (x i))"
    if "us ! 0 = Halt (Val None)" "\<And>i. i < length js \<Longrightarrow> us ! Suc i = Halt (Val (x i))"
  proof -
    have "us ! i = Halt (Val (case i of 0 \<Rightarrow> None | Suc i \<Rightarrow> x i))" if "i < length (map (t_job F) ?js)" for i
      using that \<open>us ! 0 = Halt (Val None)\<close> \<open>\<And>i. i < length js \<Longrightarrow> us ! Suc i = Halt (Val (x i))\<close> by (cases i) simp_all
    from pool.pool_total [OF pool this] show ?thesis
      by (simp add: E_def upt_conv_Cons map_Suc_upt [symmetric] comp_def del: upt_Suc)
  qed
qed

text \<open>
  C5. A server without peers, with its elections, its heartbeats and any number of puts and gets interleaved action
  by action: every run ends, nothing throws, the node leads, in the term after the one it started in, and
  every call has its answer. The log has grown by exactly the entries of the puts that were answered with success,
  each once.
\<close>

theorem concurrent_server_elects_and_serves:
  assumes "pool_inv F n" and "peers n = []" and "\<forall>j\<in>set js. alone_job j"
    and "maximal_run f" and "f 0 = (map (t_job F) (Election_Ticks (Suc k) # js), n)"
  shows "\<exists>i m rs es. f i = (Halt (Val None) # map (\<lambda>r. Halt (Val r)) rs, m) \<and>
    currentRole (state m) = LEADER \<and> currentTerm (state m) = leading_term n \<and>
    length rs = length js \<and> (\<forall>j<length js. job_answered (js ! j) (rs ! j) m) \<and>
    node_log m = node_log n @ es \<and> mset es = sum_list (map2 (job_emitted (leading_term n)) js rs)"
proof -
  obtain i where ended: "\<forall>t\<in>set (fst (f i)). \<exists>r. t = Halt r" using maximal_run_ends [OF assms(4)] by blast
  obtain us m where c: "f i = (us, m)" by fastforce
  have "pool_step\<^sup>*\<^sup>* (map (t_job F) (Election_Ticks (Suc k) # js), n) (us, m)"
    using maximal_run_steps [OF assms(4), of i] assms(5) c by simp
  note keep = jobs_keep [OF assms(1-3) this]
  have halts: "\<exists>r. us ! j = Halt r" if "j < Suc (length js)" for j
    using ended c keep(3) that nth_mem [of j us] by auto
  obtain r where r: "us ! 0 = Halt r" using halts [of 0] by auto
  have lead: "us ! 0 = Halt (Val None)" "currentRole (state m) = LEADER" using keep(4) [OF r] r by auto
  have "\<exists>x. us ! Suc j = Halt (Val x) \<and> job_answered (js ! j) x m" if "j < length js" for j
    using halts [of "Suc j"] keep(5) [OF that] that by fastforce
  then obtain x where x: "\<And>j. j < length js \<Longrightarrow> us ! Suc j = Halt (Val (x j)) \<and> job_answered (js ! j) (x j) m" by metis
  define rs where "rs = map x [0..<length js]"
  have us: "us = Halt (Val None) # map (\<lambda>r. Halt (Val r)) rs"
    using keep(3) lead(1) x by (intro nth_equalityI) (auto simp: rs_def nth_Cons split: nat.split)
  have "map2 (job_emitted (leading_term n)) js rs = map (\<lambda>i. job_emitted (leading_term n) (js ! i) (x i)) [0..<length js]"
    by (intro nth_equalityI) (simp_all add: rs_def)
  then have "mset (node_log m) = mset (node_log n) + sum_list (map2 (job_emitted (leading_term n)) js rs)"
    using keep(6) [OF lead(1)] x by simp
  moreover obtain es where "node_log m = node_log n @ es" using keep(2) by (auto simp: extends_def)
  moreover have "currentTerm (state m) = leading_term n" using keep(1) lead(2) by (simp add: pool_at_def)
  ultimately show ?thesis using c us lead(2) x by (intro exI [of _ i] exI [of _ m] exI [of _ rs] exI [of _ es]) (simp add: rs_def)
qed

lemma fresh_pool [simp]: "pool_inv no_faults (sample_node [] fresh_db)"
  by (simp add: pool_inv_def)

theorem concurrent_server_elects_and_serves_witness:
  "\<exists>f i us m. maximal_run f \<and>
     f 0 = (map (t_job no_faults) [Election_Ticks 1, Serve (Put ''k'' ''v''), Serve (Get ''k''), Heartbeat_Ticks 2], sample_node [] fresh_db) \<and>
     f i = (us, m) \<and> currentRole (state m) = LEADER \<and> currentTerm (state m) = 1"
proof -
  let ?js = "[Serve (Put ''k'' ''v''), Serve (Get ''k''), Heartbeat_Ticks 2]" and ?n = "sample_node [] fresh_db"
  obtain f where f: "maximal_run f" "f 0 = (map (t_job no_faults) (Election_Ticks (Suc 0) # ?js), ?n)" using maximal_run_exists by blast
  have "leading_term ?n = 1" by (simp add: leading_term_def jlong_def)
  moreover have "\<exists>i us m. f i = (us, m) \<and> currentRole (state m) = LEADER \<and> currentTerm (state m) = leading_term ?n"
    using concurrent_server_elects_and_serves [OF fresh_pool _ _ f] by fastforce
  ultimately show ?thesis using f by auto
qed

text \<open>
  C6. An acknowledged put survives. The process of a server without peers is killed at any action, with all its threads
  wherever they are, and a new process is started on the database. Once that has elected itself and taken one put, a
  get of every key whose put was answered with success before the crash finds a value that was logged for the
  key, and the entry of the put is in the log.
\<close>

theorem acknowledged_put_survives_crash:
  assumes "pool_inv F n" and "peers n = []" and "\<forall>j\<in>set js. alone_job j"
    and "pool_step\<^sup>*\<^sup>* (map (t_job F) (Election_Ticks (Suc t) # js), n) (us, m)"
    and "j < length js" and "js ! j = Serve (Put k v)" and "us ! Suc j = Halt (Val (Some (Put_Reply p)))" and "pr_success p"
    and "connects url"
  shows "\<exists>d n' m'. SQLiteStorage F connects url ((storage m)\<lparr>conn_open := False\<rparr>) = (Val (), d) \<and>
    leaderElectionTask F (RaftNode rnd i [] d) = (Val (), n') \<and>
    service_put F k' v' n' = (Val \<lparr>pr_success = True, pr_old_value = ''''\<rparr>, m') \<and>
    new_entry (leading_term n) k v \<in> set (node_log m') \<and>
    (\<exists>e\<in>set (node_log m'). le_key e = k \<and> service_get F k m' = (Val \<lparr>gr_value = le_value e, gr_found = True\<rparr>, m'))"
proof -
  note keep = jobs_keep [OF assms(1-4)]
  let ?e = "new_entry (leading_term n) k v"
  have "job_answered (js ! j) (Some (Put_Reply p)) m" using keep(5) [OF assms(5,7)] by simp
  then have "currentRole (state m) = LEADER" "new_entry (currentTerm (state m)) k v \<in> set (node_log m)"
    using assms(6,8) by (auto simp: job_answered_def answered_def proposal_kept_def)
  then have e: "?e \<in> set (node_log m)" using keep(1) by (simp add: pool_at_def)
  have "pool_inv F m" using keep(1) by (simp add: pool_at_def)
  then obtain d where d: "SQLiteStorage F connects url ((storage m)\<lparr>conn_open := False\<rparr>) = (Val (), d)"
    "pool_inv F (RaftNode rnd i [] d)" "log_entries d = node_log m"
    using restart_pool [of F m connects url rnd i] assms(9) by blast
  then obtain n' m' where m': "leaderElectionTask F (RaftNode rnd i [] d) = (Val (), n')"
    "service_put F k' v' n' = (Val \<lparr>pr_success = True, pr_old_value = ''''\<rparr>, m')" "pool_inv F m'"
    "node_log m' = node_log m @ [new_entry 1 k' v']" "node_applied m' = int (length (node_log m'))"
    using restarted_serves [OF d(2), of k' v'] by auto
  have e': "?e \<in> set (node_log m')" "le_key ?e = k" using e m'(4) by (simp_all add: new_entry_def)
  then show ?thesis using d(1) m'(1,2) all_keys_shown [OF m'(3,5) e'(1)] by metis
qed

text \<open>A put that is answered while the next one has not started, and the crash between them.\<close>

definition crash_run :: "reply option raft_thread list \<times> raft_node" where
  "crash_run = schedule (replicate 20 0 @ replicate 20 1)
     (map (t_job no_faults) [Election_Ticks 1, Serve (Put ''k'' ''v''), Serve (Put ''x'' ''y'')], sample_node [] fresh_db)"

lemma crash_run_acknowledged:
  "ended (fst crash_run ! 1) = Some (Val (Some (Put_Reply \<lparr>pr_success = True, pr_old_value = ''''\<rparr>)))"
  by code_simp

theorem acknowledged_put_survives_crash_witness:
  "\<exists>us m d n' m'. crash_run = (us, m) \<and> SQLiteStorage no_faults (\<lambda>_. True) ''url'' ((storage m)\<lparr>conn_open := False\<rparr>) = (Val (), d) \<and>
     leaderElectionTask no_faults (RaftNode (\<lambda>_. 7) ''a:1'' [] d) = (Val (), n') \<and>
     service_put no_faults ''z'' ''0'' n' = (Val \<lparr>pr_success = True, pr_old_value = ''''\<rparr>, m') \<and>
     new_entry 1 ''k'' ''v'' \<in> set (node_log m')"
proof -
  let ?js = "[Serve (Put ''k'' ''v''), Serve (Put ''x'' ''y'')]" and ?n = "sample_node [] fresh_db"
  obtain us m where c: "crash_run = (us, m)" by fastforce
  have steps: "pool_step\<^sup>*\<^sup>* (map (t_job no_faults) (Election_Ticks (Suc 0) # ?js), ?n) (us, m)"
    using schedule_steps [of "(map (t_job no_faults) (Election_Ticks (Suc 0) # ?js), ?n)" "replicate 20 0 @ replicate 20 1"] c
    by (simp add: crash_run_def)
  have "us ! Suc 0 = Halt (Val (Some (Put_Reply \<lparr>pr_success = True, pr_old_value = ''''\<rparr>)))"
  proof -
    have "ended (us ! Suc 0) = Some (Val (Some (Put_Reply \<lparr>pr_success = True, pr_old_value = ''''\<rparr>)))"
      using crash_run_acknowledged unfolding c by simp
    then show ?thesis by (cases "us ! Suc 0") simp_all
  qed
  moreover have "leading_term ?n = 1" by (simp add: leading_term_def jlong_def)
  ultimately show ?thesis
    using acknowledged_put_survives_crash [OF fresh_pool _ _ steps, of 0 "''k''" "''v''" _ "\<lambda>_. True" "''url''" "\<lambda>_. 7" "''a:1''" "''z''" "''0''"] c
    by fastforce
qed

section \<open>A server with peers\<close>

text \<open>
  C15. A server with peers stores nothing, whatever its threads do and however their actions interleave: elections, vote
  requests with any answers, callbacks, timers, heartbeats, puts and gets. The database stays what it was at the
  start, the node never leads, no job throws, every put is refused, and every get answers from the initial table.
\<close>

theorem concurrent_server_with_peers_never_stores:
  assumes "ps \<noteq> []" and "usable_log F d" and "\<forall>j\<in>set js. own_job j"
    and "pool_step\<^sup>*\<^sup>* (map (t_job F) js, RaftNode rnd i ps d) (us, m)"
  shows "storage m = d \<and> currentRole (state m) \<noteq> LEADER \<and> (\<forall>j<length js. \<forall>r. us ! j = Halt r \<longrightarrow> r = Val (refusal d (js ! j)))"
proof -
  have "peers (RaftNode rnd i ps d) \<noteq> []" using RaftNode_peers(2) [of rnd i ps d] assms(1) by auto
  then have "stays_frozen F d (RaftNode rnd i ps d)" using assms(2) by (simp add: stays_frozen_def frozen_def)
  moreover have "peer.safe F d (map (t_job F) js ! j) (\<lambda>r. r = refusal d (js ! j))" if "j < length (map (t_job F) js)" for j
    using that assms(3) peer_job by simp
  ultimately have "stays_frozen F d m"
    and "\<And>j r. j < length js \<Longrightarrow> us ! j = Halt r \<Longrightarrow> r = Val (refusal d (js ! j))"
    using peer.safe_pool [OF assms(4), of F d "\<lambda>j r. r = refusal d (js ! j)"] by auto
  then show ?thesis by (simp add: stays_frozen_def frozen_def)
qed

theorem concurrent_server_with_peers_never_stores_witness:
  "\<exists>us m. pool_step\<^sup>*\<^sup>* (map (t_job no_faults) [Election_Ticks 2, Work 0 None, Timer, Serve (Put ''k'' ''v'')],
       RaftNode (\<lambda>_. 7) ''a:1'' [''b''] fresh_db) (us, m) \<and> storage m = fresh_db"
proof -
  let ?c = "(map (t_job no_faults) [Election_Ticks 2, Work 0 None, Timer, Serve (Put ''k'' ''v'')], RaftNode (\<lambda>_. 7) ''a:1'' [''b''] fresh_db)"
  obtain us m where "schedule [0, 3, 1, 0, 2] ?c = (us, m)" by fastforce
  then have steps: "pool_step\<^sup>*\<^sup>* ?c (us, m)" using schedule_steps [of ?c "[0, 3, 1, 0, 2]"] by simp
  then show ?thesis
    using concurrent_server_with_peers_never_stores [OF _ _ _ steps] by auto
qed

section \<open>Any database\<close>

text \<open>
  C11. A node stays well-formed at every action, whatever jobs run, messages with entries from other nodes included,
  however their actions interleave and whatever statements of the database fail: its log is numbered from 1 without
  gaps, the indices are not negative, it knows each peer of its configuration once and has a channel to exactly
  those, \<open>nextIndex\<close> is at least 1 and \<open>matchIndex\<close> at least 0 for peers only, a pending election timer is due in
  150 to 299 milliseconds, and the waiting tasks concern peers. Every job that has ended has answered or thrown.
\<close>

theorem interleaved_jobs_stay_well_formed:
  assumes "wf_db d" and "\<forall>k. 0 \<le> rnd k \<and> rnd k < 150" and "\<forall>j\<in>set js. wf_job ps j"
    and "pool_step\<^sup>*\<^sup>* (map (t_job F) js, RaftNode rnd i ps d) (us, m)"
  shows "\<exists>ids. set ids = set ps \<and> wf_node ids m \<and>
    (\<forall>j<length js. \<forall>r. us ! j = Halt r \<longrightarrow> (\<exists>x. r = Val x) \<or> (\<exists>e. r = Exc e))"
proof -
  let ?ids = "map fst (peers (RaftNode rnd i ps d))"
  have ids: "set ?ids = set ps" by (rule RaftNode_peers(2))
  have wf: "wf_node ?ids (RaftNode rnd i ps d)" using RaftNode_wf [OF assms(1,2)] .
  have "typed.safe ?ids (map (t_job F) js ! j) (\<lambda>_. True)" if j: "j < length (map (t_job F) js)" for j
  proof -
    have "js ! j \<in> set js" using j by simp
    then have "wf_job ?ids (js ! j)" using assms(3) ids unfolding wf_job_def by blast
    then show ?thesis using typed_job j by simp
  qed
  note safe = typed.safe_pool [OF assms(4) wf this]
  have "(\<exists>x. r = Val x) \<or> (\<exists>e. r = Exc e)" if "j < length js" "us ! j = Halt r" for j r
    using safe(3) [of j r] that by auto
  then show ?thesis using safe(1) ids by blast
qed

theorem interleaved_jobs_stay_well_formed_witness:
  "\<exists>us m ids. pool_step\<^sup>*\<^sup>* (map (t_job (\<lambda>_ _. True)) [Receive ''b'' 5 0 0 [] 0, Election_Ticks 1, Serve (Put ''k'' ''v'')],
       RaftNode (\<lambda>_. 7) ''a:1'' [''b'', ''c''] fresh_db) (us, m) \<and> set ids = {''b'', ''c''} \<and> wf_node ids m"
proof -
  let ?c = "(map (t_job (\<lambda>_ _. True)) [Receive ''b'' 5 0 0 [] 0, Election_Ticks 1, Serve (Put ''k'' ''v'')], RaftNode (\<lambda>_. 7) ''a:1'' [''b'', ''c''] fresh_db)"
  obtain us m where "schedule [0, 1, 2, 0] ?c = (us, m)" by fastforce
  then have steps: "pool_step\<^sup>*\<^sup>* ?c (us, m)" using schedule_steps [of ?c "[0, 1, 2, 0]"] by simp
  have "wf_db fresh_db" by (simp add: wf_db_def fresh_db_def)
  then show ?thesis
    using interleaved_jobs_stay_well_formed [OF _ _ _ steps] steps by (fastforce simp: wf_job_def)
qed

end
