(* ===== verification/Orderly_Threads.thy ===== *)
theory Orderly_Threads
  imports Election_Threads Raft_Types
begin

text \<open>
  What holds of every action of every job, whatever the state: none of them waits forever, and none changes the tables of a
  database whose connection is closed. The hook that stops a server closes the connection under the running threads.
\<close>

section \<open>Actions\<close>

inductive orderly :: "'a raft_thread \<Rightarrow> bool" where
  "r \<noteq> Hang \<Longrightarrow> orderly (Halt r)"
| "(\<And>n. orderly (fst (g n)) \<and> (\<not> conn_open (storage n) \<longrightarrow> storage (snd (g n)) = storage n)) \<Longrightarrow> orderly (Atomic g)"

inductive_simps orderly_simps [simp]: "orderly (Halt r)" "orderly (Atomic g)"

lemma orderly_returns: "orderly t \<Longrightarrow> returns t"
  by (induction rule: orderly.induct) simp_all

lemma orderly_atomic:
  "(\<And>n. fst (m n) \<noteq> Hang \<and> (\<not> conn_open (storage n) \<longrightarrow> storage (snd (m n)) = storage n)) \<Longrightarrow> orderly (atomic m)"
  by (simp add: atomic_def split_beta)

lemma orderly_tbind: "orderly t \<Longrightarrow> (\<And>x. orderly (f x)) \<Longrightarrow> orderly (tbind t f)"
proof (induction rule: orderly.induct)
  case (1 r)
  then show ?case by (cases r) simp_all
qed simp

lemma orderly_tcatch: "orderly t \<Longrightarrow> (\<And>e. orderly (h e)) \<Longrightarrow> orderly (tcatch t h)"
proof (induction rule: orderly.induct)
  case (1 r)
  then show ?case by (cases r) simp_all
qed simp

lemma orderly_for_each: "(\<And>x. orderly (f x)) \<Longrightarrow> orderly (t_for_each f xs)"
  by (induction xs) (simp_all add: orderly_tbind)

lemma orderly_choices:
  "orderly t \<Longrightarrow> orderly u \<Longrightarrow> orderly (if b then t else u)"
  "orderly t \<Longrightarrow> (\<And>y. orderly (f y)) \<Longrightarrow> orderly (case x of None \<Rightarrow> t | Some y \<Rightarrow> f y)"
  "orderly (tret z)" "orderly (tthrow e)"
  by (simp_all split: option.split)

lemma orderly_db: "(\<And>d. fst (q d) \<noteq> Hang \<and> (\<not> conn_open d \<longrightarrow> snd (q d) = d)) \<Longrightarrow> orderly (t_db q)"
  unfolding t_db_def by (rule orderly_atomic) (auto simp: on_db_def split_beta)

lemma orderly_statements:
  "orderly (t_db (appendLogEntry F e))" "orderly (t_db (getLogEntries F i j))" "orderly (t_db (getLogEntry F i))"
  "orderly (t_db (getLastLogIndex F))" "orderly (t_db (deleteLogEntriesFrom F i))" "orderly (t_db (getCommitIndex F))"
  "orderly (t_db (setCommitIndex F i))" "orderly (t_db (getLastApplied F))" "orderly (t_db (setLastApplied F i))"
  "orderly (t_db (updateKeyValue F k v))" "orderly (t_db (get_kv F k))" "orderly (t_db close_storage)"
  by (rule orderly_db, simp add: storage_defs stmt_def or_throw_def or_print_def try_catch_def Let_def close_storage_def)+

lemma orderly_fields:
  "orderly (t_read f)" "(\<And>n. storage (h n) = storage n) \<Longrightarrow> orderly (t_modify h)" "orderly (t_deref x)" "orderly (t_submit t)"
  "orderly (atomic (take_task i))" "orderly (atomic take_timer)"
  by (auto simp: t_read_def t_modify_def t_deref_def t_submit_def submit_def take_task_def take_timer_def split: option.split if_splits intro!: orderly_atomic)

lemmas orderly_rules = orderly_tbind orderly_tcatch orderly_for_each orderly_choices orderly_statements orderly_fields

section \<open>Jobs\<close>

lemma orderly_applyCommittedEntries: "orderly (t_applyCommittedEntries F)"
  unfolding t_applyCommittedEntries_def by (intro orderly_rules)

lemma orderly_append_loop: "orderly (t_append_loop F i es)"
  by (induction es arbitrary: i) (auto intro!: orderly_rules)

lemma orderly_resetElectionTimer: "orderly t_resetElectionTimer"
proof -
  have "orderly (atomic (\<lambda>n. (Val (150 + random n (random_calls n)), n\<lparr>random_calls := random_calls n + 1\<rparr>)))"
    by (rule orderly_atomic) simp
  then show ?thesis unfolding t_resetElectionTimer_def by (intro orderly_rules) simp_all
qed

lemma orderly_becomeFollower: "orderly (t_becomeFollower tm)"
  unfolding t_becomeFollower_def by (intro orderly_rules) simp_all

lemma orderly_appendEntries: "orderly (t_appendEntries F p tm i t es c)"
  unfolding t_appendEntries_def t_observe_term_def t_accept_def t_prev_differs_def t_finish_append_def
  by (intro orderly_rules orderly_append_loop orderly_resetElectionTimer orderly_becomeFollower orderly_applyCommittedEntries) simp_all

lemma orderly_updateCommitIndex: "orderly (t_updateCommitIndex F)"
  unfolding t_updateCommitIndex_def t_commit_check_def by (intro orderly_rules orderly_applyCommittedEntries)

lemma orderly_sendAppendEntries: "orderly (t_sendAppendEntries F p)"
  unfolding t_sendAppendEntries_def by (intro orderly_rules orderly_appendEntries orderly_updateCommitIndex) simp_all

lemma orderly_proposeEntry: "orderly (t_proposeEntry F k v)"
  unfolding t_proposeEntry_def t_replicateEntry_def by (intro orderly_rules orderly_sendAppendEntries orderly_updateCommitIndex)

lemma orderly_electionCallback: "orderly (t_electionCallback F)"
proof -
  have "orderly (Halt (count_true vs))" for vs using count_true_ends [of vs] by (cases "count_true vs") simp_all
  then show ?thesis unfolding t_electionCallback_def t_becomeLeader_def by (intro orderly_rules) simp_all
qed

lemma orderly_startElection: "orderly (t_startElection F)"
  unfolding t_startElection_def t_becomeCandidate_def t_getLastLogTerm_def
  by (intro orderly_rules orderly_electionCallback) simp_all

lemma orderly_requestVote: "orderly (t_requestVote rpc p i t)"
  unfolding t_requestVote_def by (intro orderly_rules orderly_becomeFollower) simp_all

lemma orderly_run_task: "orderly (t_run_task F rpc t)"
  by (cases t) (auto simp: t_run_task_def intro!: orderly_rules orderly_sendAppendEntries orderly_requestVote orderly_electionCallback)

lemma orderly_call: "orderly (t_call F c)"
  by (cases c) (auto simp: t_call_def intro!: orderly_rules orderly_proposeEntry orderly_sendAppendEntries)

lemma orderly_scheduled: "orderly (t_leaderElectionTask F)" "orderly t_heartbeatTask"
  unfolding t_leaderElectionTask_def t_heartbeatTask_def by (intro orderly_rules orderly_startElection)+

lemma orderly_job: "orderly (t_job F j)"
  by (cases j) (auto simp: t_job_def intro!: orderly_rules orderly_call orderly_scheduled orderly_run_task orderly_startElection orderly_appendEntries)

section \<open>The hook that stops the server\<close>

text \<open>\<open>KVStoreServer.stop\<close> on the thread of the hook; what it does to the gRPC server does not concern the node.\<close>

definition t_stop :: "reply option raft_thread" where
  "t_stop = tbind (t_db close_storage) (\<lambda>_. tret None)"

lemma run_stop: "run_alone t_stop (raftNode s) = (Val None, raftNode (snd (stop_server s)))"
  by (simp add: t_stop_def stop_server_def on_db_def close_storage_def)

lemma orderly_stop: "orderly t_stop"
  unfolding t_stop_def by (intro orderly_rules)

lemma orderly_step:
  assumes "pool_step (ts, n) (us, m)" and "\<forall>t\<in>set ts. orderly t"
  shows "(\<forall>t\<in>set us. orderly t) \<and> (\<not> conn_open (storage n) \<longrightarrow> storage m = storage n)"
proof -
  from assms(1) obtain i g t where i: "us = ts[i := t]" "i < length ts" "ts ! i = Atomic g" "g n = (t, m)" by (auto elim: pool_stepE)
  then have "orderly (Atomic g)" using assms(2) nth_mem by metis
  then have "orderly t \<and> (\<not> conn_open (storage n) \<longrightarrow> storage m = storage n)" using i(4) by (metis fst_conv orderly_simps(2) snd_conv)
  then show ?thesis using assms(2) i(1) set_update_subset_insert [of ts i t] by auto
qed

text \<open>A closed database stays as it is.\<close>

lemma closed_pool:
  assumes "pool_step\<^sup>*\<^sup>* (ts, n) (us, m)" and "\<forall>t\<in>set ts. orderly t"
  shows "(\<forall>t\<in>set us. orderly t) \<and> (\<not> conn_open (storage n) \<longrightarrow> storage m = storage n)"
  using assms(1)
proof (induction "(us, m)" arbitrary: us m rule: rtranclp_induct)
  case (step c us m)
  obtain vs v where c: "c = (vs, v)" by fastforce
  then show ?case using step.hyps(3) [OF c] orderly_step [of vs v us m] step.hyps(2) by auto
qed (use assms(2) in simp)

text \<open>The hook has not acted, or the connection is closed.\<close>

lemma stop_closes:
  assumes "pool_step\<^sup>*\<^sup>* (t_stop # ts, n) (us, m)" and "\<forall>t\<in>set ts. orderly t"
  shows "us ! 0 = t_stop \<or> us ! 0 = Halt (Val None) \<and> \<not> conn_open (storage m)"
  using assms(1)
proof (induction "(us, m)" arbitrary: us m rule: rtranclp_induct)
  case (step c us m)
  obtain vs v where c: "c = (vs, v)" by fastforce
  have o: "\<forall>t\<in>set vs. orderly t" using closed_pool [of "t_stop # ts" n vs v] step.hyps(1) assms(2) orderly_stop c by auto
  from step.hyps(2) obtain i g t where i: "us = vs[i := t]" "i < length vs" "vs ! i = Atomic g" "g v = (t, m)"
    unfolding c by (auto elim: pool_stepE)
  have closed: "\<not> conn_open (storage v) \<Longrightarrow> \<not> conn_open (storage m)"
    using orderly_step [of vs v us m] step.hyps(2) o c by auto
  show ?case
  proof (cases "i = 0")
    case True
    then have "vs ! 0 = t_stop" using step.hyps(3) [OF c] i(3) by auto
    then have "t = Halt (Val None) \<and> \<not> conn_open (storage m)"
      using i(3,4) True by (auto simp: t_stop_def t_db_def atomic_def on_db_def close_storage_def)
    then show ?thesis using i(1,2) True by simp
  next
    case False
    then show ?thesis using step.hyps(3) [OF c] closed i(1) by auto
  qed
qed simp

text \<open>How a thread ends that only ever sees a closed connection.\<close>

inductive when_closed :: "((jexn, 'a) outcome \<Rightarrow> bool) \<Rightarrow> 'a raft_thread \<Rightarrow> bool" for P where
  "P r \<Longrightarrow> when_closed P (Halt r)"
| "(\<And>n. \<not> conn_open (storage n) \<Longrightarrow> when_closed P (fst (g n))) \<Longrightarrow> when_closed P (Atomic g)"

inductive_simps when_closed_simps [simp]: "when_closed P (Halt r)" "when_closed P (Atomic g)"

lemma when_closed_get: "when_closed (\<lambda>r. r = Val (Some (Get_Reply \<lparr>gr_value = '''', gr_found = False\<rparr>))) (t_job F (Serve (Get k)))"
  by (simp add: t_job_def t_call_def t_db_def atomic_def on_db_def get_kv_def stmt_def or_print_def try_catch_def split_beta)

lemma when_closed_put:
  "when_closed (\<lambda>r. r = Exc (RuntimeException ''Failed to append log entry'') \<or> r = Val (Some (Put_Reply \<lparr>pr_success = False, pr_old_value = ''''\<rparr>)))
     (t_job F (Serve (Put k v)))"
  by (simp add: t_job_def t_call_def t_proposeEntry_def t_db_def t_read_def atomic_def on_db_def appendLogEntry_def stmt_def or_throw_def try_catch_def split_beta)

lemma closed_pool_answers:
  assumes "pool_step\<^sup>*\<^sup>* (us, m) (vs, u)" and "\<forall>t\<in>set us. orderly t" and "\<not> conn_open (storage m)" and "when_closed P (us ! i)"
  shows "when_closed P (vs ! i)"
  using assms(1)
proof (induction "(vs, u)" arbitrary: vs u rule: rtranclp_induct)
  case (step c vs u)
  obtain ws w where c: "c = (ws, w)" by fastforce
  have "storage w = storage m" using closed_pool [of us m ws w] step.hyps(1) c assms(2,3) by blast
  moreover obtain j g t where "vs = ws[j := t]" "j < length ws" "ws ! j = Atomic g" "g w = (t, u)"
    using step.hyps(2) c by (auto elim: pool_stepE)
  ultimately show ?case using step.hyps(3) [OF c] assms(3) by (cases "i = j") (auto, metis fst_conv)
qed (use assms(4) in simp)

end
