(* ===== verification/Locks.thy ===== *)
theory Locks
  imports Threads
begin

text \<open>
  Threads that share a read-write lock (\<open>java.util.concurrent.locks.ReentrantReadWriteLock\<close>): any number of readers
  or one writer hold it, and a thread that asks for it waits until it may have it. A thread that holds the lock does not
  ask for it again, so that reentrance does not matter. A thread
  that waits for something else while it holds the lock, and waits forever, keeps it. Shown are that threads which release what
  they take never block each other for good, that a thread which keeps the lock blocks those that ask for the write lock,
  that leaving the locks out only adds runs, and that sections under the write lock happen one after the other.
\<close>

section \<open>The lock\<close>

datatype mode = ReadLock | WriteLock

record rwlock =
  readers :: nat
  writer :: bool

definition unlocked :: rwlock where
  "unlocked = \<lparr>readers = 0, writer = False\<rparr>"

fun available :: "mode \<Rightarrow> rwlock \<Rightarrow> bool" where
  "available ReadLock l \<longleftrightarrow> \<not> writer l"
| "available WriteLock l \<longleftrightarrow> \<not> writer l \<and> readers l = 0"

fun acquire :: "mode \<Rightarrow> rwlock \<Rightarrow> rwlock" where
  "acquire ReadLock l = l\<lparr>readers := readers l + 1\<rparr>"
| "acquire WriteLock l = l\<lparr>writer := True\<rparr>"

fun release :: "mode \<Rightarrow> rwlock \<Rightarrow> rwlock" where
  "release ReadLock l = l\<lparr>readers := readers l - 1\<rparr>"
| "release WriteLock l = l\<lparr>writer := False\<rparr>"

section \<open>Threads with locks\<close>

datatype ('s, 'e, 'a) locking =
    Done "('e, 'a) outcome"
  | Step "'s \<Rightarrow> ('s, 'e, 'a) locking \<times> 's"
  | Lock mode "('s, 'e, 'a) locking"
  | Unlock mode "('s, 'e, 'a) locking"

lemma locking_induct [case_names Done Step Lock Unlock]:
  assumes "\<And>r. P (Done r)" and step: "\<And>g. (\<And>s. P (fst (g s))) \<Longrightarrow> P (Step g)"
    and "\<And>m t. P t \<Longrightarrow> P (Lock m t)" and "\<And>m t. P t \<Longrightarrow> P (Unlock m t)"
  shows "P t"
proof (induction t)
  case (Step g)
  have "P (fst (g s))" for s
    by (rule Step [OF rangeI [of g s]]) (cases "g s", simp)
  then show ?case by (rule step)
qed (use assms in blast)+

text \<open>
  A thread that takes no lock, and one that runs in \<open>lock(); try { ... } finally { unlock(); }\<close>: the block is left by a value
  and by an exception, but not by a call that does not return.
\<close>

primrec plain :: "('s, 'e, 'a) thread \<Rightarrow> ('s, 'e, 'a) locking" where
  "plain (Halt r) = Done r"
| "plain (Atomic g) = Step (map_prod plain id \<circ> g)"

primrec finally_unlock :: "mode \<Rightarrow> ('s, 'e, 'a) thread \<Rightarrow> ('s, 'e, 'a) locking" where
  "finally_unlock m (Halt r) = (case r of Hang \<Rightarrow> Done Hang | _ \<Rightarrow> Unlock m (Done r))"
| "finally_unlock m (Atomic g) = Step (map_prod (finally_unlock m) id \<circ> g)"

definition guarded :: "mode \<Rightarrow> ('s, 'e, 'a) thread \<Rightarrow> ('s, 'e, 'a) locking" where
  "guarded m t = Lock m (finally_unlock m t)"

primrec lbind :: "('s, 'e, 'a) locking \<Rightarrow> ('a \<Rightarrow> ('s, 'e, 'b) locking) \<Rightarrow> ('s, 'e, 'b) locking" where
  "lbind (Done r) f = (case r of Val x \<Rightarrow> f x | Exc e \<Rightarrow> Done (Exc e) | UB \<Rightarrow> Done UB | Hang \<Rightarrow> Done Hang)"
| "lbind (Step g) f = Step (map_prod (\<lambda>t. lbind t f) id \<circ> g)"
| "lbind (Lock m t) f = Lock m (lbind t f)"
| "lbind (Unlock m t) f = Unlock m (lbind t f)"

abbreviation lret :: "'a \<Rightarrow> ('s, 'e, 'a) locking" where
  "lret x \<equiv> Done (Val x)"

fun l_for_each :: "('a \<Rightarrow> ('s, 'e, unit) locking) \<Rightarrow> 'a list \<Rightarrow> ('s, 'e, unit) locking" where
  "l_for_each f [] = lret ()"
| "l_for_each f (x # xs) = lbind (f x) (\<lambda>_. l_for_each f xs)"

text \<open>The thread without its locks.\<close>

primrec erase :: "('s, 'e, 'a) locking \<Rightarrow> ('s, 'e, 'a) thread" where
  "erase (Done r) = Halt r"
| "erase (Step g) = Atomic (map_prod erase id \<circ> g)"
| "erase (Lock m t) = erase t"
| "erase (Unlock m t) = erase t"

lemma erase_plain [simp]: "erase (plain t) = t"
  by (induction t rule: thread_induct) (auto simp: fun_eq_iff map_prod_def split_beta)

lemma erase_finally [simp]: "erase (finally_unlock m t) = t"
  by (induction t rule: thread_induct) (auto simp: fun_eq_iff map_prod_def split_beta split: outcome.split)

lemma erase_guarded [simp]: "erase (guarded m t) = t"
  by (simp add: guarded_def)

lemma erase_lbind [simp]: "erase (lbind t f) = tbind (erase t) (\<lambda>x. erase (f x))"
proof (induction t rule: locking_induct)
  case (Done r)
  then show ?case by (cases r) simp_all
qed (auto simp: fun_eq_iff map_prod_def split_beta)

lemma erase_for_each [simp]: "erase (l_for_each f xs) = t_for_each (\<lambda>x. erase (f x)) xs"
  by (induction xs) simp_all

section \<open>Pools\<close>

text \<open>Every thread, and the shared state with its lock.\<close>

type_synonym ('s, 'e, 'a) lpool = "('s, 'e, 'a) locking list \<times> rwlock \<times> 's"

inductive lock_step :: "('s, 'e, 'a) lpool \<Rightarrow> ('s, 'e, 'a) lpool \<Rightarrow> bool" where
  step_act: "i < length ts \<Longrightarrow> ts ! i = Step g \<Longrightarrow> g s = (t, s') \<Longrightarrow> lock_step (ts, l, s) (ts[i := t], l, s')"
| step_lock: "i < length ts \<Longrightarrow> ts ! i = Lock m t \<Longrightarrow> available m l \<Longrightarrow> lock_step (ts, l, s) (ts[i := t], acquire m l, s)"
| step_unlock: "i < length ts \<Longrightarrow> ts ! i = Unlock m t \<Longrightarrow> lock_step (ts, l, s) (ts[i := t], release m l, s)"

inductive_cases lock_stepE: "lock_step (ts, l, s) c"

text \<open>An executable scheduler; a thread that has to wait does nothing.\<close>

definition lact :: "nat \<Rightarrow> ('s, 'e, 'a) lpool \<Rightarrow> ('s, 'e, 'a) lpool" where
  "lact i c = (case c of (ts, l, s) \<Rightarrow>
     if i < length ts then
       (case ts ! i of
          Done r \<Rightarrow> c
        | Step g \<Rightarrow> (case g s of (t, s') \<Rightarrow> (ts[i := t], l, s'))
        | Lock m t \<Rightarrow> if available m l then (ts[i := t], acquire m l, s) else c
        | Unlock m t \<Rightarrow> (ts[i := t], release m l, s))
     else c)"

fun lschedule :: "nat list \<Rightarrow> ('s, 'e, 'a) lpool \<Rightarrow> ('s, 'e, 'a) lpool" where
  "lschedule [] c = c"
| "lschedule (i # is) c = lschedule is (lact i c)"

lemma lact_steps: "lock_step\<^sup>*\<^sup>* c (lact i c)"
  by (cases c) (auto simp: lact_def split: prod.split locking.split intro!: r_into_rtranclp lock_step.intros)

lemma lschedule_steps: "lock_step\<^sup>*\<^sup>* c (lschedule is c)"
proof (induction "is" arbitrary: c)
  case (Cons i "is")
  have "lock_step\<^sup>*\<^sup>* c (lact i c)" by (rule lact_steps)
  also have "lock_step\<^sup>*\<^sup>* (lact i c) (lschedule is (lact i c))" by (rule Cons)
  finally show ?case by simp
qed simp

text \<open>Leaving the locks out only adds runs.\<close>

lemma erase_update: "i < length ts \<Longrightarrow> erase (ts ! i) = erase t \<Longrightarrow> map erase (ts[i := t]) = map erase ts"
  by (simp add: map_update list_update_same_conv)

lemma lock_step_erased: "lock_step (ts, l, s) (us, k, u) \<Longrightarrow> pool_step\<^sup>*\<^sup>* (map erase ts, s) (map erase us, u)"
proof (erule lock_stepE)
  fix i g t s' assume i: "(us, k, u) = (ts[i := t], l, s')" "i < length ts" "ts ! i = Step g" "g s = (t, s')"
  have "pool_step (map erase ts, s) ((map erase ts)[i := erase t], s')"
    by (rule pool_step.intros [of i _ "map_prod erase id \<circ> g"]) (use i in auto)
  then show ?thesis using i(1) by (auto simp: map_update)
qed (auto simp: erase_update simp del: map_update)

lemma lock_steps_erased: "lock_step\<^sup>*\<^sup>* (ts, l, s) (us, k, u) \<Longrightarrow> pool_step\<^sup>*\<^sup>* (map erase ts, s) (map erase us, u)"
proof (induction "(us, k, u)" arbitrary: us k u rule: rtranclp_induct)
  case (step c us k u)
  obtain vs h v where c: "c = (vs, h, v)" by (cases c)
  show ?case using step.hyps(3) [OF c] lock_step_erased [of vs h v us k u] step.hyps(2) unfolding c by simp
qed simp

section \<open>Progress\<close>

text \<open>
  What a thread holds, and that it asks only when it holds nothing, gives back what it holds, and ends without it. A thread
  that may stop, which the flag says, may do so only while it holds the lock.
\<close>

inductive disciplined :: "bool \<Rightarrow> mode option \<Rightarrow> ('s, 'e, 'a) locking \<Rightarrow> bool" for b where
  "(if r = Hang then b \<and> h \<noteq> None else h = None) \<Longrightarrow> disciplined b h (Done r)"
| "(\<And>s. disciplined b h (fst (g s))) \<Longrightarrow> disciplined b h (Step g)"
| "disciplined b (Some m) t \<Longrightarrow> disciplined b None (Lock m t)"
| "disciplined b None t \<Longrightarrow> disciplined b (Some m) (Unlock m t)"

inductive_simps disciplined_simps [simp]:
  "disciplined b h (Done r)" "disciplined b h (Step g)" "disciplined b h (Lock m t)" "disciplined b h (Unlock m t)"

lemma disciplined_plain: "returns t \<Longrightarrow> disciplined b None (plain t)"
  by (induction rule: returns.induct) simp_all

lemma disciplined_guarded: "b \<or> returns t \<Longrightarrow> disciplined b None (guarded m t)"
proof -
  have "disciplined b (Some m) (finally_unlock m t)" if "returns t"
    using that by (induction rule: returns.induct) (simp_all split: outcome.split)
  moreover have "disciplined True (Some m) (finally_unlock m t)"
    by (induction t rule: thread_induct) (simp_all split: outcome.split)
  ultimately show "b \<or> returns t \<Longrightarrow> ?thesis" by (auto simp: guarded_def)
qed

lemma disciplined_lbind: "disciplined b h t \<Longrightarrow> (\<And>x. disciplined b None (f x)) \<Longrightarrow> disciplined b h (lbind t f)"
proof (induction rule: disciplined.induct)
  case (1 r h)
  then show ?case by (cases r) simp_all
qed simp_all

lemma disciplined_for_each: "(\<And>x. disciplined b None (f x)) \<Longrightarrow> disciplined b None (l_for_each f xs)"
  by (induction xs) (simp_all add: disciplined_lbind)

text \<open>The lock agrees with what the threads hold: nobody, some readers, or exactly one writer.\<close>

definition lock_inv :: "mode option list \<Rightarrow> rwlock \<Rightarrow> bool" where
  "lock_inv hs l \<longleftrightarrow> readers l = count_list hs (Some ReadLock) \<and>
     count_list hs (Some WriteLock) = (if writer l then 1 else 0) \<and> (writer l \<longrightarrow> readers l = 0)"

definition well_locked :: "bool list \<Rightarrow> ('s, 'e, 'a) locking list \<Rightarrow> rwlock \<Rightarrow> bool" where
  "well_locked bs ts l \<longleftrightarrow> length bs = length ts \<and>
     (\<exists>hs. length hs = length ts \<and> (\<forall>i<length ts. disciplined (bs ! i) (hs ! i) (ts ! i)) \<and> lock_inv hs l)"

lemma count_list_update:
  "i < length xs \<Longrightarrow> count_list (xs[i := x]) y + (if xs ! i = y then 1 else 0) = count_list xs y + (if x = y then 1 else 0)"
proof (induction xs arbitrary: i)
  case (Cons z zs)
  show ?case
  proof (cases i)
    case (Suc n)
    then show ?thesis using Cons.IH [of n] Cons.prems by (auto split: if_splits)
  qed simp
qed simp

lemma lock_inv_acquire:
  assumes "lock_inv hs l" and "i < length hs" and "hs ! i = None" and "available m l"
  shows "lock_inv (hs[i := Some m]) (acquire m l)"
  using assms count_list_update [OF assms(2), of "Some m" "Some ReadLock"] count_list_update [OF assms(2), of "Some m" "Some WriteLock"]
  by (cases m) (auto simp: lock_inv_def split: if_splits)

lemma lock_inv_release:
  assumes "lock_inv hs l" and "i < length hs" and "hs ! i = Some m"
  shows "lock_inv (hs[i := None]) (release m l)"
  using assms count_list_update [OF assms(2), of None "Some ReadLock"] count_list_update [OF assms(2), of None "Some WriteLock"]
  by (cases m) (auto simp: lock_inv_def split: if_splits)

lemma lock_step_keeps:
  assumes "lock_step (ts, l, s) (us, k, u)" and "well_locked bs ts l"
  shows "well_locked bs us k"
proof -
  obtain hs where len: "length bs = length ts" "length hs = length ts"
    and nth: "\<And>i. i < length ts \<Longrightarrow> disciplined (bs ! i) (hs ! i) (ts ! i)" and inv: "lock_inv hs l"
    using assms(2) by (auto simp: well_locked_def)
  have goes: "well_locked bs us k"
    if "us = ts[i := t]" "i < length ts" "disciplined (bs ! i) h t" "lock_inv (hs[i := h]) k" for i t h
    unfolding well_locked_def using that nth len by (intro conjI exI [of _ "hs[i := h]"]) (auto simp: nth_list_update)
  from assms(1) show ?thesis
  proof cases
    case (step_act i g t)
    then have "disciplined (bs ! i) (hs ! i) t" using nth [of i] by (metis disciplined_simps(2) fst_conv)
    then show ?thesis using goes step_act inv by simp
  next
    case (step_lock i m t)
    then have "hs ! i = None" "disciplined (bs ! i) (Some m) t" using nth [of i] by auto
    then show ?thesis using goes lock_inv_acquire [OF inv] step_lock len(2) by simp
  next
    case (step_unlock i m t)
    then have "hs ! i = Some m" "disciplined (bs ! i) None t" using nth [of i] by auto
    then show ?thesis using goes lock_inv_release [OF inv] step_unlock len(2) by simp
  qed
qed

lemma lock_steps_keep: "lock_step\<^sup>*\<^sup>* (ts, l, s) (us, k, u) \<Longrightarrow> well_locked bs ts l \<Longrightarrow> well_locked bs us k \<and> length us = length ts"
proof (induction "(us, k, u)" arbitrary: us k u rule: rtranclp_induct)
  case (step c us k u)
  obtain vs h v where c: "c = (vs, h, v)" by (cases c)
  with step have "well_locked bs vs h" "length vs = length ts" by blast+
  moreover have "lock_step (vs, h, v) (us, k, u)" using step.hyps(2) c by simp
  ultimately show ?case using lock_step_keeps by (fastforce elim: lock_stepE)
qed simp

lemma well_locked_start:
  "length bs = length ts \<Longrightarrow> (\<And>i. i < length ts \<Longrightarrow> disciplined (bs ! i) None (ts ! i)) \<Longrightarrow> well_locked bs ts unlocked"
  unfolding well_locked_def
  by (intro conjI exI [of _ "replicate (length ts) None"]) (auto simp: lock_inv_def unlocked_def count_list_0_iff)

text \<open>
  When no thread can go on, all have ended and the lock is free, or one that may stop has done so.
\<close>

lemma stuck_locked:
  assumes "well_locked bs ts l" and "\<forall>d. \<not> lock_step (ts, l, s) d"
  shows "(\<exists>k<length ts. bs ! k \<and> ts ! k = Done Hang) \<or> l = unlocked \<and> (\<forall>t\<in>set ts. \<exists>r. t = Done r \<and> r \<noteq> Hang)"
proof (rule disjCI)
  assume none: "\<not> (l = unlocked \<and> (\<forall>t\<in>set ts. \<exists>r. t = Done r \<and> r \<noteq> Hang))"
  obtain hs where hs: "length hs = length ts" "\<And>i. i < length ts \<Longrightarrow> disciplined (bs ! i) (hs ! i) (ts ! i)" "lock_inv hs l"
    using assms(1) by (auto simp: well_locked_def)
  have still: "(\<exists>r. ts ! i = Done r) \<or> (\<exists>m t. ts ! i = Lock m t \<and> \<not> available m l)" if i: "i < length ts" for i
  proof (cases "ts ! i")
    case (Step g)
    obtain t s' where "g s = (t, s')" by fastforce
    then show ?thesis using step_act [OF i Step] assms(2) by blast
  next
    case (Lock m t)
    then show ?thesis using step_lock [OF i Lock] assms(2) by blast
  next
    case (Unlock m t)
    then show ?thesis using step_unlock [OF i Unlock] assms(2) by blast
  qed simp
  have stopped: "ts ! i = Done Hang \<and> bs ! i" if "i < length ts" "hs ! i \<noteq> None" for i
    using still [OF that(1)] hs(2) [OF that(1)] that(2) by (auto split: if_splits)
  show "\<exists>k<length ts. bs ! k \<and> ts ! k = Done Hang"
  proof (rule ccontr)
    assume "\<not> (\<exists>k<length ts. bs ! k \<and> ts ! k = Done Hang)"
    then have free: "hs ! i = None" if "i < length ts" for i using stopped that by blast
    then have "set hs \<subseteq> {None}" using hs(1) by (auto simp: in_set_conv_nth)
    then have "count_list hs (Some m) = 0" for m unfolding count_list_0_iff by auto
    then have l: "l = unlocked" using hs(3) by (auto simp: lock_inv_def unlocked_def intro!: rwlock.equality split: if_splits)
    have "available m l" for m using l by (cases m) (simp_all add: unlocked_def)
    then have "\<exists>r. ts ! i = Done r \<and> r \<noteq> Hang" if "i < length ts" for i
      using still [OF that] hs(2) [OF that] free [OF that] by (auto split: if_splits)
    then have "\<forall>t\<in>set ts. \<exists>r. t = Done r \<and> r \<noteq> Hang" by (metis in_set_conv_nth)
    then show False using none l by blast
  qed
qed

text \<open>As long as a thread that has stopped holds the lock, nobody gets the write lock.\<close>

lemma stopped_holds:
  assumes "well_locked bs ts l" and "i < length ts" and "ts ! i = Done Hang"
  shows "\<not> available WriteLock l"
proof -
  obtain hs where hs: "length hs = length ts" "disciplined (bs ! i) (hs ! i) (ts ! i)" "lock_inv hs l"
    using assms(1,2) by (auto simp: well_locked_def)
  then obtain m where "hs ! i = Some m" using assms(3) by auto
  then have "Some m \<in> set hs" using hs(1) assms(2) by (metis nth_mem)
  then have "0 < count_list hs (Some m)" by (metis count_list_0_iff gr0I)
  then show ?thesis using hs(3) by (cases m) (auto simp: lock_inv_def split: if_splits)
qed

lemma blocked_for_good:
  assumes "lock_step\<^sup>*\<^sup>* (ts, l, s) (us, k, u)" and "well_locked bs ts l" and "i < length ts" and "ts ! i = Done Hang"
    and "j < length ts" and "ts ! j = Lock WriteLock t"
  shows "us ! i = Done Hang \<and> us ! j = Lock WriteLock t"
  using assms(1)
proof (induction "(us, k, u)" arbitrary: us k u rule: rtranclp_induct)
  case base
  then show ?case using assms by simp
next
  case (step c us k u)
  obtain vs h v where c: "c = (vs, h, v)" by (cases c)
  then have vs: "vs ! i = Done Hang" "vs ! j = Lock WriteLock t" using step.hyps(3) by blast+
  have wl: "well_locked bs vs h" "length vs = length ts" using lock_steps_keep [OF _ assms(2)] step.hyps(1) c by blast+
  have "\<not> available WriteLock h" using stopped_holds [OF wl(1)] wl(2) assms(3) vs(1) by simp
  moreover have "lock_step (vs, h, v) (us, k, u)" using step.hyps(2) c by simp
  ultimately show ?case using vs by (auto elim!: lock_stepE simp: nth_list_update)
qed

definition lrest_of :: "(('s, 'e, 'a) locking \<times> ('s, 'e, 'a) locking) set" where
  "lrest_of = {(t, u). (\<exists>g s s'. u = Step g \<and> g s = (t, s')) \<or> (\<exists>m. u = Lock m t) \<or> (\<exists>m. u = Unlock m t)}"

lemma wf_lrest_of: "wf (lrest_of :: (('s, 'e, 'a) locking \<times> ('s, 'e, 'a) locking) set)"
proof (rule wfUNIVI)
  fix P :: "('s, 'e, 'a) locking \<Rightarrow> bool" and t
  assume "\<forall>t. (\<forall>u. (u, t) \<in> lrest_of \<longrightarrow> P u) \<longrightarrow> P t"
  then have step: "(\<And>u. (u, t) \<in> lrest_of \<Longrightarrow> P u) \<Longrightarrow> P t" for t by blast
  show "P t"
  proof (induction t rule: locking_induct)
    case (Step g)
    then show ?case using step [of "Step g"] by (auto simp: lrest_of_def) (metis fst_conv)
  qed (rule step, auto simp: lrest_of_def)+
qed

lemma lock_step_smaller: "lock_step c d \<Longrightarrow> (fst d, fst c) \<in> listrel1 lrest_of"
proof -
  assume "lock_step c d"
  then obtain i t where i: "i < length (fst c)" "fst d = (fst c)[i := t]" "(t, fst c ! i) \<in> lrest_of"
    by cases (fastforce simp: lrest_of_def)+
  moreover have "fst c = (fst d)[i := fst c ! i]" using i(2) by simp
  ultimately show ?thesis
    unfolding listrel1_iff_update by (metis length_list_update nth_list_update_eq)
qed

lemmas lock_run_exists = maximal_exists [of lock_step]

lemma maximal_lock_run_stuck:
  fixes f :: "nat \<Rightarrow> ('s, 'e, 'a) lpool"
  assumes "maximal lock_step f"
  shows "\<exists>i. \<forall>d. \<not> lock_step (f i) d"
proof -
  have "wf (listrel1 (lrest_of :: (('s, 'e, 'a) locking \<times> ('s, 'e, 'a) locking) set))" by (simp add: wf_lrest_of)
  then show ?thesis using maximal_stuck [of lock_step f _ fst, OF assms] lock_step_smaller by blast
qed

lemma maximal_lock_run_ends:
  assumes "maximal lock_step f" and "f 0 = (ts, unlocked, s)" and "\<And>t. t \<in> set ts \<Longrightarrow> disciplined False None t"
  shows "\<exists>i us u. f i = (us, unlocked, u) \<and> (\<forall>t\<in>set us. \<exists>r. t = Done r \<and> r \<noteq> Hang) \<and> length us = length ts \<and>
    lock_step\<^sup>*\<^sup>* (ts, unlocked, s) (us, unlocked, u)"
proof -
  obtain i where stuck: "\<forall>d. \<not> lock_step (f i) d" using maximal_lock_run_stuck [OF assms(1)] by blast
  obtain us k u where fi: "f i = (us, k, u)" by (cases "f i")
  have steps: "lock_step\<^sup>*\<^sup>* (ts, unlocked, s) (us, k, u)" using maximal_run_steps [OF assms(1), of i] assms(2) fi by simp
  have "well_locked (replicate (length ts) False) ts unlocked" by (rule well_locked_start) (simp_all add: assms(3))
  from lock_steps_keep [OF steps this] have us: "well_locked (replicate (length ts) False) us k" "length us = length ts" by blast+
  have "k = unlocked \<and> (\<forall>t\<in>set us. \<exists>r. t = Done r \<and> r \<noteq> Hang)"
    using stuck_locked [OF us(1), of u] stuck fi us(2) by auto
  then show ?thesis using fi steps us(2) by blast
qed

section \<open>Sections under the write lock\<close>

text \<open>Threads that run one after the other, each to its end: the results in this order, and the state they leave.\<close>

fun serial :: "('s, 'e, 'a) thread list \<Rightarrow> nat list \<Rightarrow> 's \<Rightarrow> ('e, 'a) outcome list \<times> 's" where
  "serial ts [] s = ([], s)"
| "serial ts (i # is) s = (case run_alone (ts ! i) s of (r, u) \<Rightarrow> case serial ts is u of (rs, v) \<Rightarrow> (r # rs, v))"

lemma serial_snoc:
  "serial ts is s = (rs, u) \<Longrightarrow> run_alone (ts ! i) u = (r, v) \<Longrightarrow> serial ts (is @ [i]) s = (rs @ [r], v)"
  by (induction "is" arbitrary: s rs) (auto split: prod.splits)

lemma length_serial: "serial ts is s = (rs, u) \<Longrightarrow> length rs = length is"
  by (induction "is" arbitrary: s rs) (auto split: prod.splits)

text \<open>
  A pool in which every thread is one section under the write lock: the threads in \<open>is\<close> have run in this order, the
  others have not begun, but for the one that holds the lock, whose rest leads to the end of the whole.
\<close>

definition idle :: "('s, 'e, 'a) thread list \<Rightarrow> 's \<Rightarrow> nat list \<Rightarrow> ('s, 'e, 'a) locking list \<Rightarrow> 's \<Rightarrow> bool" where
  "idle ts s0 is us s \<longleftrightarrow> length us = length ts \<and> distinct is \<and> set is \<subseteq> {..<length ts} \<and>
     (\<exists>rs. serial ts is s0 = (rs, s) \<and> (\<forall>k<length is. us ! (is ! k) = Done (rs ! k))) \<and>
     (\<forall>i<length ts. i \<notin> set is \<longrightarrow> us ! i = guarded WriteLock (ts ! i))"

inductive serialised :: "('s, 'e, 'a) thread list \<Rightarrow> 's \<Rightarrow> ('s, 'e, 'a) lpool \<Rightarrow> bool" for ts s0 where
  nobody: "idle ts s0 is us s \<Longrightarrow> serialised ts s0 (us, unlocked, s)"
| one: "idle ts s0 is us u \<Longrightarrow> j < length ts \<Longrightarrow> j \<notin> set is \<Longrightarrow> run_alone t s = run_alone (ts ! j) u \<Longrightarrow> returns t \<Longrightarrow>
    serialised ts s0 (us[j := finally_unlock WriteLock t], acquire WriteLock unlocked, s)"

lemma finally_cases:
  "finally_unlock m t = Step g \<longleftrightarrow> (\<exists>h. t = Atomic h \<and> g = map_prod (finally_unlock m) id \<circ> h)"
  "finally_unlock m t = Unlock m' u \<longleftrightarrow> (\<exists>r. t = Halt r \<and> r \<noteq> Hang \<and> m' = m \<and> u = Done r)"
  "finally_unlock m t \<noteq> Lock m' u" "returns t \<Longrightarrow> finally_unlock m t \<noteq> Done r"
  by (cases t; auto split: outcome.splits)+

lemma idle_thread:
  assumes "idle ts s0 is us s" and "i < length us"
  shows "(\<exists>r. us ! i = Done r) \<or> i \<notin> set is \<and> us ! i = guarded WriteLock (ts ! i)"
  using assms by (auto simp: idle_def in_set_conv_nth)

lemma idle_finished:
  assumes "idle ts s0 is us u" and "j < length ts" and "j \<notin> set is" and "run_alone (ts ! j) u = (r, s)"
  shows "idle ts s0 (is @ [j]) (us[j := Done r]) s"
proof -
  obtain rs where rs: "serial ts is s0 = (rs, u)" "\<forall>k<length is. us ! (is ! k) = Done (rs ! k)"
    using assms(1) by (auto simp: idle_def)
  have snoc: "serial ts (is @ [j]) s0 = (rs @ [r], s)" by (rule serial_snoc [OF rs(1) assms(4)])
  have "us[j := Done r] ! ((is @ [j]) ! k) = Done ((rs @ [r]) ! k)" if "k < length (is @ [j])" for k
    using that rs(2) assms(1-3) length_serial [OF rs(1)] by (auto simp: nth_append nth_list_update idle_def less_Suc_eq)
  then show ?thesis using assms(1-3) snoc by (auto simp: idle_def)
qed

lemma lock_step_serialised:
  assumes "serialised ts s0 c" and "lock_step c d" and "\<And>t. t \<in> set ts \<Longrightarrow> returns t"
  shows "serialised ts s0 d"
  using assms(1)
proof cases
  case (nobody "is" us s)
  from assms(2) show ?thesis
    unfolding nobody(1)
  proof (rule lock_stepE)
    fix i m t assume i: "d = (us[i := t], acquire m unlocked, s)" "i < length us" "us ! i = Lock m t"
    then have "i \<notin> set is" "m = WriteLock" "t = finally_unlock WriteLock (ts ! i)" "length us = length ts"
      using idle_thread [OF nobody(2) i(2)] nobody(2) by (auto simp: guarded_def idle_def)
    then show ?thesis using one [OF nobody(2)] i(1,2) assms(3) by simp
  qed (auto simp: guarded_def dest!: idle_thread [OF nobody(2)])
next
  case (one "is" us u j t s)
  let ?us = "us[j := finally_unlock WriteLock t]"
  have j: "j < length us" using one(2,3) by (simp add: idle_def)
  have other: "i = j" if "i < length ?us" "?us ! i = v" "\<And>r. v \<noteq> Done r" "\<And>m u. available m (acquire WriteLock unlocked) \<or> v \<noteq> Lock m u" for i v
    using idle_thread [OF one(2), of i] that by (cases "i = j") (auto simp: guarded_def)
  from assms(2) show ?thesis
    unfolding one(1)
  proof (rule lock_stepE)
    fix i g v s' assume i: "d = (?us[i := v], acquire WriteLock unlocked, s')" "i < length ?us" "?us ! i = Step g" "g s = (v, s')"
    have "i = j" using other [OF i(2,3)] by simp
    with i(3,4) j obtain h where h: "t = Atomic h" "v = finally_unlock WriteLock (fst (h s))" "s' = snd (h s)"
      by (auto simp: finally_cases map_prod_def split_beta)
    have "run_alone (fst (h s)) s' = run_alone (ts ! j) u" using one(5) h by (simp add: run_alone.simps split_beta)
    moreover have "returns (fst (h s))" using one(6) h(1) by simp
    ultimately show ?thesis using serialised.one [OF one(2-4)] i(1) h(2) \<open>i = j\<close> by simp
  next
    fix i m v assume i: "i < length ?us" "?us ! i = Lock m v" "available m (acquire WriteLock unlocked)"
    then show ?thesis by (cases m) simp_all
  next
    fix i m v assume i: "d = (?us[i := v], release m (acquire WriteLock unlocked), s)" "i < length ?us" "?us ! i = Unlock m v"
    have "i = j" using other [OF i(2,3)] by simp
    with i(3) j obtain r where r: "t = Halt r" "m = WriteLock" "v = Done r" by (auto simp: finally_cases)
    have "run_alone (ts ! j) u = (r, s)" using one(5) r(1) by (simp add: run_alone.simps)
    from nobody [OF idle_finished [OF one(2-4) this]] show ?thesis
      using i(1) r \<open>i = j\<close> by (simp add: unlocked_def)
  qed
qed

text \<open>
  However such threads interleave, once all have ended they have run one after the other in some order.
\<close>

lemma guarded_serialise:
  assumes "lock_step\<^sup>*\<^sup>* (map (guarded WriteLock) ts, unlocked, s) (us, k, u)" and "\<And>t. t \<in> set us \<Longrightarrow> \<exists>r. t = Done r"
    and "\<And>t. t \<in> set ts \<Longrightarrow> returns t"
  shows "\<exists>is rs. distinct is \<and> set is = {..<length ts} \<and> serial ts is s = (rs, u) \<and> (\<forall>k<length is. us ! (is ! k) = Done (rs ! k))"
proof -
  have "idle ts s [] (map (guarded WriteLock) ts) s" by (simp add: idle_def)
  then have "serialised ts s (map (guarded WriteLock) ts, unlocked, s)" by (rule nobody)
  with assms(1) have "serialised ts s (us, k, u)"
    by (induction rule: rtranclp_induct) (auto intro: lock_step_serialised assms(3))
  then show ?thesis
  proof cases
    case (nobody "is")
    have "i \<in> set is" if "i < length ts" for i
    proof (rule ccontr)
      assume "i \<notin> set is"
      then have "us ! i = guarded WriteLock (ts ! i)" "i < length us" using nobody that by (auto simp: idle_def)
      then have "guarded WriteLock (ts ! i) \<in> set us" by (metis nth_mem)
      then show False using assms(2) by (auto simp: guarded_def)
    qed
    then have "set is = {..<length ts}" using nobody by (auto simp: idle_def)
    then show ?thesis using nobody by (auto simp: idle_def)
  next
    case (one "is" vs v j t)
    have "j < length vs" using one(3,4) by (simp add: idle_def)
    then have "finally_unlock WriteLock t \<in> set us" unfolding one(1) by (rule set_update_memI)
    then show ?thesis using assms(2) finally_cases(4) [OF one(7)] by blast
  qed
qed

end
