(* ===== verification/Locked_Threads.thy ===== *)
theory Locked_Threads
  imports Orderly_Threads Locks
begin

text \<open>
  The jobs of a server with the lock \<open>rwLock\<close> of \<open>RaftNode.java\<close>: \<open>appendEntries\<close> holds its write lock and a vote request its
  read lock, over the remote call too; nothing else takes it. The remote call has no deadline, and it may be that it never
  returns. Without the lock the jobs are the threads of \<open>Raft_Threads\<close> and \<open>Election_Threads\<close>, which may stop in the middle.
\<close>

section \<open>The methods\<close>

type_synonym 'a raft_locking = "(raft_node, jexn, 'a) locking"

definition l_appendEntries :: "faults \<Rightarrow> string \<Rightarrow> int \<Rightarrow> int \<Rightarrow> int \<Rightarrow> log_entry list \<Rightarrow> int \<Rightarrow> bool raft_locking" where
  "l_appendEntries F leaderId tm prevLogIndex prevLogTerm entries leaderCommit =
     guarded WriteLock (t_appendEntries F leaderId tm prevLogIndex prevLogTerm entries leaderCommit)"

text \<open>A vote request is answered, fails with an exception of the stub, or is never answered.\<close>

datatype vote_answer = Answer vote_response | Failure | No_Answer

definition l_requestVote :: "(string \<Rightarrow> vote_request \<Rightarrow> vote_answer) \<Rightarrow> string \<Rightarrow> int \<Rightarrow> int \<Rightarrow> bool raft_locking" where
  "l_requestVote rpc peer lastLogIndex lastLogTerm = guarded ReadLock
     (tbind (t_read (\<lambda>n. currentTerm (state n))) (\<lambda>tm.
      tbind (t_read nodeId) (\<lambda>me.
      case rpc peer \<lparr>vr_term = tm, vr_candidateId = me, vr_lastLogIndex = lastLogIndex, vr_lastLogTerm = lastLogTerm\<rparr> of
        No_Answer \<Rightarrow> Halt Hang
      | Failure \<Rightarrow> tret False
      | Answer response \<Rightarrow>
          tbind (t_read (\<lambda>n. currentTerm (state n))) (\<lambda>current.
          if vs_term response > current then
            tbind (t_modify (\<lambda>n. n\<lparr>state := setCurrentTerm (vs_term response) (state n)\<rparr>)) (\<lambda>_.
            tbind (t_becomeFollower (vs_term response)) (\<lambda>_.
            tbind (t_modify (\<lambda>n. n\<lparr>votedFor := None\<rparr>)) (\<lambda>_. tret False)))
          else tret (vs_voteGranted response)))))"

definition l_sendAppendEntries :: "faults \<Rightarrow> string \<Rightarrow> unit raft_locking" where
  "l_sendAppendEntries F follower =
     lbind (plain (t_read (\<lambda>n. getOrDefault (nextIndex n) follower 1))) (\<lambda>nextIdx.
     lbind (plain (t_db (getLastLogIndex F))) (\<lambda>l.
     lbind (plain (t_db (getLogEntries F nextIdx l))) (\<lambda>entries.
     lbind (plain (if nextIdx - 1 > 0
              then tbind (t_db (getLogEntry F (nextIdx - 1))) (\<lambda>x. tbind (t_deref x) (\<lambda>e. tret (le_term e)))
              else tret 0)) (\<lambda>prevLogTerm.
     lbind (plain (t_read (\<lambda>n. currentTerm (state n)))) (\<lambda>tm.
     lbind (plain (t_db (getCommitIndex F))) (\<lambda>commitIndex.
     lbind (l_appendEntries F follower tm (nextIdx - 1) prevLogTerm entries commitIndex) (\<lambda>success.
     if success then
       lbind (plain (t_db (getLastLogIndex F))) (\<lambda>l1.
       lbind (plain (t_modify (\<lambda>n. n\<lparr>nextIndex := AList.update follower (l1 + 1) (nextIndex n)\<rparr>))) (\<lambda>_.
       lbind (plain (t_db (getLastLogIndex F))) (\<lambda>l2.
       lbind (plain (t_modify (\<lambda>n. n\<lparr>matchIndex := AList.update follower l2 (matchIndex n)\<rparr>))) (\<lambda>_.
       plain (t_updateCommitIndex F)))))
     else
       lbind (plain (t_read (\<lambda>n. getOrDefault (nextIndex n) follower 1))) (\<lambda>idx.
       plain (t_modify (\<lambda>n. n\<lparr>nextIndex := AList.update follower (max 1 (idx - 1)) (nextIndex n)\<rparr>))))))))))"

definition l_replicateEntry :: "faults \<Rightarrow> bool raft_locking" where
  "l_replicateEntry F =
     lbind (plain (t_read (\<lambda>n. map fst (peers n)))) (\<lambda>ids.
     lbind (l_for_each (l_sendAppendEntries F) ids) (\<lambda>_.
     lbind (plain (t_updateCommitIndex F)) (\<lambda>_. lret True)))"

definition l_proposeEntry :: "faults \<Rightarrow> string \<Rightarrow> string \<Rightarrow> bool raft_locking" where
  "l_proposeEntry F key v =
     lbind (plain (t_read (\<lambda>n. currentRole (state n)))) (\<lambda>r.
     if r \<noteq> LEADER then lret False else
     lbind (plain (t_read (\<lambda>n. currentTerm (state n)))) (\<lambda>tm.
     lbind (plain (t_db (appendLogEntry F (new_entry tm key v)))) (\<lambda>_.
     lbind (plain (t_db (getLastLogIndex F))) (\<lambda>_. l_replicateEntry F))))"

section \<open>Jobs\<close>

definition l_call :: "faults \<Rightarrow> call \<Rightarrow> reply raft_locking" where
  "l_call F c = (case c of
     Put key v \<Rightarrow> lbind (l_proposeEntry F key v) (\<lambda>success. lret (Put_Reply \<lparr>pr_success = success, pr_old_value = ''''\<rparr>))
   | Get key \<Rightarrow> plain (t_call F (Get key))
   | Heartbeat p \<Rightarrow> lbind (l_sendAppendEntries F p) (\<lambda>_. lret Sent))"

definition l_run_task :: "faults \<Rightarrow> (string \<Rightarrow> vote_request \<Rightarrow> vote_answer) \<Rightarrow> task \<Rightarrow> unit raft_locking" where
  "l_run_task F rpc t = (case t of
     Send_Task p \<Rightarrow> l_sendAppendEntries F p
   | Vote_Task p lastLogIndex lastLogTerm \<Rightarrow> lbind (l_requestVote rpc p lastLogIndex lastLogTerm) (\<lambda>_. lret ())
   | Election_Callback \<Rightarrow> plain (t_electionCallback F))"

text \<open>A worker that takes the \<open>i\<close>-th waiting task and, for a vote request, gets the given answer.\<close>

definition l_work :: "faults \<Rightarrow> nat \<Rightarrow> vote_answer \<Rightarrow> reply option raft_locking" where
  "l_work F i vote =
     lbind (plain (atomic (take_task i))) (\<lambda>t.
     lbind (case t of None \<Rightarrow> lret () | Some t \<Rightarrow> l_run_task F (\<lambda>_ _. vote) t) (\<lambda>_. lret None))"

text \<open>The jobs of \<open>Election_Threads\<close>, and a worker whose vote request is never answered.\<close>

datatype locked_job = Job job | Unanswered nat

definition l_job :: "faults \<Rightarrow> locked_job \<Rightarrow> reply option raft_locking" where
  "l_job F lj = (case lj of
     Unanswered i \<Rightarrow> l_work F i No_Answer
   | Job j \<Rightarrow> (case j of
       Serve c \<Rightarrow> lbind (l_call F c) (\<lambda>r. lret (Some r))
     | Work i vote \<Rightarrow> l_work F i (case vote of None \<Rightarrow> Failure | Some r \<Rightarrow> Answer r)
     | Receive leader tm prev prev_term es leaderCommit \<Rightarrow>
         lbind (l_appendEntries F leader tm prev prev_term es leaderCommit) (\<lambda>_. lret None)
     | _ \<Rightarrow> plain (t_job F j)))"

primrec unanswered :: "locked_job \<Rightarrow> bool" where
  "unanswered (Job j) \<longleftrightarrow> False"
| "unanswered (Unanswered i) \<longleftrightarrow> True"

text \<open>The job without the lock, for which a request that is not answered is one on which the thread does not act again.\<close>

primrec base_job :: "locked_job \<Rightarrow> job" where
  "base_job (Job j) = j"
| "base_job (Unanswered i) = Work i None"

section \<open>Without the lock they are the threads\<close>

lemma erase_appendEntries [simp]: "erase (l_appendEntries F p tm i t es c) = t_appendEntries F p tm i t es c"
  by (simp add: l_appendEntries_def)

lemma erase_if: "erase (if b then t else u) = (if b then erase t else erase u)"
  by simp

lemma erase_sendAppendEntries [simp]: "erase (l_sendAppendEntries F p) = t_sendAppendEntries F p"
  by (simp add: l_sendAppendEntries_def t_sendAppendEntries_def erase_if cong: if_cong)

lemma erase_proposeEntry [simp]: "erase (l_proposeEntry F k v) = t_proposeEntry F k v"
  by (simp add: l_proposeEntry_def t_proposeEntry_def l_replicateEntry_def t_replicateEntry_def erase_if cong: if_cong)

lemma erase_call [simp]: "erase (l_call F c) = t_call F c"
  by (cases c) (simp_all add: l_call_def t_call_def)

definition answer_of :: "vote_answer \<Rightarrow> vote_response option" where
  "answer_of a = (case a of Answer r \<Rightarrow> Some r | _ \<Rightarrow> None)"

lemma stops_requestVote: "stops (erase (l_requestVote rpc p i t)) (t_requestVote (\<lambda>p r. answer_of (rpc p r)) p i t)"
  unfolding l_requestVote_def t_requestVote_def erase_guarded answer_of_def
  by (intro stops_tbind stops_refl) (auto intro: stops_refl stops_Hang split: vote_answer.split)

lemma stops_run_task: "stops (erase (l_run_task F rpc t)) (t_run_task F (\<lambda>p r. answer_of (rpc p r)) t)"
  by (cases t) (auto simp: l_run_task_def t_run_task_def intro: stops_refl stops_tbind stops_requestVote)

lemma stops_work: "stops (erase (l_work F i vote)) (t_job F (Work i (answer_of vote)))"
proof -
  have "stops (erase (case t of None \<Rightarrow> lret () | Some t \<Rightarrow> l_run_task F (\<lambda>_ _. vote) t))
      (case t of None \<Rightarrow> tret () | Some t \<Rightarrow> t_run_task F (\<lambda>_ _. answer_of vote) t)" for t
    using stops_run_task [of F "\<lambda>_ _. vote"] by (auto intro: stops_refl split: option.split)
  then show ?thesis unfolding l_work_def t_job_def job.case erase_lbind by (intro stops_tbind) (simp_all add: stops_refl)
qed

lemma stops_job: "stops (erase (l_job F lj)) (t_job F (base_job lj))"
proof (cases lj)
  case (Job j)
  show ?thesis
  proof (cases j)
    case (Work i vote)
    have "answer_of (case vote of None \<Rightarrow> Failure | Some r \<Rightarrow> Answer r) = vote" by (simp add: answer_of_def split: option.split)
    then show ?thesis using stops_work [of F i "case vote of None \<Rightarrow> Failure | Some r \<Rightarrow> Answer r"] by (simp add: Job Work l_job_def)
  qed (simp_all add: Job l_job_def t_job_def stops_refl)
next
  case (Unanswered i)
  then show ?thesis using stops_work [of F i No_Answer] by (simp add: l_job_def answer_of_def)
qed

section \<open>Locking discipline\<close>

lemma disciplined_choices:
  "disciplined b h t \<Longrightarrow> disciplined b h u \<Longrightarrow> disciplined b h (if c then t else u)"
  "disciplined b h t \<Longrightarrow> (\<And>y. disciplined b h (f y)) \<Longrightarrow> disciplined b h (case x of None \<Rightarrow> t | Some y \<Rightarrow> f y)"
  "disciplined b None (lret z)"
  by (simp_all split: option.split)

lemma disciplined_thread: "orderly t \<Longrightarrow> disciplined b None (plain t)"
  by (rule disciplined_plain) (rule orderly_returns)

lemma disciplined_appendEntries: "disciplined b None (l_appendEntries F p tm i t es c)"
  unfolding l_appendEntries_def by (rule disciplined_guarded) (simp add: orderly_returns orderly_appendEntries)

lemmas discipline = disciplined_lbind disciplined_for_each disciplined_choices disciplined_thread disciplined_appendEntries

lemma disciplined_send: "disciplined b None (l_sendAppendEntries F p)"
  unfolding l_sendAppendEntries_def by (intro discipline orderly_rules orderly_updateCommitIndex) simp_all

lemma disciplined_propose: "disciplined b None (l_proposeEntry F k v)"
  unfolding l_proposeEntry_def l_replicateEntry_def by (intro discipline orderly_rules orderly_updateCommitIndex disciplined_send)

lemma disciplined_call: "disciplined b None (l_call F c)"
  by (cases c) (auto simp: l_call_def intro!: discipline orderly_call disciplined_send disciplined_propose simp del: disciplined_simps)

lemma disciplined_requestVote:
  assumes "b \<or> (\<forall>p r. rpc p r \<noteq> No_Answer)"
  shows "disciplined b None (l_requestVote rpc p i t)"
  unfolding l_requestVote_def
proof (rule disciplined_guarded)
  have "orderly (case rpc p r of No_Answer \<Rightarrow> Halt Hang | Failure \<Rightarrow> tret False | Answer response \<Rightarrow>
      tbind (t_read (\<lambda>n. currentTerm (state n))) (\<lambda>current.
      if vs_term response > current then
        tbind (t_modify (\<lambda>n. n\<lparr>state := setCurrentTerm (vs_term response) (state n)\<rparr>)) (\<lambda>_.
        tbind (t_becomeFollower (vs_term response)) (\<lambda>_.
        tbind (t_modify (\<lambda>n. n\<lparr>votedFor := None\<rparr>)) (\<lambda>_. tret False)))
      else tret (vs_voteGranted response)))" if "\<forall>p r. rpc p r \<noteq> No_Answer" for r
  proof (cases "rpc p r")
    case (Answer response)
    show ?thesis unfolding Answer vote_answer.case by (intro orderly_rules orderly_becomeFollower) simp_all
  qed (use that in simp_all)
  then show "b \<or> returns (tbind (t_read (\<lambda>n. currentTerm (state n))) (\<lambda>tm. tbind (t_read nodeId) (\<lambda>me.
      case rpc p \<lparr>vr_term = tm, vr_candidateId = me, vr_lastLogIndex = i, vr_lastLogTerm = t\<rparr> of
        No_Answer \<Rightarrow> Halt Hang
      | Failure \<Rightarrow> tret False
      | Answer response \<Rightarrow>
          tbind (t_read (\<lambda>n. currentTerm (state n))) (\<lambda>current.
          if vs_term response > current then
            tbind (t_modify (\<lambda>n. n\<lparr>state := setCurrentTerm (vs_term response) (state n)\<rparr>)) (\<lambda>_.
            tbind (t_becomeFollower (vs_term response)) (\<lambda>_.
            tbind (t_modify (\<lambda>n. n\<lparr>votedFor := None\<rparr>)) (\<lambda>_. tret False)))
          else tret (vs_voteGranted response)))))"
    using assms by (auto intro!: orderly_returns orderly_tbind orderly_fields)
qed

lemma disciplined_work:
  assumes "b \<or> vote \<noteq> No_Answer"
  shows "disciplined b None (l_work F i vote)"
proof -
  have "disciplined b None (l_run_task F (\<lambda>_ _. vote) t)" for t
    using assms by (cases t) (auto simp: l_run_task_def intro!: discipline disciplined_send disciplined_requestVote orderly_electionCallback simp del: disciplined_simps)
  then show ?thesis unfolding l_work_def by (intro discipline orderly_fields)
qed

text \<open>Only a job whose vote request is not answered may stop, and only while it holds the lock.\<close>

lemma disciplined_job: "disciplined (unanswered lj) None (l_job F lj)"
proof (cases lj)
  case (Job j)
  show ?thesis
  proof (cases j)
    case (Work i vote)
    then show ?thesis using disciplined_work [of False "case vote of None \<Rightarrow> Failure | Some r \<Rightarrow> Answer r"] by (simp add: Job l_job_def split: option.splits)
  qed (auto simp: Job l_job_def intro!: discipline disciplined_call orderly_job simp del: disciplined_simps)
qed (simp add: l_job_def disciplined_work)

end
