(* ===== verification/Lock_Properties.thy ===== *)
theory Lock_Properties
  imports Locked_Threads Thread_Properties
begin

text \<open>
  The properties of a server process whose threads take the lock of the node: that it never blocks them for good, that
  messages which arrive at the same time are handled one after the other, and what the lock does not prevent.
\<close>

section \<open>All jobs\<close>

text \<open>
  C16. Any jobs of a node, on any database, with the read-write lock, where some vote requests may never be answered: the
  stub has no deadline, and its thread waits with the read lock held. Every run comes to a point where no thread
  can go on. Either all jobs are done there and the lock is free, or a vote request without an answer has been sent; so when
  every vote request is answered or fails, no thread waits forever. Whatever has happened up to any point of a run is a run of the
  threads without the lock, of which some are behind for good, and the lock agrees with what the threads hold.
\<close>

theorem locked_jobs_end:
  assumes "maximal lock_step f" and "f 0 = (map (l_job F) js, unlocked, n)"
  shows "(\<exists>i us l m. f i = (us, l, m) \<and> (\<forall>d. \<not> lock_step (us, l, m) d) \<and> length us = length js \<and>
      (l = unlocked \<and> (\<forall>t\<in>set us. \<exists>r. t = Done r \<and> r \<noteq> Hang) \<or> (\<exists>k<length js. unanswered (js ! k) \<and> us ! k = Done Hang))) \<and>
    (\<forall>i us l m. f i = (us, l, m) \<longrightarrow> well_locked (map unanswered js) us l \<and>
      (\<exists>vs. pool_step\<^sup>*\<^sup>* (map (t_job F \<circ> base_job) js, n) (vs, m) \<and> list_all2 stops (map erase us) vs))"
proof (intro conjI allI impI)
  have start: "well_locked (map unanswered js) (map (l_job F) js) unlocked"
    by (rule well_locked_start) (simp_all add: disciplined_job)
  have reach: "lock_step\<^sup>*\<^sup>* (map (l_job F) js, unlocked, n) (us, l, m)" if "f i = (us, l, m)" for i us l m
    using maximal_run_steps [OF assms(1), of i] assms(2) that by simp
  have inv: "well_locked (map unanswered js) us l \<and> length us = length js" if "f i = (us, l, m)" for i us l m
    using lock_steps_keep [OF reach [OF that] start] by simp
  obtain i where stuck: "\<forall>d. \<not> lock_step (f i) d" using maximal_lock_run_stuck [OF assms(1)] by blast
  obtain us l m where i: "f i = (us, l, m)" by (cases "f i")
  show "\<exists>i us l m. f i = (us, l, m) \<and> (\<forall>d. \<not> lock_step (us, l, m) d) \<and> length us = length js \<and>
      (l = unlocked \<and> (\<forall>t\<in>set us. \<exists>r. t = Done r \<and> r \<noteq> Hang) \<or> (\<exists>k<length js. unanswered (js ! k) \<and> us ! k = Done Hang))"
    using i stuck inv [OF i] stuck_locked [of "map unanswered js" us l m] by (intro exI [of _ i] exI [of _ us] exI [of _ l] exI [of _ m]) auto
  fix i us l m assume i: "f i = (us, l, m)"
  show "well_locked (map unanswered js) us l" using inv [OF i] by blast
  have "list_all2 stops (map erase (map (l_job F) js)) (map (t_job F \<circ> base_job) js)"
    by (simp add: list.rel_map list.rel_refl stops_job)
  from stops_pool_steps [OF lock_steps_erased [OF reach [OF i]] this]
  show "\<exists>vs. pool_step\<^sup>*\<^sup>* (map (t_job F \<circ> base_job) js, n) (vs, m) \<and> list_all2 stops (map erase us) vs" .
qed

theorem locked_jobs_end_witness:
  "\<exists>f i us m. maximal lock_step f \<and>
     f 0 = (map (l_job no_faults) [Job (Serve (Put ''a'' ''1'')), Job (Receive ''b'' 3 0 0 [] 0)], unlocked, sample_leader) \<and>
     f i = (us, unlocked, m) \<and> (\<forall>t\<in>set us. \<exists>r. t = Done r \<and> r \<noteq> Hang)"
proof -
  let ?js = "[Job (Serve (Put ''a'' ''1'')), Job (Receive ''b'' 3 0 0 [] 0)]"
  obtain f where f: "maximal lock_step f" "f 0 = (map (l_job no_faults) ?js, unlocked, sample_leader)"
    using lock_run_exists by blast
  have "\<not> unanswered (?js ! k)" if "k < length ?js" for k using that by (auto simp: less_Suc_eq)
  with locked_jobs_end [OF f] show ?thesis using f by blast
qed

section \<open>Votes that are not answered\<close>

lemma waiting_message: "\<exists>t. l_job F (Job (Receive leader tm prev prev_term es c)) = Lock WriteLock t"
  by (simp add: l_job_def l_appendEntries_def guarded_def)

lemma unanswered_sent:
  assumes "i < length (tasks n)" and "tasks n ! i = Vote_Task p lastLogIndex lastLogTerm"
  shows "lschedule [0, 0, 0, 0] (map (l_job F) (Unanswered i # js), unlocked, n) =
    (Done Hang # map (l_job F) js, acquire ReadLock unlocked, n\<lparr>tasks := take i (tasks n) @ drop (Suc i) (tasks n)\<rparr>)"
  using assms
  by (simp add: lact_def l_job_def l_work_def l_run_task_def l_requestVote_def guarded_def atomic_def t_read_def take_task_def unlocked_def)

text \<open>
  C17. A server that has a vote request to send sends it, and the peer accepts the connection but never answers. From then
  on, whatever else runs, no message with entries that has not begun yet is ever handled, and no other thread that waits for the write lock goes on:
  a leader that is up cannot reach this node any more.
\<close>

theorem unanswered_vote_blocks_messages:
  assumes "i < length (tasks n)" and "tasks n ! i = Vote_Task p lastLogIndex lastLogTerm"
  shows "(\<exists>l m. lock_step\<^sup>*\<^sup>* (map (l_job F) (Unanswered i # js), unlocked, n) (Done Hang # map (l_job F) js, l, m)) \<and>
    (\<forall>us l m vs k u. lock_step\<^sup>*\<^sup>* (map (l_job F) (Unanswered i # js), unlocked, n) (us, l, m) \<and> us ! 0 = Done Hang \<and>
       lock_step\<^sup>*\<^sup>* (us, l, m) (vs, k, u) \<longrightarrow>
       (\<forall>j t. j < length us \<and> us ! j = Lock WriteLock t \<longrightarrow> vs ! j = Lock WriteLock t) \<and>
       (\<forall>j leader tm prev prev_term es c. j < length js \<and> js ! j = Job (Receive leader tm prev prev_term es c) \<and>
          us ! Suc j = l_job F (js ! j) \<longrightarrow> vs ! Suc j = l_job F (js ! j)))"
proof (intro conjI allI impI)
  show "\<exists>l m. lock_step\<^sup>*\<^sup>* (map (l_job F) (Unanswered i # js), unlocked, n) (Done Hang # map (l_job F) js, l, m)"
    using lschedule_steps [of "(map (l_job F) (Unanswered i # js), unlocked, n)" "[0, 0, 0, 0]"] unfolding unanswered_sent [OF assms] by blast
  fix us l m vs k u
  assume run: "lock_step\<^sup>*\<^sup>* (map (l_job F) (Unanswered i # js), unlocked, n) (us, l, m) \<and> us ! 0 = Done Hang \<and>
    lock_step\<^sup>*\<^sup>* (us, l, m) (vs, k, u)"
  have "well_locked (map unanswered (Unanswered i # js)) (map (l_job F) (Unanswered i # js)) unlocked"
    by (rule well_locked_start) (simp_all only: length_map nth_map disciplined_job)
  then have us: "well_locked (map unanswered (Unanswered i # js)) us l" "length us = Suc (length js)" using lock_steps_keep run by fastforce+
  have keep: "vs ! j = Lock WriteLock t" if "j < length us" "us ! j = Lock WriteLock t" for j t
    using blocked_for_good [of us l m vs k u _ 0 j t, OF _ us(1)] run us(2) that by auto
  then show "vs ! j = Lock WriteLock t" if "j < length us \<and> us ! j = Lock WriteLock t" for j t using that by blast
  fix j leader tm prev prev_term es c
  assume "j < length js \<and> js ! j = Job (Receive leader tm prev prev_term es c) \<and> us ! Suc j = l_job F (js ! j)"
  then show "vs ! Suc j = l_job F (js ! j)" using waiting_message keep [of "Suc j"] us(2) by (metis Suc_less_eq)
qed

text \<open>A node with two peers that has just begun an election.\<close>

definition voting_node :: raft_node where
  "voting_node = snd (job_alone no_faults (Election_Ticks 1) (sample_node [''b'', ''c''] fresh_db))"

lemma voting_node_tasks [simp]: "tasks voting_node = [Vote_Task ''b'' 0 0, Vote_Task ''c'' 0 0, Election_Callback]" "currentTerm (state voting_node) = 1"
  by code_simp+

theorem unanswered_vote_blocks_messages_witness:
  "\<exists>us l m. lock_step\<^sup>*\<^sup>* (map (l_job no_faults) [Unanswered 0, Job (Receive ''b'' 3 0 0 [] 0)], unlocked, voting_node) (us, l, m) \<and>
     us ! 0 = Done Hang \<and> us ! 1 = l_job no_faults (Job (Receive ''b'' 3 0 0 [] 0)) \<and>
     (\<forall>vs k u. lock_step\<^sup>*\<^sup>* (us, l, m) (vs, k, u) \<longrightarrow> vs ! 1 = l_job no_faults (Job (Receive ''b'' 3 0 0 [] 0)))"
proof -
  let ?x = "Job (Receive ''b'' 3 0 0 [] 0)"
  note blocks = unanswered_vote_blocks_messages [of 0 voting_node "''b''" 0 0 no_faults "[?x]", simplified]
  from blocks obtain l m where run: "lock_step\<^sup>*\<^sup>* ([l_job no_faults (Unanswered 0), l_job no_faults ?x], unlocked, voting_node)
      ([Done Hang, l_job no_faults ?x], l, m)" by auto
  then have "vs ! 1 = l_job no_faults ?x" if "lock_step\<^sup>*\<^sup>* ([Done Hang, l_job no_faults ?x], l, m) (vs, k, u)" for vs k u
    using blocks that by fastforce
  with run show ?thesis by (intro exI [of _ "[Done Hang, l_job no_faults ?x]"] exI [of _ l] exI [of _ m]) simp
qed

section \<open>Messages\<close>

text \<open>The arguments of \<open>appendEntries\<close>, and messages handled one after the other.\<close>

datatype message = Message string (msg_term: int) int int "log_entry list" int

definition deliver :: "faults \<Rightarrow> message \<Rightarrow> bool raft" where
  "deliver F x = (case x of Message leader tm prev prev_term es leaderCommit \<Rightarrow> appendEntries F leader tm prev prev_term es leaderCommit)"

definition l_deliver :: "faults \<Rightarrow> message \<Rightarrow> bool raft_locking" where
  "l_deliver F x = (case x of Message leader tm prev prev_term es leaderCommit \<Rightarrow> l_appendEntries F leader tm prev prev_term es leaderCommit)"

fun deliver_all :: "faults \<Rightarrow> message list \<Rightarrow> raft_node \<Rightarrow> (jexn, bool) outcome list \<times> raft_node" where
  "deliver_all F [] n = ([], n)"
| "deliver_all F (x # xs) n = (case deliver F x n of (r, m) \<Rightarrow> case deliver_all F xs m of (rs, u) \<Rightarrow> (r # rs, u))"

lemma l_deliver_guarded: "\<exists>t. l_deliver F x = guarded WriteLock t \<and> run_alone t = deliver F x \<and> returns t"
  by (cases x) (auto simp: l_deliver_def l_appendEntries_def deliver_def intro!: exI [of _ "t_appendEntries F _ _ _ _ _ _"] orderly_returns orderly_appendEntries)

lemma deliver_term: "currentTerm (state (snd (deliver F x n))) = max (currentTerm (state n)) (msg_term x)"
  by (cases x) (simp add: deliver_def appendEntries_term)

lemma deliver_all_term:
  "currentTerm (state (snd (deliver_all F xs n))) = fold max (map msg_term xs) (currentTerm (state n))"
proof (induction xs arbitrary: n)
  case (Cons x xs)
  show ?case using Cons [of "snd (deliver F x n)"] by (simp add: deliver_term max.commute split_beta)
qed simp

text \<open>
  C18. Messages with entries that arrive at the same time, whatever they say and whatever the database does: every run
  of their threads ends, and the node and all answers are those of handling the messages one after the other in
  some order. The term that is left does not depend on the order: it is the largest one.
\<close>

theorem received_messages_serialise:
  assumes "maximal lock_step f" and "f 0 = (map (l_deliver F) xs, unlocked, n)"
  shows "\<exists>i us m is rs. f i = (us, unlocked, m) \<and> distinct is \<and> set is = {..<length xs} \<and>
    deliver_all F (map ((!) xs) is) n = (rs, m) \<and> length rs = length xs \<and> (\<forall>k<length xs. us ! (is ! k) = Done (rs ! k)) \<and>
    currentTerm (state m) = Max (insert (currentTerm (state n)) (msg_term ` set xs))"
proof -
  have "\<forall>x. \<exists>t. l_deliver F x = guarded WriteLock t \<and> run_alone t = deliver F x \<and> returns t" using l_deliver_guarded by blast
  then obtain t where t: "\<And>x. l_deliver F x = guarded WriteLock (t x)" "\<And>x. run_alone (t x) = deliver F x" "\<And>x. returns (t x)" by metis
  have start: "map (l_deliver F) xs = map (guarded WriteLock) (map t xs)" using t(1) by simp
  then have discipline: "disciplined False None u" if "u \<in> set (map (l_deliver F) xs)" for u
    using that t(3) by (auto intro: disciplined_guarded simp del: disciplined_simps)
  have "\<exists>i us m. f i = (us, unlocked, m) \<and> (\<forall>u\<in>set us. \<exists>r. u = Done r \<and> r \<noteq> Hang) \<and> length us = length (map (l_deliver F) xs) \<and>
      lock_step\<^sup>*\<^sup>* (map (l_deliver F) xs, unlocked, n) (us, unlocked, m)"
    by (rule maximal_lock_run_ends [OF assms]) (rule discipline)
  then obtain i us m where i: "f i = (us, unlocked, m)" "\<forall>u\<in>set us. \<exists>r. u = Done r \<and> r \<noteq> Hang"
    "lock_step\<^sup>*\<^sup>* (map (l_deliver F) xs, unlocked, n) (us, unlocked, m)"
    by (elim exE conjE) (rule that)
  have ret: "u \<in> set (map t xs) \<Longrightarrow> returns u" for u using t(3) by auto
  obtain js rs where js: "distinct js" "set js = {..<length xs}" "serial (map t xs) js n = (rs, m)"
    "\<forall>k<length js. us ! (js ! k) = Done (rs ! k)"
    using guarded_serialise [OF i(3) [unfolded start] _ ret] i(2) by fastforce
  have len: "length js = length xs" using distinct_card [OF js(1)] js(2) by simp
  have "set is \<subseteq> {..<length xs} \<Longrightarrow> serial (map t xs) is s = deliver_all F (map ((!) xs) is) s" for "is" s
    by (induction "is" arbitrary: s) (auto simp: t(2) split: prod.split)
  then have all: "deliver_all F (map ((!) xs) js) n = (rs, m)" using js(2,3) by simp
  have "set (map ((!) xs) js) = set xs" using js(2) by (simp add: nth_image lessThan_atLeast0)
  moreover have "currentTerm (state m) = fold max (map msg_term (map ((!) xs) js)) (currentTerm (state n))"
    using deliver_all_term [of F "map ((!) xs) js" n] all by simp
  ultimately have "currentTerm (state m) = Max (insert (currentTerm (state n)) (msg_term ` set xs))"
    by (metis Max.set_eq_fold list.set_map list.simps(15))
  then show ?thesis using i(1) js(1,2,4) all len length_serial [OF js(3)] by metis
qed

theorem received_messages_serialise_witness:
  "\<exists>f i us m. maximal lock_step f \<and>
     f 0 = (map (l_deliver no_faults) [Message ''b'' 3 0 0 [new_entry 3 ''x'' ''1''] 1, Message ''c'' 4 0 0 [] 0], unlocked, sample_leader) \<and>
     f i = (us, unlocked, m) \<and> currentTerm (state m) = 4"
proof -
  let ?xs = "[Message ''b'' 3 0 0 [new_entry 3 ''x'' ''1''] 1, Message ''c'' 4 0 0 [] 0]"
  obtain f where f: "maximal lock_step f" "f 0 = (map (l_deliver no_faults) ?xs, unlocked, sample_leader)"
    using lock_run_exists by blast
  obtain i us m where i: "f i = (us, unlocked, m)"
    "currentTerm (state m) = Max (insert (currentTerm (state sample_leader)) (msg_term ` set ?xs))"
    using received_messages_serialise [OF f] by blast
  then have "currentTerm (state m) = 4" by simp
  with f i(1) show ?thesis by blast
qed

section \<open>What the lock does not prevent\<close>

text \<open>
  Both answers are compared with the term of the node before either is taken over; then the first one is taken over, and
  then the second one.
\<close>

definition first_answer :: "nat list" where
  "first_answer = replicate 5 0 @ replicate 5 1 @ replicate 6 0"

definition second_answer :: "nat list" where
  "second_answer = replicate 6 1"

lemma two_answers:
  assumes "tasks n = Vote_Task p i t # Vote_Task q j u # ts" and "currentTerm (state n) < vs_term r" and "currentTerm (state n) < vs_term r'"
  shows "case lschedule first_answer (map (l_job F) [Job (Work 0 (Some r)), Job (Work 0 (Some r'))], unlocked, n) of (us, l, m) \<Rightarrow>
     us ! 0 = lret None \<and> currentTerm (state m) = vs_term r \<and> currentRole (state m) = FOLLOWER \<and>
     (case lschedule second_answer (us, l, m) of (vs, k, w) \<Rightarrow>
        vs = [lret None, lret None] \<and> k = unlocked \<and> currentTerm (state w) = vs_term r' \<and> currentRole (state w) = FOLLOWER \<and>
        tasks w = ts \<and> storage w = storage n)"
  using assms
  by (simp add: first_answer_def second_answer_def numeral_eq_Suc lact_def l_job_def l_work_def l_run_task_def l_requestVote_def guarded_def
      atomic_def t_read_def t_modify_def t_becomeFollower_def take_task_def unlocked_def)

text \<open>
  C19. The vote requests share the read lock although they write the term. On any node with two vote requests to send, the
  answers to which are both of a later term than its own, there is a run that takes over the first answer, whose worker is
  done, and after it the second one, whatever its term is: when it is the lower one, the term of the node goes back.
\<close>

theorem vote_answers_lower_term:
  assumes "tasks n = Vote_Task p i t # Vote_Task q j u # ts" and "currentTerm (state n) < vs_term r'" and "vs_term r' < vs_term r"
  shows "\<exists>us l m w. lock_step\<^sup>*\<^sup>* (map (l_job F) [Job (Work 0 (Some r)), Job (Work 0 (Some r'))], unlocked, n) (us, l, m) \<and>
    us ! 0 = lret None \<and> currentTerm (state m) = vs_term r \<and>
    lock_step\<^sup>*\<^sup>* (us, l, m) ([lret None, lret None], unlocked, w) \<and> currentTerm (state w) = vs_term r' \<and>
    currentTerm (state w) < currentTerm (state m)"
proof -
  let ?c = "(map (l_job F) [Job (Work 0 (Some r)), Job (Work 0 (Some r'))], unlocked, n)"
  obtain us l m vs k w where first: "lschedule first_answer ?c = (us, l, m)" and second: "lschedule second_answer (us, l, m) = (vs, k, w)"
    by (metis prod_cases3)
  have "currentTerm (state n) < vs_term r" using assms by simp
  from two_answers [OF assms(1) this assms(2), of F]
  have "us ! 0 = lret None \<and> currentTerm (state m) = vs_term r \<and> vs = [lret None, lret None] \<and> k = unlocked \<and> currentTerm (state w) = vs_term r'"
    unfolding first prod.case second by blast
  moreover have "lock_step\<^sup>*\<^sup>* ?c (us, l, m)" "lock_step\<^sup>*\<^sup>* (us, l, m) (vs, k, w)"
    using lschedule_steps [of ?c first_answer] lschedule_steps [of "(us, l, m)" second_answer] unfolding first second by simp_all
  ultimately show ?thesis using assms(3) by (intro exI [of _ us] exI [of _ l] exI [of _ m] exI [of _ w]) simp
qed

theorem vote_answers_lower_term_witness:
  "\<exists>us l m w. lock_step\<^sup>*\<^sup>* (map (l_job no_faults) [Job (Work 0 (Some \<lparr>vs_term = 7, vs_voteGranted = False\<rparr>)),
       Job (Work 0 (Some \<lparr>vs_term = 5, vs_voteGranted = False\<rparr>))], unlocked, voting_node) (us, l, m) \<and>
     currentTerm (state m) = 7 \<and> lock_step\<^sup>*\<^sup>* (us, l, m) ([lret None, lret None], unlocked, w) \<and> currentTerm (state w) = 5"
  using vote_answers_lower_term [of voting_node "''b''" 0 0 "''c''" 0 0 "[Election_Callback]"
      "\<lparr>vs_term = 5, vs_voteGranted = False\<rparr>" "\<lparr>vs_term = 7, vs_voteGranted = False\<rparr>" no_faults] by fastforce

text \<open>A put and a message of a later term, on a leader without peers. The put stops before it looks at its entry.\<close>

definition put_and_message :: "locked_job list" where
  "put_and_message = [Job (Serve (Put ''k'' ''v'')), Job (Receive ''b'' 2 0 0 [new_entry 2 ''x'' ''1''] 0)]"

text \<open>
  A put takes no lock before it commits. A message of a later leader that deletes the entry of the put before the
  put looks at it makes the put throw a \<open>NullPointerException\<close>, which no caller catches.
\<close>

theorem put_throws_when_entry_deleted:
  "case lschedule (replicate 7 0 @ replicate 16 1 @ [0] @ replicate 6 1) (map (l_job no_faults) put_and_message, unlocked, alone_leader) of
     (ts, l, n) \<Rightarrow> map (ended \<circ> erase) ts = [Some (Exc NullPointerException), Some (Val None)] \<and> l = unlocked \<and>
       node_log n = [new_entry 2 ''x'' ''1''] \<and> currentTerm (state n) = 2"
  by code_simp

end
