(* ===== verification/Compiler_Id.thy ===== *)
theory Compiler_Id
  imports Prelude "HOL-Library.Signed_Division"
begin

unbundle bit_operations_syntax

text \<open>
  \<open>src/client/build/CMakeFiles/3.24.1/CompilerIdCXX/CMakeCXXCompilerId.cpp\<close>, the program that the
  client's build compiles to find out which compiler it has. What the preprocessor selects is a
  function of the macros the compiler predefines: an \<open>#if\<close> chain is the list of its conditions and
  definitions, of which the first one that holds counts. Division and remainder are C's, which
  truncate. Where two blocks define the same macro the later definition counts.
\<close>

section \<open>Macros\<close>

datatype mvalue = Int_Macro int | Str_Macro string

type_synonym macros = "string \<rightharpoonup> mvalue"

definition defined :: "macros \<Rightarrow> string \<Rightarrow> bool" where
  "defined env x \<longleftrightarrow> env x \<noteq> None"

text \<open>The value of an identifier in an \<open>#if\<close> condition: 0 when it is no macro.\<close>

definition cond_value :: "macros \<Rightarrow> string \<Rightarrow> int" where
  "cond_value env x = (case env x of Some (Int_Macro n) \<Rightarrow> n | _ \<Rightarrow> 0)"

text \<open>
  A macro or variable of the program: not defined, a text, or a use of an identifier that nothing
  declares, with which the program does not compile.
\<close>

datatype item = Undefined | Text string | Ill_Formed

section \<open>Digits\<close>

definition digit_at :: "int \<Rightarrow> char" where
  "digit_at d = char_of (48 + d)"

definition DEC :: "int \<Rightarrow> string" where
  "DEC n =
     [digit_at ((n sdiv 10000000) smod 10),
      digit_at ((n sdiv 1000000) smod 10),
      digit_at ((n sdiv 100000) smod 10),
      digit_at ((n sdiv 10000) smod 10),
      digit_at ((n sdiv 1000) smod 10),
      digit_at ((n sdiv 100) smod 10),
      digit_at ((n sdiv 10) smod 10),
      digit_at (n smod 10)]"

definition HEX :: "int \<Rightarrow> string" where
  "HEX n =
     [digit_at (drop_bit 28 n AND 15),
      digit_at (drop_bit 24 n AND 15),
      digit_at (drop_bit 20 n AND 15),
      digit_at (drop_bit 16 n AND 15),
      digit_at (drop_bit 12 n AND 15),
      digit_at (drop_bit 8 n AND 15),
      digit_at (drop_bit 4 n AND 15),
      digit_at (n AND 15)]"

text \<open>A version component computed from one predefined macro.\<close>

definition dec :: "macros \<Rightarrow> string \<Rightarrow> (int \<Rightarrow> int) \<Rightarrow> item" where
  "dec env x f = (case env x of Some (Int_Macro n) \<Rightarrow> Text (DEC (f n)) | _ \<Rightarrow> Ill_Formed)"

definition hex :: "macros \<Rightarrow> string \<Rightarrow> (int \<Rightarrow> int) \<Rightarrow> item" where
  "hex env x f = (case env x of Some (Int_Macro n) \<Rightarrow> Text (HEX (f n)) | _ \<Rightarrow> Ill_Formed)"

definition str :: "macros \<Rightarrow> string \<Rightarrow> item" where
  "str env x = (case env x of Some (Str_Macro s) \<Rightarrow> Text s | _ \<Rightarrow> Ill_Formed)"

definition dec_if :: "macros \<Rightarrow> string \<Rightarrow> (int \<Rightarrow> int) \<Rightarrow> item" where
  "dec_if env x f = (if defined env x then dec env x f else Undefined)"

fun if_chain :: "(bool \<times> 'a) list \<Rightarrow> 'a \<Rightarrow> 'a" where
  "if_chain [] z = z"
| "if_chain ((b, x) # xs) z = (if b then x else if_chain xs z)"

section \<open>The identity macros\<close>

record ident =
  COMPILER_ID :: string
  SIMULATE_ID :: "string option"
  COMPILER_VERSION :: item
  MAJOR :: item
  MINOR :: item
  PATCH :: item
  TWEAK :: item
  INTERNAL :: item
  INTERNAL_STR :: item
  SIM_MAJOR :: item
  SIM_MINOR :: item
  SIM_PATCH :: item

definition named :: "string \<Rightarrow> ident" where
  "named i = \<lparr>COMPILER_ID = i, SIMULATE_ID = None, COMPILER_VERSION = Undefined, MAJOR = Undefined, MINOR = Undefined,
     PATCH = Undefined, TWEAK = Undefined, INTERNAL = Undefined, INTERNAL_STR = Undefined,
     SIM_MAJOR = Undefined, SIM_MINOR = Undefined, SIM_PATCH = Undefined\<rparr>"

definition simulate_msvc :: "macros \<Rightarrow> ident \<Rightarrow> ident" where
  "simulate_msvc env i =
     (if defined env ''_MSC_VER''
      then i\<lparr>SIMULATE_ID := Some ''MSVC'', SIM_MAJOR := dec env ''_MSC_VER'' (\<lambda>n. n sdiv 100),
             SIM_MINOR := dec env ''_MSC_VER'' (\<lambda>n. n smod 100)\<rparr>
      else i)"

definition simulate_gnu :: "macros \<Rightarrow> ident \<Rightarrow> ident" where
  "simulate_gnu env i = i\<lparr>
     SIMULATE_ID := (if defined env ''__GNUC__'' then Some ''GNU'' else SIMULATE_ID i),
     SIM_MAJOR := (if defined env ''__GNUC__'' then dec env ''__GNUC__'' (\<lambda>n. n)
                   else if defined env ''__GNUG__'' then dec env ''__GNUG__'' (\<lambda>n. n) else SIM_MAJOR i),
     SIM_MINOR := (if defined env ''__GNUC_MINOR__'' then dec env ''__GNUC_MINOR__'' (\<lambda>n. n) else SIM_MINOR i),
     SIM_PATCH := (if defined env ''__GNUC_PATCHLEVEL__'' then dec env ''__GNUC_PATCHLEVEL__'' (\<lambda>n. n) else SIM_PATCH i)\<rparr>"

definition intel :: "macros \<Rightarrow> ident" where
  "intel env = simulate_gnu env (simulate_msvc env
     (let v = cond_value env ''__INTEL_COMPILER'' in
      if v < 2021 \<or> v = 202110 \<or> v = 202111 then
        (named ''Intel'')\<lparr>
          MAJOR := dec env ''__INTEL_COMPILER'' (\<lambda>n. n sdiv 100),
          MINOR := dec env ''__INTEL_COMPILER'' (\<lambda>n. (n sdiv 10) smod 10),
          PATCH := (if defined env ''__INTEL_COMPILER_UPDATE'' then dec env ''__INTEL_COMPILER_UPDATE'' (\<lambda>n. n)
                    else dec env ''__INTEL_COMPILER'' (\<lambda>n. n smod 10)),
          TWEAK := dec_if env ''__INTEL_COMPILER_BUILD_DATE'' (\<lambda>n. n)\<rparr>
      else
        (named ''Intel'')\<lparr>
          MAJOR := dec env ''__INTEL_COMPILER'' (\<lambda>n. n),
          MINOR := dec env ''__INTEL_COMPILER_UPDATE'' (\<lambda>n. n),
          PATCH := Text (DEC 0),
          TWEAK := dec_if env ''__INTEL_COMPILER_BUILD_DATE'' (\<lambda>n. n)\<rparr>))"

definition intel_llvm :: "macros \<Rightarrow> ident" where
  "intel_llvm env = simulate_gnu env (simulate_msvc env
     (if cond_value env ''__INTEL_LLVM_COMPILER'' < 1000000 then
        (named ''IntelLLVM'')\<lparr>
          MAJOR := dec env ''__INTEL_LLVM_COMPILER'' (\<lambda>n. n sdiv 100),
          MINOR := dec env ''__INTEL_LLVM_COMPILER'' (\<lambda>n. (n sdiv 10) smod 10),
          PATCH := dec env ''__INTEL_LLVM_COMPILER'' (\<lambda>n. n smod 10)\<rparr>
      else
        (named ''IntelLLVM'')\<lparr>
          MAJOR := dec env ''__INTEL_LLVM_COMPILER'' (\<lambda>n. n sdiv 10000),
          MINOR := dec env ''__INTEL_LLVM_COMPILER'' (\<lambda>n. (n sdiv 100) smod 100),
          PATCH := dec env ''__INTEL_LLVM_COMPILER'' (\<lambda>n. n smod 100)\<rparr>))"

text \<open>The chain that selects the compiler, in the order of the source.\<close>

definition compilers_1 :: "macros \<Rightarrow> (bool \<times> ident) list" where
  "compilers_1 env =
    [(defined env ''__COMO__'',
        (named ''Comeau'')\<lparr>MAJOR := dec env ''__COMO_VERSION__'' (\<lambda>n. n sdiv 100),
          MINOR := dec env ''__COMO_VERSION__'' (\<lambda>n. n smod 100)\<rparr>),
     (defined env ''__INTEL_COMPILER'' \<or> defined env ''__ICC'', intel env),
     (defined env ''__clang__'' \<and> defined env ''__INTEL_CLANG_COMPILER'' \<or> defined env ''__INTEL_LLVM_COMPILER'', intel_llvm env),
     (defined env ''__PATHCC__'',
        (named ''PathScale'')\<lparr>MAJOR := dec env ''__PATHCC__'' (\<lambda>n. n),
          MINOR := dec env ''__PATHCC_MINOR__'' (\<lambda>n. n),
          PATCH := dec_if env ''__PATHCC_PATCHLEVEL__'' (\<lambda>n. n)\<rparr>),
     (defined env ''__BORLANDC__'' \<and> defined env ''__CODEGEARC_VERSION__'',
        (named ''Embarcadero'')\<lparr>MAJOR := hex env ''__CODEGEARC_VERSION__'' (\<lambda>n. drop_bit 24 n AND 255),
          MINOR := hex env ''__CODEGEARC_VERSION__'' (\<lambda>n. drop_bit 16 n AND 255),
          PATCH := dec env ''__CODEGEARC_VERSION__'' (\<lambda>n. n AND 65535)\<rparr>),
     (defined env ''__BORLANDC__'',
        (named ''Borland'')\<lparr>MAJOR := hex env ''__BORLANDC__'' (\<lambda>n. drop_bit 8 n),
          MINOR := hex env ''__BORLANDC__'' (\<lambda>n. n AND 255)\<rparr>),
     (defined env ''__WATCOMC__'' \<and> cond_value env ''__WATCOMC__'' < 1200,
        (named ''Watcom'')\<lparr>MAJOR := dec env ''__WATCOMC__'' (\<lambda>n. n sdiv 100),
          MINOR := dec env ''__WATCOMC__'' (\<lambda>n. (n sdiv 10) smod 10),
          PATCH := (if cond_value env ''__WATCOMC__'' smod 10 > 0 then dec env ''__WATCOMC__'' (\<lambda>n. n smod 10) else Undefined)\<rparr>),
     (defined env ''__WATCOMC__'',
        (named ''OpenWatcom'')\<lparr>MAJOR := dec env ''__WATCOMC__'' (\<lambda>n. (n - 1100) sdiv 100),
          MINOR := dec env ''__WATCOMC__'' (\<lambda>n. (n sdiv 10) smod 10),
          PATCH := (if cond_value env ''__WATCOMC__'' smod 10 > 0 then dec env ''__WATCOMC__'' (\<lambda>n. n smod 10) else Undefined)\<rparr>),
     (defined env ''__SUNPRO_CC'',
        if cond_value env ''__SUNPRO_CC'' \<ge> 20736 then
          (named ''SunPro'')\<lparr>MAJOR := hex env ''__SUNPRO_CC'' (\<lambda>n. drop_bit 12 n),
            MINOR := hex env ''__SUNPRO_CC'' (\<lambda>n. drop_bit 4 n AND 255),
            PATCH := hex env ''__SUNPRO_CC'' (\<lambda>n. n AND 15)\<rparr>
        else
          (named ''SunPro'')\<lparr>MAJOR := hex env ''__SUNPRO_CC'' (\<lambda>n. drop_bit 8 n),
            MINOR := hex env ''__SUNPRO_CC'' (\<lambda>n. drop_bit 4 n AND 15),
            PATCH := hex env ''__SUNPRO_CC'' (\<lambda>n. n AND 15)\<rparr>),
     (defined env ''__HP_aCC'',
        (named ''HP'')\<lparr>MAJOR := dec env ''__HP_aCC'' (\<lambda>n. n sdiv 10000),
          MINOR := dec env ''__HP_aCC'' (\<lambda>n. (n sdiv 100) smod 100),
          PATCH := dec env ''__HP_aCC'' (\<lambda>n. n smod 100)\<rparr>)]"

definition compilers_2 :: "macros \<Rightarrow> (bool \<times> ident) list" where
  "compilers_2 env =
    [(defined env ''__DECCXX'',
        (named ''Compaq'')\<lparr>MAJOR := dec env ''__DECCXX_VER'' (\<lambda>n. n sdiv 10000000),
          MINOR := dec env ''__DECCXX_VER'' (\<lambda>n. (n sdiv 100000) smod 100),
          PATCH := dec env ''__DECCXX_VER'' (\<lambda>n. n smod 10000)\<rparr>),
     (defined env ''__IBMCPP__'' \<and> defined env ''__COMPILER_VER__'',
        (named ''zOS'')\<lparr>MAJOR := dec env ''__IBMCPP__'' (\<lambda>n. n sdiv 100),
          MINOR := dec env ''__IBMCPP__'' (\<lambda>n. (n sdiv 10) smod 10),
          PATCH := dec env ''__IBMCPP__'' (\<lambda>n. n smod 10)\<rparr>),
     (defined env ''__open_xl__'' \<and> defined env ''__clang__'',
        (named ''IBMClang'')\<lparr>MAJOR := dec env ''__open_xl_version__'' (\<lambda>n. n),
          MINOR := dec env ''__open_xl_release__'' (\<lambda>n. n),
          PATCH := dec env ''__open_xl_modification__'' (\<lambda>n. n),
          TWEAK := dec env ''__open_xl_ptf_fix_level__'' (\<lambda>n. n)\<rparr>),
     (defined env ''__ibmxl__'' \<and> defined env ''__clang__'',
        (named ''XLClang'')\<lparr>MAJOR := dec env ''__ibmxl_version__'' (\<lambda>n. n),
          MINOR := dec env ''__ibmxl_release__'' (\<lambda>n. n),
          PATCH := dec env ''__ibmxl_modification__'' (\<lambda>n. n),
          TWEAK := dec env ''__ibmxl_ptf_fix_level__'' (\<lambda>n. n)\<rparr>),
     (defined env ''__IBMCPP__'' \<and> \<not> defined env ''__COMPILER_VER__'' \<and> cond_value env ''__IBMCPP__'' \<ge> 800,
        (named ''XL'')\<lparr>MAJOR := dec env ''__IBMCPP__'' (\<lambda>n. n sdiv 100),
          MINOR := dec env ''__IBMCPP__'' (\<lambda>n. (n sdiv 10) smod 10),
          PATCH := dec env ''__IBMCPP__'' (\<lambda>n. n smod 10)\<rparr>),
     (defined env ''__IBMCPP__'' \<and> \<not> defined env ''__COMPILER_VER__'' \<and> cond_value env ''__IBMCPP__'' < 800,
        (named ''VisualAge'')\<lparr>MAJOR := dec env ''__IBMCPP__'' (\<lambda>n. n sdiv 100),
          MINOR := dec env ''__IBMCPP__'' (\<lambda>n. (n sdiv 10) smod 10),
          PATCH := dec env ''__IBMCPP__'' (\<lambda>n. n smod 10)\<rparr>),
     (defined env ''__NVCOMPILER'',
        (named ''NVHPC'')\<lparr>MAJOR := dec env ''__NVCOMPILER_MAJOR__'' (\<lambda>n. n),
          MINOR := dec env ''__NVCOMPILER_MINOR__'' (\<lambda>n. n),
          PATCH := dec_if env ''__NVCOMPILER_PATCHLEVEL__'' (\<lambda>n. n)\<rparr>),
     (defined env ''__PGI'',
        (named ''PGI'')\<lparr>MAJOR := dec env ''__PGIC__'' (\<lambda>n. n),
          MINOR := dec env ''__PGIC_MINOR__'' (\<lambda>n. n),
          PATCH := dec_if env ''__PGIC_PATCHLEVEL__'' (\<lambda>n. n)\<rparr>),
     (defined env ''_CRAYC'',
        (named ''Cray'')\<lparr>MAJOR := dec env ''_RELEASE_MAJOR'' (\<lambda>n. n),
          MINOR := dec env ''_RELEASE_MINOR'' (\<lambda>n. n)\<rparr>),
     (defined env ''__TI_COMPILER_VERSION__'',
        (named ''TI'')\<lparr>MAJOR := dec env ''__TI_COMPILER_VERSION__'' (\<lambda>n. n sdiv 1000000),
          MINOR := dec env ''__TI_COMPILER_VERSION__'' (\<lambda>n. (n sdiv 1000) smod 1000),
          PATCH := dec env ''__TI_COMPILER_VERSION__'' (\<lambda>n. n smod 1000)\<rparr>),
     (defined env ''__CLANG_FUJITSU'',
        (named ''FujitsuClang'')\<lparr>MAJOR := dec env ''__FCC_major__'' (\<lambda>n. n),
          MINOR := dec env ''__FCC_minor__'' (\<lambda>n. n),
          PATCH := dec env ''__FCC_patchlevel__'' (\<lambda>n. n),
          INTERNAL_STR := str env ''__clang_version__''\<rparr>),
     (defined env ''__FUJITSU'',
        (let i = (if defined env ''__FCC_version__'' then (named ''Fujitsu'')\<lparr>COMPILER_VERSION := str env ''__FCC_version__''\<rparr>
                  else if defined env ''__FCC_major__'' then
                    (named ''Fujitsu'')\<lparr>MAJOR := dec env ''__FCC_major__'' (\<lambda>n. n),
                      MINOR := dec env ''__FCC_minor__'' (\<lambda>n. n),
                      PATCH := dec env ''__FCC_patchlevel__'' (\<lambda>n. n)\<rparr>
                  else named ''Fujitsu'')
         in i\<lparr>INTERNAL := (if defined env ''__fcc_version'' then dec env ''__fcc_version'' (\<lambda>n. n)
                           else dec_if env ''__FCC_VERSION'' (\<lambda>n. n))\<rparr>)),
     (defined env ''__ghs__'',
        if defined env ''__GHS_VERSION_NUMBER'' then
          (named ''GHS'')\<lparr>MAJOR := dec env ''__GHS_VERSION_NUMBER'' (\<lambda>n. n sdiv 100),
            MINOR := dec env ''__GHS_VERSION_NUMBER'' (\<lambda>n. (n sdiv 10) smod 10),
            PATCH := dec env ''__GHS_VERSION_NUMBER'' (\<lambda>n. n smod 10)\<rparr>
        else named ''GHS''),
     (defined env ''__SCO_VERSION__'', named ''SCO'')]"

definition compilers_3 :: "macros \<Rightarrow> (bool \<times> ident) list" where
  "compilers_3 env =
    [(defined env ''__ARMCC_VERSION'' \<and> \<not> defined env ''__clang__'',
        if cond_value env ''__ARMCC_VERSION'' \<ge> 1000000 then
          (named ''ARMCC'')\<lparr>MAJOR := dec env ''__ARMCC_VERSION'' (\<lambda>n. n sdiv 1000000),
            MINOR := dec env ''__ARMCC_VERSION'' (\<lambda>n. (n sdiv 10000) smod 100),
            PATCH := dec env ''__ARMCC_VERSION'' (\<lambda>n. n smod 10000)\<rparr>
        else
          (named ''ARMCC'')\<lparr>MAJOR := dec env ''__ARMCC_VERSION'' (\<lambda>n. n sdiv 100000),
            MINOR := dec env ''__ARMCC_VERSION'' (\<lambda>n. (n sdiv 10000) smod 10),
            PATCH := dec env ''__ARMCC_VERSION'' (\<lambda>n. n smod 10000)\<rparr>),
     (defined env ''__clang__'' \<and> defined env ''__apple_build_version__'',
        (simulate_msvc env (named ''AppleClang''))\<lparr>MAJOR := dec env ''__clang_major__'' (\<lambda>n. n),
          MINOR := dec env ''__clang_minor__'' (\<lambda>n. n),
          PATCH := dec env ''__clang_patchlevel__'' (\<lambda>n. n),
          TWEAK := dec env ''__apple_build_version__'' (\<lambda>n. n)\<rparr>),
     (defined env ''__clang__'' \<and> defined env ''__ARMCOMPILER_VERSION'',
        (named ''ARMClang'')\<lparr>MAJOR := dec env ''__ARMCOMPILER_VERSION'' (\<lambda>n. n sdiv 1000000),
          MINOR := dec env ''__ARMCOMPILER_VERSION'' (\<lambda>n. (n sdiv 10000) smod 100),
          PATCH := dec env ''__ARMCOMPILER_VERSION'' (\<lambda>n. n smod 10000),
          INTERNAL := dec env ''__ARMCOMPILER_VERSION'' (\<lambda>n. n)\<rparr>),
     (defined env ''__clang__'',
        (simulate_msvc env (named ''Clang''))\<lparr>MAJOR := dec env ''__clang_major__'' (\<lambda>n. n),
          MINOR := dec env ''__clang_minor__'' (\<lambda>n. n),
          PATCH := dec env ''__clang_patchlevel__'' (\<lambda>n. n)\<rparr>),
     (defined env ''__LCC__'' \<and> (defined env ''__GNUC__'' \<or> defined env ''__GNUG__'' \<or> defined env ''__MCST__''),
        (let i = (named ''LCC'')\<lparr>MAJOR := Text (DEC 1),
               MINOR := dec_if env ''__LCC__'' (\<lambda>n. n - 100),
               PATCH := dec_if env ''__LCC_MINOR__'' (\<lambda>n. n)\<rparr>
         in if defined env ''__GNUC__'' \<and> defined env ''__GNUC_MINOR__'' then
              i\<lparr>SIMULATE_ID := Some ''GNU'', SIM_MAJOR := dec env ''__GNUC__'' (\<lambda>n. n),
                SIM_MINOR := dec env ''__GNUC_MINOR__'' (\<lambda>n. n),
                SIM_PATCH := dec_if env ''__GNUC_PATCHLEVEL__'' (\<lambda>n. n)\<rparr>
            else i)),
     (defined env ''__GNUC__'' \<or> defined env ''__GNUG__'',
        (named ''GNU'')\<lparr>MAJOR := (if defined env ''__GNUC__'' then dec env ''__GNUC__'' (\<lambda>n. n) else dec env ''__GNUG__'' (\<lambda>n. n)),
          MINOR := dec_if env ''__GNUC_MINOR__'' (\<lambda>n. n),
          PATCH := dec_if env ''__GNUC_PATCHLEVEL__'' (\<lambda>n. n)\<rparr>),
     (defined env ''_MSC_VER'',
        (named ''MSVC'')\<lparr>MAJOR := dec env ''_MSC_VER'' (\<lambda>n. n sdiv 100),
          MINOR := dec env ''_MSC_VER'' (\<lambda>n. n smod 100),
          PATCH := (if \<not> defined env ''_MSC_FULL_VER'' then Undefined
                    else if cond_value env ''_MSC_VER'' \<ge> 1400 then dec env ''_MSC_FULL_VER'' (\<lambda>n. n smod 100000)
                    else dec env ''_MSC_FULL_VER'' (\<lambda>n. n smod 10000)),
          TWEAK := dec_if env ''_MSC_BUILD'' (\<lambda>n. n)\<rparr>)]"

definition compilers_4 :: "macros \<Rightarrow> (bool \<times> ident) list" where
  "compilers_4 env =
    [(defined env ''_ADI_COMPILER'',
        if defined env ''__VERSIONNUM__'' then
          (named ''ADSP'')\<lparr>MAJOR := dec env ''__VERSIONNUM__'' (\<lambda>n. drop_bit 24 n AND 255),
            MINOR := dec env ''__VERSIONNUM__'' (\<lambda>n. drop_bit 16 n AND 255),
            PATCH := dec env ''__VERSIONNUM__'' (\<lambda>n. drop_bit 8 n AND 255),
            TWEAK := dec env ''__VERSIONNUM__'' (\<lambda>n. n AND 255)\<rparr>
        else named ''ADSP''),
     (defined env ''__IAR_SYSTEMS_ICC__'' \<or> defined env ''__IAR_SYSTEMS_ICC'',
        if defined env ''__VER__'' \<and> defined env ''__ICCARM__'' then
          (named ''IAR'')\<lparr>MAJOR := dec env ''__VER__'' (\<lambda>n. n sdiv 1000000),
            MINOR := dec env ''__VER__'' (\<lambda>n. (n sdiv 1000) smod 1000),
            PATCH := dec env ''__VER__'' (\<lambda>n. n smod 1000),
            INTERNAL := dec env ''__IAR_SYSTEMS_ICC__'' (\<lambda>n. n)\<rparr>
        else if defined env ''__VER__'' \<and> (defined env ''__ICCAVR__'' \<or> defined env ''__ICCRX__'' \<or> defined env ''__ICCRH850__'' \<or>
            defined env ''__ICCRL78__'' \<or> defined env ''__ICC430__'' \<or> defined env ''__ICCRISCV__'' \<or> defined env ''__ICCV850__'' \<or>
            defined env ''__ICC8051__'' \<or> defined env ''__ICCSTM8__'') then
          (named ''IAR'')\<lparr>MAJOR := dec env ''__VER__'' (\<lambda>n. n sdiv 100),
            MINOR := dec env ''__VER__'' (\<lambda>n. n - (n sdiv 100) * 100),
            PATCH := dec env ''__SUBVERSION__'' (\<lambda>n. n),
            INTERNAL := dec env ''__IAR_SYSTEMS_ICC__'' (\<lambda>n. n)\<rparr>
        else named ''IAR''),
     (defined env ''__hpux'' \<or> defined env ''__hpua'', named ''HP'')]"

definition identify :: "macros \<Rightarrow> ident" where
  "identify env = if_chain (compilers_1 env @ compilers_2 env @ compilers_3 env @ compilers_4 env) (named '''')"

section \<open>Platform and architecture\<close>

definition PLATFORM_ID :: "macros \<Rightarrow> string" where
  "PLATFORM_ID env = if_chain
    [(defined env ''__linux'' \<or> defined env ''__linux__'' \<or> defined env ''linux'', ''Linux''),
     (defined env ''__MSYS__'', ''MSYS''),
     (defined env ''__CYGWIN__'', ''Cygwin''),
     (defined env ''__MINGW32__'', ''MinGW''),
     (defined env ''__APPLE__'', ''Darwin''),
     (defined env ''_WIN32'' \<or> defined env ''__WIN32__'' \<or> defined env ''WIN32'', ''Windows''),
     (defined env ''__FreeBSD__'' \<or> defined env ''__FreeBSD'', ''FreeBSD''),
     (defined env ''__NetBSD__'' \<or> defined env ''__NetBSD'', ''NetBSD''),
     (defined env ''__OpenBSD__'' \<or> defined env ''__OPENBSD'', ''OpenBSD''),
     (defined env ''__sun'' \<or> defined env ''sun'', ''SunOS''),
     (defined env ''_AIX'' \<or> defined env ''__AIX'' \<or> defined env ''__AIX__'' \<or> defined env ''__aix'' \<or> defined env ''__aix__'', ''AIX''),
     (defined env ''__hpux'' \<or> defined env ''__hpux__'', ''HP-UX''),
     (defined env ''__HAIKU__'', ''Haiku''),
     (defined env ''__BeOS'' \<or> defined env ''__BEOS__'' \<or> defined env ''_BEOS'', ''BeOS''),
     (defined env ''__QNX__'' \<or> defined env ''__QNXNTO__'', ''QNX''),
     (defined env ''__tru64'' \<or> defined env ''_tru64'' \<or> defined env ''__TRU64__'', ''Tru64''),
     (defined env ''__riscos'' \<or> defined env ''__riscos__'', ''RISCos''),
     (defined env ''__sinix'' \<or> defined env ''__sinix__'' \<or> defined env ''__SINIX__'', ''SINIX''),
     (defined env ''__UNIX_SV__'', ''UNIX_SV''),
     (defined env ''__bsdos__'', ''BSDOS''),
     (defined env ''_MPRAS'' \<or> defined env ''MPRAS'', ''MP-RAS''),
     (defined env ''__osf'' \<or> defined env ''__osf__'', ''OSF1''),
     (defined env ''_SCO_SV'' \<or> defined env ''SCO_SV'' \<or> defined env ''sco_sv'', ''SCO_SV''),
     (defined env ''__ultrix'' \<or> defined env ''__ultrix__'' \<or> defined env ''_ULTRIX'', ''ULTRIX''),
     (defined env ''__XENIX__'' \<or> defined env ''_XENIX'' \<or> defined env ''XENIX'', ''Xenix''),
     (defined env ''__WATCOMC__'', if_chain
        [(defined env ''__LINUX__'', ''Linux''),
         (defined env ''__DOS__'', ''DOS''),
         (defined env ''__OS2__'', ''OS2''),
         (defined env ''__WINDOWS__'', ''Windows3x''),
         (defined env ''__VXWORKS__'', ''VxWorks'')] ''''),
     (defined env ''__INTEGRITY'', if defined env ''INT_178B'' then ''Integrity178'' else ''Integrity''),
     (defined env ''_ADI_COMPILER'', ''ADSP'')] ''''"

text \<open>\<open>STRINGIFY(_M_ARM)\<close> for the number that the macro stands for.\<close>

definition stringify :: "macros \<Rightarrow> string \<Rightarrow> string" where
  "stringify env x = (case env x of
     Some (Int_Macro n) \<Rightarrow> if n < 0 then CHR ''-'' # to_string (nat (- n)) else to_string (nat n)
   | Some (Str_Macro s) \<Rightarrow> CHR 0x22 # s @ [CHR 0x22]
   | None \<Rightarrow> x)"

definition ARCHITECTURE_ID :: "macros \<Rightarrow> string" where
  "ARCHITECTURE_ID env = if_chain
    [(defined env ''_WIN32'' \<and> defined env ''_MSC_VER'', if_chain
        [(defined env ''_M_IA64'', ''IA64''),
         (defined env ''_M_ARM64EC'', ''ARM64EC''),
         (defined env ''_M_X64'' \<or> defined env ''_M_AMD64'', ''x64''),
         (defined env ''_M_IX86'', ''X86''),
         (defined env ''_M_ARM64'', ''ARM64''),
         (defined env ''_M_ARM'',
            if cond_value env ''_M_ARM'' = 4 then ''ARMV4I''
            else if cond_value env ''_M_ARM'' = 5 then ''ARMV5I''
            else ''ARMV'' @ stringify env ''_M_ARM''),
         (defined env ''_M_MIPS'', ''MIPS''),
         (defined env ''_M_SH'', ''SHx'')] ''''),
     (defined env ''__WATCOMC__'', if_chain
        [(defined env ''_M_I86'', ''I86''),
         (defined env ''_M_IX86'', ''X86'')] ''''),
     (defined env ''__IAR_SYSTEMS_ICC__'' \<or> defined env ''__IAR_SYSTEMS_ICC'', if_chain
        [(defined env ''__ICCARM__'', ''ARM''),
         (defined env ''__ICCRX__'', ''RX''),
         (defined env ''__ICCRH850__'', ''RH850''),
         (defined env ''__ICCRL78__'', ''RL78''),
         (defined env ''__ICCRISCV__'', ''RISCV''),
         (defined env ''__ICCAVR__'', ''AVR''),
         (defined env ''__ICC430__'', ''MSP430''),
         (defined env ''__ICCV850__'', ''V850''),
         (defined env ''__ICC8051__'', ''8051''),
         (defined env ''__ICCSTM8__'', ''STM8'')] ''''),
     (defined env ''__ghs__'', if_chain
        [(defined env ''__PPC64__'', ''PPC64''),
         (defined env ''__ppc__'', ''PPC''),
         (defined env ''__ARM__'', ''ARM''),
         (defined env ''__x86_64__'', ''x64''),
         (defined env ''__i386__'', ''X86'')] ''''),
     (defined env ''__TI_COMPILER_VERSION__'', if_chain
        [(defined env ''__TI_ARM__'', ''ARM''),
         (defined env ''__MSP430__'', ''MSP430''),
         (defined env ''__TMS320C28XX__'', ''TMS320C28x''),
         (defined env ''__TMS320C6X__'' \<or> defined env ''_TMS320C6X'', ''TMS320C6x'')] ''''),
     (defined env ''__ADSPSHARC__'', ''SHARC''),
     (defined env ''__ADSPBLACKFIN__'', ''Blackfin'')] ''''"

section \<open>The strings of the program\<close>

text \<open>A literal or array of characters, with the terminating null character.\<close>

definition c_literal :: "string \<Rightarrow> string" where
  "c_literal s = s @ [CHR 0x00]"

definition info_compiler :: "macros \<Rightarrow> string" where
  "info_compiler env = c_literal (''INFO:compiler['' @ COMPILER_ID (identify env) @ '']'')"

definition info_simulate :: "macros \<Rightarrow> item" where
  "info_simulate env = (case SIMULATE_ID (identify env) of
     None \<Rightarrow> Undefined
   | Some i \<Rightarrow> Text (c_literal (''INFO:simulate['' @ i @ '']'')))"

definition info_cray :: "macros \<Rightarrow> item" where
  "info_cray env = (if defined env ''__CRAYXT_COMPUTE_LINUX_TARGET''
     then Text (c_literal ''INFO:compiler_wrapper[CrayPrgEnv]'') else Undefined)"

text \<open>The components after the first, each nested in the condition on the one before it.\<close>

fun components :: "item list \<Rightarrow> item" where
  "components [] = Text []"
| "components (Undefined # is) = Text []"
| "components (Ill_Formed # is) = Ill_Formed"
| "components (Text s # is) = (case components is of Text r \<Rightarrow> Text (CHR ''.'' # s @ r) | r \<Rightarrow> r)"

definition version_array :: "string \<Rightarrow> item \<Rightarrow> item list \<Rightarrow> item" where
  "version_array intro major is = (case major of
     Undefined \<Rightarrow> Undefined
   | Ill_Formed \<Rightarrow> Ill_Formed
   | Text m \<Rightarrow> (case components is of Text r \<Rightarrow> Text (intro @ m @ r @ '']'' @ [CHR 0x00]) | r \<Rightarrow> r))"

definition info_version :: "macros \<Rightarrow> item" where
  "info_version env = (let i = identify env in
     case COMPILER_VERSION i of
       Undefined \<Rightarrow> version_array ''INFO:compiler_version['' (MAJOR i) [MINOR i, PATCH i, TWEAK i]
     | Text v \<Rightarrow> Text (c_literal (''INFO:compiler_version['' @ v @ '']''))
     | Ill_Formed \<Rightarrow> Ill_Formed)"

definition info_version_internal :: "macros \<Rightarrow> item" where
  "info_version_internal env = (let i = identify env in
     case INTERNAL i of
       Undefined \<Rightarrow> (case INTERNAL_STR i of
           Text v \<Rightarrow> Text (c_literal (''INFO:compiler_version_internal['' @ v @ '']''))
         | r \<Rightarrow> r)
     | r \<Rightarrow> version_array ''INFO:compiler_version_internal['' r [])"

definition info_simulate_version :: "macros \<Rightarrow> item" where
  "info_simulate_version env = (let i = identify env in
     version_array ''INFO:simulate_version['' (SIM_MAJOR i) [SIM_MINOR i, SIM_PATCH i])"

definition info_platform :: "macros \<Rightarrow> string" where
  "info_platform env = c_literal (''INFO:platform['' @ PLATFORM_ID env @ '']'')"

definition info_arch :: "macros \<Rightarrow> string" where
  "info_arch env = c_literal (''INFO:arch['' @ ARCHITECTURE_ID env @ '']'')"

definition CXX_STD :: "macros \<Rightarrow> int" where
  "CXX_STD env =
     (if defined env ''__INTEL_COMPILER'' \<and> defined env ''_MSVC_LANG'' \<and> cond_value env ''_MSVC_LANG'' < 201403 then
        if defined env ''__INTEL_CXX11_MODE__'' then
          if defined env ''__cpp_aggregate_nsdmi'' then 201402 else 201103
        else 199711
      else if defined env ''_MSC_VER'' \<and> defined env ''_MSVC_LANG'' then cond_value env ''_MSVC_LANG''
      else cond_value env ''__cplusplus'')"

definition info_language_standard_default :: "macros \<Rightarrow> string" where
  "info_language_standard_default env = (let std = CXX_STD env in
     c_literal (''INFO:standard_default['' @ if_chain
       [(std > 202002, ''23''),
        (std > 201703, ''20''),
        (std \<ge> 201703, ''17''),
        (std \<ge> 201402, ''14''),
        (std \<ge> 201103, ''11'')] ''98'' @ '']''))"

definition info_language_extensions_default :: "macros \<Rightarrow> string" where
  "info_language_extensions_default env = c_literal (''INFO:extensions_default['' @
     (if (defined env ''__clang__'' \<or> defined env ''__GNUC__'' \<or> defined env ''__xlC__'' \<or> defined env ''__TI_COMPILER_VERSION__'') \<and>
         \<not> defined env ''__STRICT_ANSI__'' then ''ON'' else ''OFF'') @ '']'')"

section \<open>The main function\<close>

text \<open>\<open>require += s[argc]\<close> for every string that the conditions of \<open>main\<close> leave in.\<close>

definition required :: "macros \<Rightarrow> item list" where
  "required env =
     [Text (info_compiler env), Text (info_platform env),
      (if MAJOR (identify env) = Undefined then Undefined else info_version env),
      (if INTERNAL (identify env) = Undefined then Undefined else info_version_internal env),
      info_simulate env, info_simulate_version env, info_cray env,
      Text (info_language_standard_default env), Text (info_language_extensions_default env)]"

text \<open>An index outside an array is undefined behaviour.\<close>

fun require_sum :: "nat \<Rightarrow> item list \<Rightarrow> (unit, int) outcome" where
  "require_sum argc [] = Val 0"
| "require_sum argc (Text s # is) =
     (if argc < length s
      then (case require_sum argc is of Val r \<Rightarrow> Val (of_char (s ! argc) + r) | r \<Rightarrow> r)
      else UB)"
| "require_sum argc (_ # is) = require_sum argc is"

text \<open>\<open>None\<close>: the program does not compile.\<close>

definition id_main :: "macros \<Rightarrow> nat \<Rightarrow> (unit, int) outcome option" where
  "id_main env argc =
     (if \<not> defined env ''__cplusplus'' \<or>
         Ill_Formed \<in> {info_version env, info_version_internal env, info_simulate_version env}
      then None else Some (require_sum argc (required env)))"

definition qnxnto :: "macros \<Rightarrow> item" where
  "qnxnto env = (if defined env ''__QNXNTO__'' then Text (c_literal ''INFO:qnxnto[]'') else Undefined)"

section \<open>Decimal digits\<close>

lemma truncating_nonneg: "0 \<le> n \<Longrightarrow> 0 < k \<Longrightarrow> n sdiv k = n div k" "0 \<le> n \<Longrightarrow> 0 < k \<Longrightarrow> n smod k = n mod k" for n k :: int
  by (cases "n = 0"; simp add: signed_divide_int_def signed_modulo_int_def)+

lemma digit_at_nat: "digit_at (int d) = digit_char d"
  unfolding digit_at_def digit_char_def by (metis char_of_nat of_nat_add of_nat_numeral)

lemma DEC_digits: "DEC (int n) = map (\<lambda>i. digit_char (n div 10 ^ i mod 10)) (rev [0..<8])"
  by (simp add: DEC_def truncating_nonneg upt_rec digit_at_nat [symmetric] zdiv_int zmod_int)

lemma digits_value:
  "parse_digits (n div 10 ^ k mod 10 ^ j) (map (\<lambda>i. digit_char (n div 10 ^ i mod 10)) (rev [0..<k])) = Some (n mod 10 ^ (k + j))"
proof (induction k arbitrary: j)
  case (Suc k)
  have "10 * (n div 10 ^ Suc k mod 10 ^ j) + n div 10 ^ k mod 10 = n div 10 ^ k mod (10 * 10 ^ j)"
    by (simp add: mod_mult2_eq power_Suc2 div_mult2_eq del: power_Suc)
  with Suc.IH [of "Suc j"] show ?case by (simp add: digit_value_digit_char)
qed simp

lemma parse_DEC: "parse_digits 0 (DEC (int n)) = Some (n mod 10 ^ 8)"
  using digits_value [of n 8 0] by (simp add: DEC_digits)

text \<open>
  The version digits: \<open>DEC\<close> writes eight decimal digits, which read back as the number modulo
  \<open>10 ^ 8\<close>, so every component below that is recovered.
\<close>

theorem DEC_round_trip:
  assumes "0 \<le> n"
  shows "length (DEC n) = 8 \<and> parse_digits 0 (DEC n) = Some (nat (n mod 10 ^ 8)) \<and>
    (n < 10 ^ 8 \<longrightarrow> parse_digits 0 (DEC n) = Some (nat n))"
proof -
  obtain k where k: "n = int k" using assms by (metis nonneg_int_cases)
  have "int k mod 10 ^ 8 = int (k mod 10 ^ 8)" by (simp add: zmod_int)
  then have "parse_digits 0 (DEC n) = Some (nat (n mod 10 ^ 8))" unfolding k parse_DEC by (simp only: nat_int)
  moreover have "n < 10 ^ 8 \<Longrightarrow> n mod 10 ^ 8 = n" using assms by simp
  ultimately show ?thesis by (simp add: DEC_def)
qed

theorem DEC_round_trip_witness: "DEC 11 = ''00000011'' \<and> parse_digits 0 (DEC 11) = Some 11"
  using DEC_round_trip [of 11] by (simp add: DEC_def digit_at_def truncating_nonneg char_of_def bit_0)

section \<open>Identification\<close>

text \<open>The macros by which the compilers before GNU in the chain are recognised.\<close>

definition earlier_macros :: "string list" where
  "earlier_macros = [''__COMO__'', ''__INTEL_COMPILER'', ''__ICC'', ''__INTEL_LLVM_COMPILER'', ''__PATHCC__'', ''__BORLANDC__'',
     ''__WATCOMC__'', ''__SUNPRO_CC'', ''__HP_aCC'', ''__DECCXX'', ''__IBMCPP__'', ''__NVCOMPILER'', ''__PGI'', ''_CRAYC'',
     ''__TI_COMPILER_VERSION__'', ''__CLANG_FUJITSU'', ''__FUJITSU'', ''__ghs__'', ''__SCO_VERSION__'', ''__ARMCC_VERSION'',
     ''__clang__'', ''__LCC__'']"

lemma if_chain_append: "if_chain (xs @ ys) z = if_chain xs (if_chain ys z)"
  by (induction xs) auto

lemma if_chain_false: "\<forall>b\<in>fst ` set xs. \<not> b \<Longrightarrow> if_chain xs z = z"
  by (induction xs) auto

lemma gnu_chain:
  assumes "\<forall>x\<in>set earlier_macros. \<not> defined env x" and "defined env ''__GNUC__''"
  shows "identify env = (named ''GNU'')\<lparr>MAJOR := dec env ''__GNUC__'' (\<lambda>n. n),
     MINOR := dec_if env ''__GNUC_MINOR__'' (\<lambda>n. n), PATCH := dec_if env ''__GNUC_PATCHLEVEL__'' (\<lambda>n. n)\<rparr>"
proof -
  note none = assms(1) [unfolded earlier_macros_def, simplified]
  have "if_chain (compilers_1 env) z = z" for z
    by (rule if_chain_false) (simp only: compilers_1_def list.set image_insert image_empty fst_conv ball_simps none, simp)
  moreover have "if_chain (compilers_2 env) z = z" for z
    by (rule if_chain_false) (simp only: compilers_2_def list.set image_insert image_empty fst_conv ball_simps none, simp)
  ultimately show ?thesis
    using assms(2) by (simp add: identify_def if_chain_append compilers_3_def none)
qed

text \<open>
  A compiler that defines the three GNU version macros and none of those that identify another
  compiler before it is reported as GNU with its version, eight digits per component, and as no
  simulation of another compiler; the program compiles and runs.
\<close>

theorem gnu_identified:
  assumes "\<forall>x\<in>set earlier_macros. env x = None" and "env ''__GNUC__'' = Some (Int_Macro a)"
    and "env ''__GNUC_MINOR__'' = Some (Int_Macro b)" and "env ''__GNUC_PATCHLEVEL__'' = Some (Int_Macro c)"
    and "env ''__cplusplus'' = Some (Int_Macro std)"
  shows "info_compiler env = ''INFO:compiler[GNU]'' @ [CHR 0x00] \<and> info_simulate env = Undefined \<and>
    info_version env = Text (''INFO:compiler_version['' @ DEC a @ ''.'' @ DEC b @ ''.'' @ DEC c @ '']'' @ [CHR 0x00]) \<and>
    id_main env 1 \<noteq> None"
proof -
  have "\<forall>x\<in>set earlier_macros. \<not> defined env x" "defined env ''__GNUC__''"
    using assms(1,2) by (simp_all add: defined_def)
  then have id: "identify env = (named ''GNU'')\<lparr>MAJOR := Text (DEC a), MINOR := Text (DEC b), PATCH := Text (DEC c)\<rparr>"
    using assms(2-4) gnu_chain [of env] by (simp add: dec_def dec_if_def defined_def)
  have "defined env ''__cplusplus''" using assms(5) by (simp add: defined_def)
  then show ?thesis
    by (simp add: id_main_def info_compiler_def info_simulate_def info_version_def info_version_internal_def info_simulate_version_def
        id named_def version_array_def c_literal_def Let_def)
qed

definition gcc_11 :: macros where
  "gcc_11 = [''__GNUC__'' \<mapsto> Int_Macro 11, ''__GNUC_MINOR__'' \<mapsto> Int_Macro 4, ''__GNUC_PATCHLEVEL__'' \<mapsto> Int_Macro 0,
     ''__cplusplus'' \<mapsto> Int_Macro 201703, ''__linux__'' \<mapsto> Int_Macro 1]"

lemma gcc_11_identity:
  "identify gcc_11 = (named ''GNU'')\<lparr>MAJOR := Text (DEC 11), MINOR := Text (DEC 4), PATCH := Text (DEC 0)\<rparr>"
  by (subst gnu_chain) (simp_all add: gcc_11_def earlier_macros_def defined_def dec_def dec_if_def)

theorem gnu_identified_witness:
  "info_version gcc_11 = Text (''INFO:compiler_version['' @ DEC 11 @ ''.'' @ DEC 4 @ ''.'' @ DEC 0 @ '']'' @ [CHR 0x00])"
  using gnu_identified [of gcc_11 11 4 0 201703] by (simp add: gcc_11_def earlier_macros_def)

section \<open>Reading the strings\<close>

lemma require_sum_cases:
  "require_sum argc is = UB \<longleftrightarrow> (\<exists>s. Text s \<in> set is \<and> length s \<le> argc)"
  "require_sum argc is = UB \<or> (\<exists>v. require_sum argc is = Val v)"
proof (induction argc "is" rule: require_sum.induct)
  case (2 argc s "is")
  { case 1
    show ?case
      using "2.IH" by (cases "argc < length s") (auto split: outcome.splits)
  next
    case 2
    show ?case
      using "2.IH" by (cases "argc < length s") (auto split: outcome.splits)
  }
qed auto

text \<open>Every string is at least as long as \<open>INFO:compiler[]\<close> with its terminator.\<close>

lemma version_array_length: "version_array intro m is = Text s \<Longrightarrow> length intro + 2 \<le> length s"
  by (auto simp: version_array_def split: item.splits)

lemma version_lengths:
  "info_version env = Text s \<Longrightarrow> 16 \<le> length s"
  "info_version_internal env = Text s \<Longrightarrow> 16 \<le> length s"
  "info_simulate_version env = Text s \<Longrightarrow> 16 \<le> length s"
  by (auto simp: info_version_def info_version_internal_def info_simulate_version_def Let_def c_literal_def
      dest!: version_array_length split: item.splits)

lemma literal_lengths:
  "16 \<le> length (info_compiler env)" "16 \<le> length (info_platform env)"
  "16 \<le> length (info_language_standard_default env)" "16 \<le> length (info_language_extensions_default env)"
  "info_simulate env = Text s \<Longrightarrow> 16 \<le> length s" "info_cray env = Text s \<Longrightarrow> 16 \<le> length s"
  by (auto simp: info_compiler_def info_platform_def info_language_standard_default_def info_language_extensions_default_def
      info_simulate_def info_cray_def c_literal_def Let_def split: option.splits if_splits)

lemma required_length:
  assumes "Text s \<in> set (required env)"
  shows "16 \<le> length s"
proof -
  have "s \<in> {info_compiler env, info_platform env, info_language_standard_default env, info_language_extensions_default env} \<or>
      Text s \<in> {info_version env, info_version_internal env, info_simulate env, info_simulate_version env, info_cray env}"
    using assms unfolding required_def by (simp split: if_splits) blast+
  then show ?thesis using literal_lengths version_lengths by (metis insertE singletonD)
qed

text \<open>
  The main function indexes each of its strings with the argument count: it has undefined behaviour
  exactly when that count reaches the length of one of them, which no count up to 15 does.
\<close>

theorem id_main_bounds:
  assumes "id_main env argc = Some r"
  shows "(r = UB \<longleftrightarrow> (\<exists>s. Text s \<in> set (required env) \<and> length s \<le> argc)) \<and> (argc \<le> 15 \<longrightarrow> (\<exists>v. r = Val v))"
proof -
  have r: "r = require_sum argc (required env)" using assms by (simp add: id_main_def split: if_splits)
  have "r \<noteq> UB" if "argc \<le> 15" using that required_length unfolding r require_sum_cases(1) by fastforce
  then show ?thesis using require_sum_cases [of argc "required env"] unfolding r by auto
qed

theorem id_main_bounds_witness: "\<exists>v. id_main gcc_11 1 = Some (Val v)"
proof -
  obtain r where r: "id_main gcc_11 1 = Some r"
    using gcc_11_identity
    by (simp add: id_main_def gcc_11_def defined_def info_version_def info_version_internal_def info_simulate_version_def
        version_array_def named_def Let_def)
  from id_main_bounds [OF r] r show ?thesis by auto
qed

end
