(* ===== verification/Preprocessor.thy ===== *)
theory Preprocessor
  imports Compiler_Id
begin

text \<open>
  The part of the C preprocessor that the identification programs of the build use, with the programs'
  directives as data: \<open>#if\<close> chains over the compiler's macros, and the definitions they select. A macro
  that is defined again takes its last definition.
\<close>

section \<open>Directives\<close>

text \<open>Integer expressions over predefined macros. Division and remainder are C's.\<close>

datatype expr = Num int | Macro string | Quot expr expr | Rem expr expr | Minus expr expr | Times expr expr | Shr expr nat | Mask expr int

datatype cond = Defined string | Neg cond | And cond cond | Or cond cond | Less expr expr | At_Least expr expr | Equals expr expr

text \<open>
  What a macro stands for: nothing, a string literal, digits made by \<open>DEC\<close> or \<open>HEX\<close>, another macro that
  is a string, or a literal followed by the spelling of a macro's value.
\<close>

datatype body = Nothing | Lit string | Dec expr | Hex expr | String_Macro string | Stringify string string

text \<open>The macros that the programs define.\<close>

datatype own =
    M_COMPILER_ID | M_SIMULATE_ID | M_COMPILER_VERSION
  | M_VERSION_MAJOR | M_VERSION_MINOR | M_VERSION_PATCH | M_VERSION_TWEAK | M_VERSION_INTERNAL | M_VERSION_INTERNAL_STR
  | M_SIMULATE_MAJOR | M_SIMULATE_MINOR | M_SIMULATE_PATCH
  | M_PLATFORM_ID | M_ARCHITECTURE_ID | M_C_VERSION | M_ID_VOID_MAIN | M_const | M_volatile

datatype directive = Define own body | Cond cond "directive list" "directive list"

text \<open>\<open>#if\<close>, any number of \<open>#elif\<close>, and \<open>#else\<close>.\<close>

fun chain :: "(cond \<times> directive list) list \<Rightarrow> directive list \<Rightarrow> directive list" where
  "chain [] els = els"
| "chain ((c, ds) # bs) els = [Cond c ds (chain bs els)]"

section \<open>Meaning\<close>

text \<open>An identifier that is no macro counts as 0 in a condition.\<close>

fun int_of :: "macros \<Rightarrow> expr \<Rightarrow> int" where
  "int_of env (Num n) = n"
| "int_of env (Macro x) = cond_value env x"
| "int_of env (Quot a b) = int_of env a sdiv int_of env b"
| "int_of env (Rem a b) = int_of env a smod int_of env b"
| "int_of env (Minus a b) = int_of env a - int_of env b"
| "int_of env (Times a b) = int_of env a * int_of env b"
| "int_of env (Shr a k) = drop_bit k (int_of env a)"
| "int_of env (Mask a k) = and (int_of env a) k"

fun holds :: "macros \<Rightarrow> cond \<Rightarrow> bool" where
  "holds env (Defined x) \<longleftrightarrow> defined env x"
| "holds env (Neg c) \<longleftrightarrow> \<not> holds env c"
| "holds env (And c d) \<longleftrightarrow> holds env c \<and> holds env d"
| "holds env (Or c d) \<longleftrightarrow> holds env c \<or> holds env d"
| "holds env (Less a b) \<longleftrightarrow> int_of env a < int_of env b"
| "holds env (At_Least a b) \<longleftrightarrow> int_of env a \<ge> int_of env b"
| "holds env (Equals a b) \<longleftrightarrow> int_of env a = int_of env b"

type_synonym defs = "own \<rightharpoonup> body"

fun run :: "macros \<Rightarrow> directive \<Rightarrow> defs \<Rightarrow> defs"
  and run_all :: "macros \<Rightarrow> directive list \<Rightarrow> defs \<Rightarrow> defs" where
  "run env (Define x b) d = d(x \<mapsto> b)"
| "run env (Cond c ds els) d = (if holds env c then run_all env ds d else run_all env els d)"
| "run_all env [] d = d"
| "run_all env (x # xs) d = run_all env xs (run env x d)"

text \<open>The macros whose values an expression needs outside of a condition.\<close>

fun uses :: "expr \<Rightarrow> string list" where
  "uses (Num n) = []"
| "uses (Macro x) = [x]"
| "uses (Quot a b) = uses a @ uses b"
| "uses (Rem a b) = uses a @ uses b"
| "uses (Minus a b) = uses a @ uses b"
| "uses (Times a b) = uses a @ uses b"
| "uses (Shr a k) = uses a"
| "uses (Mask a k) = uses a"

definition is_int :: "macros \<Rightarrow> string \<Rightarrow> bool" where
  "is_int env x \<longleftrightarrow> (case env x of Some (Int_Macro n) \<Rightarrow> True | _ \<Rightarrow> False)"

fun item_of :: "macros \<Rightarrow> body \<Rightarrow> item" where
  "item_of env Nothing = Text []"
| "item_of env (Lit s) = Text s"
| "item_of env (Dec e) = (if list_all (is_int env) (uses e) then Text (DEC (int_of env e)) else Ill_Formed)"
| "item_of env (Hex e) = (if list_all (is_int env) (uses e) then Text (HEX (int_of env e)) else Ill_Formed)"
| "item_of env (String_Macro x) = str env x"
| "item_of env (Stringify s x) = Text (s @ stringify env x)"

definition own_item :: "macros \<Rightarrow> defs \<Rightarrow> own \<Rightarrow> item" where
  "own_item env d x = (case d x of None \<Rightarrow> Undefined | Some b \<Rightarrow> item_of env b)"

text \<open>\<open>"INFO" ":" "name[" X "]"\<close>\<close>

definition info_string :: "string \<Rightarrow> item \<Rightarrow> item" where
  "info_string name x = (case x of Text s \<Rightarrow> Text (c_literal (''INFO:'' @ name @ ''['' @ s @ '']'')) | r \<Rightarrow> r)"

section \<open>Laws\<close>

lemma run_chain:
  "run_all env (chain bs els) d = if_chain (map (\<lambda>(c, ds). (holds env c, run_all env ds d)) bs) (run_all env els d)"
  by (induction bs) auto

lemma dec_alt: "dec env x f = (if is_int env x then Text (DEC (f (cond_value env x))) else Ill_Formed)"
  by (simp add: dec_def is_int_def cond_value_def split: option.split mvalue.split)

lemma hex_alt: "hex env x f = (if is_int env x then Text (HEX (f (cond_value env x))) else Ill_Formed)"
  by (simp add: hex_def is_int_def cond_value_def split: option.split mvalue.split)

lemma if_chain_map: "f (if_chain xs z) = if_chain (map (apsnd f) xs) (f z)"
  by (induction xs) auto

text \<open>The macros that directives read.\<close>

fun cond_macros :: "cond \<Rightarrow> string list" where
  "cond_macros (Defined x) = [x]"
| "cond_macros (Neg c) = cond_macros c"
| "cond_macros (And c d) = cond_macros c @ cond_macros d"
| "cond_macros (Or c d) = cond_macros c @ cond_macros d"
| "cond_macros (Less a b) = uses a @ uses b"
| "cond_macros (At_Least a b) = uses a @ uses b"
| "cond_macros (Equals a b) = uses a @ uses b"

fun body_macros :: "body \<Rightarrow> string list" where
  "body_macros Nothing = []"
| "body_macros (Lit s) = []"
| "body_macros (Dec e) = uses e"
| "body_macros (Hex e) = uses e"
| "body_macros (String_Macro x) = [x]"
| "body_macros (Stringify s x) = [x]"

fun reads :: "directive \<Rightarrow> string list"
  and reads_all :: "directive list \<Rightarrow> string list" where
  "reads (Define x b) = body_macros b"
| "reads (Cond c ds els) = cond_macros c @ reads_all ds @ reads_all els"
| "reads_all [] = []"
| "reads_all (x # xs) = reads x @ reads_all xs"

lemma int_of_cong: "\<forall>x\<in>set (uses e). env x = env' x \<Longrightarrow> int_of env e = int_of env' e"
  by (induction e) (auto simp: cond_value_def)

lemma holds_cong: "\<forall>x\<in>set (cond_macros c). env x = env' x \<Longrightarrow> holds env c = holds env' c"
  by (induction c) (simp_all add: defined_def ball_Un int_of_cong [of _ env env'])

lemma item_of_cong: "\<forall>x\<in>set (body_macros b). env x = env' x \<Longrightarrow> item_of env b = item_of env' b"
  by (cases b) (auto simp: int_of_cong [of _ env env'] list_all_iff is_int_def str_def stringify_def)

lemma run_cong:
  "\<forall>x\<in>set (reads dir). env x = env' x \<Longrightarrow> run env dir d = run env' dir d"
  "\<forall>x\<in>set (reads_all ds). env x = env' x \<Longrightarrow> run_all env ds d = run_all env' ds d"
proof (induction env dir d and env ds d rule: run_run_all.induct)
  case (2 env c ds els d)
  then show ?case using holds_cong [of c env env'] by (auto simp: ball_Un)
qed (auto simp: ball_Un)

lemma run_bodies:
  "run env dir d x = Some b \<Longrightarrow> d x = Some b \<or> set (body_macros b) \<subseteq> set (reads dir)"
  "run_all env ds d x = Some b \<Longrightarrow> d x = Some b \<or> set (body_macros b) \<subseteq> set (reads_all ds)"
  by (induction env dir d and env ds d rule: run_run_all.induct) (auto split: if_splits)

lemma own_item_cong:
  assumes "\<forall>x\<in>set (reads_all ds). env x = env' x"
  shows "own_item env (run_all env ds Map.empty) = own_item env' (run_all env' ds Map.empty)"
proof
  fix x
  have "item_of env b = item_of env' b" if "run_all env' ds Map.empty x = Some b" for b
    using run_bodies(2) [OF that] assms by (intro item_of_cong) auto
  then show "own_item env (run_all env ds Map.empty) x = own_item env' (run_all env' ds Map.empty) x"
    using run_cong(2) [OF assms] by (simp add: own_item_def split: option.split)
qed

text \<open>The text of one macro, followed through the directives without the others.\<close>

fun follow :: "macros \<Rightarrow> directive \<Rightarrow> own \<Rightarrow> item \<Rightarrow> item"
  and follow_all :: "macros \<Rightarrow> directive list \<Rightarrow> own \<Rightarrow> item \<Rightarrow> item" where
  "follow env (Define y b) x z = (if x = y then item_of env b else z)"
| "follow env (Cond c ds els) x z = (if holds env c then follow_all env ds x z else follow_all env els x z)"
| "follow_all env [] x z = z"
| "follow_all env (dir # ds) x z = follow_all env ds x (follow env dir x z)"

lemma own_item_run:
  "own_item env (run env dir d) x = follow env dir x (own_item env d x)"
  "own_item env (run_all env ds d) x = follow_all env ds x (own_item env d x)"
  by (induction env dir d and env ds d rule: run_run_all.induct) (simp_all add: own_item_def)

lemma follow_all_append: "follow_all env (ds @ es) x z = follow_all env es x (follow_all env ds x z)"
  by (induction ds arbitrary: z) simp_all

lemma follow_chain:
  "follow_all env (chain bs els) x z = if_chain (map (\<lambda>(c, ds). (holds env c, follow_all env ds x z)) bs) (follow_all env els x z)"
  by (induction bs) auto

text \<open>The macros that directives define, those that they define in every case, and those that they define as literals only.\<close>

fun sets :: "directive \<Rightarrow> own list"
  and sets_all :: "directive list \<Rightarrow> own list" where
  "sets (Define x b) = [x]"
| "sets (Cond c ds els) = sets_all ds @ sets_all els"
| "sets_all [] = []"
| "sets_all (x # xs) = sets x @ sets_all xs"

fun surely :: "own \<Rightarrow> directive \<Rightarrow> bool"
  and surely_all :: "own \<Rightarrow> directive list \<Rightarrow> bool" where
  "surely x (Define y b) \<longleftrightarrow> x = y"
| "surely x (Cond c ds els) \<longleftrightarrow> surely_all x ds \<and> surely_all x els"
| "surely_all x [] \<longleftrightarrow> False"
| "surely_all x (d # ds) \<longleftrightarrow> surely x d \<or> surely_all x ds"

fun literal :: "body \<Rightarrow> bool" where
  "literal Nothing \<longleftrightarrow> True"
| "literal (Lit s) \<longleftrightarrow> True"
| "literal (Stringify s x) \<longleftrightarrow> True"
| "literal _ \<longleftrightarrow> False"

fun literals :: "own \<Rightarrow> directive \<Rightarrow> bool"
  and literals_all :: "own \<Rightarrow> directive list \<Rightarrow> bool" where
  "literals x (Define y b) \<longleftrightarrow> x = y \<longrightarrow> literal b"
| "literals x (Cond c ds els) \<longleftrightarrow> literals_all x ds \<and> literals_all x els"
| "literals_all x [] \<longleftrightarrow> True"
| "literals_all x (d # ds) \<longleftrightarrow> literals x d \<and> literals_all x ds"

lemma follow_frame:
  "x \<notin> set (sets dir) \<Longrightarrow> follow env dir x z = z"
  "x \<notin> set (sets_all ds) \<Longrightarrow> follow_all env ds x z = z"
  by (induction env dir x z and env ds x z rule: follow_follow_all.induct) auto

lemma item_of_defined: "item_of env b \<noteq> Undefined"
  by (cases b) (auto simp: str_def split: option.split mvalue.split)

lemma follow_defined:
  "z \<noteq> Undefined \<or> surely x dir \<Longrightarrow> follow env dir x z \<noteq> Undefined"
  "z \<noteq> Undefined \<or> surely_all x ds \<Longrightarrow> follow_all env ds x z \<noteq> Undefined"
  by (induction env dir x z and env ds x z rule: follow_follow_all.induct) (auto simp: item_of_defined)

lemma item_of_literal: "literal b \<Longrightarrow> item_of env b \<noteq> Ill_Formed"
  by (cases b) simp_all

lemma follow_literal:
  "z \<noteq> Ill_Formed \<Longrightarrow> literals x dir \<Longrightarrow> follow env dir x z \<noteq> Ill_Formed"
  "z \<noteq> Ill_Formed \<Longrightarrow> literals_all x ds \<Longrightarrow> follow_all env ds x z \<noteq> Ill_Formed"
  by (induction env dir x z and env ds x z rule: follow_follow_all.induct) (auto simp: item_of_literal)

lemma own_item_empty [simp]: "own_item env Map.empty x = Undefined"
  by (simp add: own_item_def)

end
