(* ===== verification/C_Compiler_Id.thy ===== *)
theory C_Compiler_Id
  imports Preprocessor
begin

text \<open>
  \<open>src/client/build/CMakeFiles/3.24.1/CompilerIdC/CMakeCCompilerId.c\<close>, which the build compiles to find out
  which C compiler it has: its directives as data for \<open>Preprocessor\<close>, branch by branch in the order of the
  file, then the strings it is left with and its main function. The program is compared with the one for C++.
\<close>

section \<open>The language\<close>

definition c_language :: "directive list" where
  "c_language =
    [Cond (Defined ''__18CXX'') [Define M_ID_VOID_MAIN Nothing] [],
     Cond (Defined ''__CLASSIC_C__'')
       [Define M_const Nothing,
        Define M_volatile Nothing]
       []]"

section \<open>The compiler\<close>

definition c_compilers_1 :: "(cond \<times> directive list) list" where
  "c_compilers_1 =
    [(Or (Defined ''__INTEL_COMPILER'') (Defined ''__ICC''),
        [Define M_COMPILER_ID (Lit ''Intel''),
         Cond (Defined ''_MSC_VER'') [Define M_SIMULATE_ID (Lit ''MSVC'')] [],
         Cond (Defined ''__GNUC__'') [Define M_SIMULATE_ID (Lit ''GNU'')] [],
         Cond (Or (Or (Less (Macro ''__INTEL_COMPILER'') (Num 2021)) (Equals (Macro ''__INTEL_COMPILER'') (Num 202110)))
             (Equals (Macro ''__INTEL_COMPILER'') (Num 202111)))
           [Define M_VERSION_MAJOR (Dec (Quot (Macro ''__INTEL_COMPILER'') (Num 100))),
            Define M_VERSION_MINOR (Dec (Rem (Quot (Macro ''__INTEL_COMPILER'') (Num 10)) (Num 10))),
            Cond (Defined ''__INTEL_COMPILER_UPDATE'')
              [Define M_VERSION_PATCH (Dec (Macro ''__INTEL_COMPILER_UPDATE''))]
              [Define M_VERSION_PATCH (Dec (Rem (Macro ''__INTEL_COMPILER'') (Num 10)))]]
           [Define M_VERSION_MAJOR (Dec (Macro ''__INTEL_COMPILER'')),
            Define M_VERSION_MINOR (Dec (Macro ''__INTEL_COMPILER_UPDATE'')),
            Define M_VERSION_PATCH (Dec (Num 0))],
         Cond (Defined ''__INTEL_COMPILER_BUILD_DATE'') [Define M_VERSION_TWEAK (Dec (Macro ''__INTEL_COMPILER_BUILD_DATE''))] [],
         Cond (Defined ''_MSC_VER'')
           [Define M_SIMULATE_MAJOR (Dec (Quot (Macro ''_MSC_VER'') (Num 100))),
            Define M_SIMULATE_MINOR (Dec (Rem (Macro ''_MSC_VER'') (Num 100)))]
           []] @
        chain
          [(Defined ''__GNUC__'', [Define M_SIMULATE_MAJOR (Dec (Macro ''__GNUC__''))]),
           (Defined ''__GNUG__'', [Define M_SIMULATE_MAJOR (Dec (Macro ''__GNUG__''))])]
          [] @
        [Cond (Defined ''__GNUC_MINOR__'') [Define M_SIMULATE_MINOR (Dec (Macro ''__GNUC_MINOR__''))] [],
         Cond (Defined ''__GNUC_PATCHLEVEL__'') [Define M_SIMULATE_PATCH (Dec (Macro ''__GNUC_PATCHLEVEL__''))] []]),
     (Or (And (Defined ''__clang__'') (Defined ''__INTEL_CLANG_COMPILER'')) (Defined ''__INTEL_LLVM_COMPILER''),
        [Define M_COMPILER_ID (Lit ''IntelLLVM''),
         Cond (Defined ''_MSC_VER'') [Define M_SIMULATE_ID (Lit ''MSVC'')] [],
         Cond (Defined ''__GNUC__'') [Define M_SIMULATE_ID (Lit ''GNU'')] [],
         Cond (Less (Macro ''__INTEL_LLVM_COMPILER'') (Num 1000000))
           [Define M_VERSION_MAJOR (Dec (Quot (Macro ''__INTEL_LLVM_COMPILER'') (Num 100))),
            Define M_VERSION_MINOR (Dec (Rem (Quot (Macro ''__INTEL_LLVM_COMPILER'') (Num 10)) (Num 10))),
            Define M_VERSION_PATCH (Dec (Rem (Macro ''__INTEL_LLVM_COMPILER'') (Num 10)))]
           [Define M_VERSION_MAJOR (Dec (Quot (Macro ''__INTEL_LLVM_COMPILER'') (Num 10000))),
            Define M_VERSION_MINOR (Dec (Rem (Quot (Macro ''__INTEL_LLVM_COMPILER'') (Num 100)) (Num 100))),
            Define M_VERSION_PATCH (Dec (Rem (Macro ''__INTEL_LLVM_COMPILER'') (Num 100)))],
         Cond (Defined ''_MSC_VER'')
           [Define M_SIMULATE_MAJOR (Dec (Quot (Macro ''_MSC_VER'') (Num 100))),
            Define M_SIMULATE_MINOR (Dec (Rem (Macro ''_MSC_VER'') (Num 100)))]
           []] @
        chain
          [(Defined ''__GNUC__'', [Define M_SIMULATE_MAJOR (Dec (Macro ''__GNUC__''))]),
           (Defined ''__GNUG__'', [Define M_SIMULATE_MAJOR (Dec (Macro ''__GNUG__''))])]
          [] @
        [Cond (Defined ''__GNUC_MINOR__'') [Define M_SIMULATE_MINOR (Dec (Macro ''__GNUC_MINOR__''))] [],
         Cond (Defined ''__GNUC_PATCHLEVEL__'') [Define M_SIMULATE_PATCH (Dec (Macro ''__GNUC_PATCHLEVEL__''))] []]),
     (Defined ''__PATHCC__'',
        [Define M_COMPILER_ID (Lit ''PathScale''),
         Define M_VERSION_MAJOR (Dec (Macro ''__PATHCC__'')),
         Define M_VERSION_MINOR (Dec (Macro ''__PATHCC_MINOR__'')),
         Cond (Defined ''__PATHCC_PATCHLEVEL__'') [Define M_VERSION_PATCH (Dec (Macro ''__PATHCC_PATCHLEVEL__''))] []]),
     (And (Defined ''__BORLANDC__'') (Defined ''__CODEGEARC_VERSION__''),
        [Define M_COMPILER_ID (Lit ''Embarcadero''),
         Define M_VERSION_MAJOR (Hex (Mask (Shr (Macro ''__CODEGEARC_VERSION__'') 24) 255)),
         Define M_VERSION_MINOR (Hex (Mask (Shr (Macro ''__CODEGEARC_VERSION__'') 16) 255)),
         Define M_VERSION_PATCH (Dec (Mask (Macro ''__CODEGEARC_VERSION__'') 65535))]),
     (Defined ''__BORLANDC__'',
        [Define M_COMPILER_ID (Lit ''Borland''),
         Define M_VERSION_MAJOR (Hex (Shr (Macro ''__BORLANDC__'') 8)),
         Define M_VERSION_MINOR (Hex (Mask (Macro ''__BORLANDC__'') 255))]),
     (And (Defined ''__WATCOMC__'') (Less (Macro ''__WATCOMC__'') (Num 1200)),
        [Define M_COMPILER_ID (Lit ''Watcom''),
         Define M_VERSION_MAJOR (Dec (Quot (Macro ''__WATCOMC__'') (Num 100))),
         Define M_VERSION_MINOR (Dec (Rem (Quot (Macro ''__WATCOMC__'') (Num 10)) (Num 10))),
         Cond (Less (Num 0) (Rem (Macro ''__WATCOMC__'') (Num 10)))
           [Define M_VERSION_PATCH (Dec (Rem (Macro ''__WATCOMC__'') (Num 10)))] []]),
     (Defined ''__WATCOMC__'',
        [Define M_COMPILER_ID (Lit ''OpenWatcom''),
         Define M_VERSION_MAJOR (Dec (Quot (Minus (Macro ''__WATCOMC__'') (Num 1100)) (Num 100))),
         Define M_VERSION_MINOR (Dec (Rem (Quot (Macro ''__WATCOMC__'') (Num 10)) (Num 10))),
         Cond (Less (Num 0) (Rem (Macro ''__WATCOMC__'') (Num 10)))
           [Define M_VERSION_PATCH (Dec (Rem (Macro ''__WATCOMC__'') (Num 10)))] []]),
     (Defined ''__SUNPRO_C'',
        [Define M_COMPILER_ID (Lit ''SunPro''),
         Cond (At_Least (Macro ''__SUNPRO_C'') (Num 20736))
           [Define M_VERSION_MAJOR (Hex (Shr (Macro ''__SUNPRO_C'') 12)),
            Define M_VERSION_MINOR (Hex (Mask (Shr (Macro ''__SUNPRO_C'') 4) 255)),
            Define M_VERSION_PATCH (Hex (Mask (Macro ''__SUNPRO_C'') 15))]
           [Define M_VERSION_MAJOR (Hex (Shr (Macro ''__SUNPRO_C'') 8)),
            Define M_VERSION_MINOR (Hex (Mask (Shr (Macro ''__SUNPRO_C'') 4) 15)),
            Define M_VERSION_PATCH (Hex (Mask (Macro ''__SUNPRO_C'') 15))]]),
     (Defined ''__HP_cc'',
        [Define M_COMPILER_ID (Lit ''HP''),
         Define M_VERSION_MAJOR (Dec (Quot (Macro ''__HP_cc'') (Num 10000))),
         Define M_VERSION_MINOR (Dec (Rem (Quot (Macro ''__HP_cc'') (Num 100)) (Num 100))),
         Define M_VERSION_PATCH (Dec (Rem (Macro ''__HP_cc'') (Num 100)))])]"

definition c_compilers_2 :: "(cond \<times> directive list) list" where
  "c_compilers_2 =
    [(Defined ''__DECC'',
        [Define M_COMPILER_ID (Lit ''Compaq''),
         Define M_VERSION_MAJOR (Dec (Quot (Macro ''__DECC_VER'') (Num 10000000))),
         Define M_VERSION_MINOR (Dec (Rem (Quot (Macro ''__DECC_VER'') (Num 100000)) (Num 100))),
         Define M_VERSION_PATCH (Dec (Rem (Macro ''__DECC_VER'') (Num 10000)))]),
     (And (Defined ''__IBMC__'') (Defined ''__COMPILER_VER__''),
        [Define M_COMPILER_ID (Lit ''zOS''),
         Define M_VERSION_MAJOR (Dec (Quot (Macro ''__IBMC__'') (Num 100))),
         Define M_VERSION_MINOR (Dec (Rem (Quot (Macro ''__IBMC__'') (Num 10)) (Num 10))),
         Define M_VERSION_PATCH (Dec (Rem (Macro ''__IBMC__'') (Num 10)))]),
     (And (Defined ''__open_xl__'') (Defined ''__clang__''),
        [Define M_COMPILER_ID (Lit ''IBMClang''),
         Define M_VERSION_MAJOR (Dec (Macro ''__open_xl_version__'')),
         Define M_VERSION_MINOR (Dec (Macro ''__open_xl_release__'')),
         Define M_VERSION_PATCH (Dec (Macro ''__open_xl_modification__'')),
         Define M_VERSION_TWEAK (Dec (Macro ''__open_xl_ptf_fix_level__''))]),
     (And (Defined ''__ibmxl__'') (Defined ''__clang__''),
        [Define M_COMPILER_ID (Lit ''XLClang''),
         Define M_VERSION_MAJOR (Dec (Macro ''__ibmxl_version__'')),
         Define M_VERSION_MINOR (Dec (Macro ''__ibmxl_release__'')),
         Define M_VERSION_PATCH (Dec (Macro ''__ibmxl_modification__'')),
         Define M_VERSION_TWEAK (Dec (Macro ''__ibmxl_ptf_fix_level__''))]),
     (And (And (Defined ''__IBMC__'') (Neg (Defined ''__COMPILER_VER__''))) (At_Least (Macro ''__IBMC__'') (Num 800)),
        [Define M_COMPILER_ID (Lit ''XL''),
         Define M_VERSION_MAJOR (Dec (Quot (Macro ''__IBMC__'') (Num 100))),
         Define M_VERSION_MINOR (Dec (Rem (Quot (Macro ''__IBMC__'') (Num 10)) (Num 10))),
         Define M_VERSION_PATCH (Dec (Rem (Macro ''__IBMC__'') (Num 10)))]),
     (And (And (Defined ''__IBMC__'') (Neg (Defined ''__COMPILER_VER__''))) (Less (Macro ''__IBMC__'') (Num 800)),
        [Define M_COMPILER_ID (Lit ''VisualAge''),
         Define M_VERSION_MAJOR (Dec (Quot (Macro ''__IBMC__'') (Num 100))),
         Define M_VERSION_MINOR (Dec (Rem (Quot (Macro ''__IBMC__'') (Num 10)) (Num 10))),
         Define M_VERSION_PATCH (Dec (Rem (Macro ''__IBMC__'') (Num 10)))]),
     (Defined ''__NVCOMPILER'',
        [Define M_COMPILER_ID (Lit ''NVHPC''),
         Define M_VERSION_MAJOR (Dec (Macro ''__NVCOMPILER_MAJOR__'')),
         Define M_VERSION_MINOR (Dec (Macro ''__NVCOMPILER_MINOR__'')),
         Cond (Defined ''__NVCOMPILER_PATCHLEVEL__'') [Define M_VERSION_PATCH (Dec (Macro ''__NVCOMPILER_PATCHLEVEL__''))] []]),
     (Defined ''__PGI'',
        [Define M_COMPILER_ID (Lit ''PGI''),
         Define M_VERSION_MAJOR (Dec (Macro ''__PGIC__'')),
         Define M_VERSION_MINOR (Dec (Macro ''__PGIC_MINOR__'')),
         Cond (Defined ''__PGIC_PATCHLEVEL__'') [Define M_VERSION_PATCH (Dec (Macro ''__PGIC_PATCHLEVEL__''))] []]),
     (Defined ''_CRAYC'',
        [Define M_COMPILER_ID (Lit ''Cray''),
         Define M_VERSION_MAJOR (Dec (Macro ''_RELEASE_MAJOR'')),
         Define M_VERSION_MINOR (Dec (Macro ''_RELEASE_MINOR''))]),
     (Defined ''__TI_COMPILER_VERSION__'',
        [Define M_COMPILER_ID (Lit ''TI''),
         Define M_VERSION_MAJOR (Dec (Quot (Macro ''__TI_COMPILER_VERSION__'') (Num 1000000))),
         Define M_VERSION_MINOR (Dec (Rem (Quot (Macro ''__TI_COMPILER_VERSION__'') (Num 1000)) (Num 1000))),
         Define M_VERSION_PATCH (Dec (Rem (Macro ''__TI_COMPILER_VERSION__'') (Num 1000)))]),
     (Defined ''__CLANG_FUJITSU'',
        [Define M_COMPILER_ID (Lit ''FujitsuClang''),
         Define M_VERSION_MAJOR (Dec (Macro ''__FCC_major__'')),
         Define M_VERSION_MINOR (Dec (Macro ''__FCC_minor__'')),
         Define M_VERSION_PATCH (Dec (Macro ''__FCC_patchlevel__'')),
         Define M_VERSION_INTERNAL_STR (String_Macro ''__clang_version__'')]),
     (Defined ''__FUJITSU'',
        [Define M_COMPILER_ID (Lit ''Fujitsu'')] @
        chain
          [(Defined ''__FCC_version__'', [Define M_COMPILER_VERSION (String_Macro ''__FCC_version__'')]),
           (Defined ''__FCC_major__'',
              [Define M_VERSION_MAJOR (Dec (Macro ''__FCC_major__'')),
               Define M_VERSION_MINOR (Dec (Macro ''__FCC_minor__'')),
               Define M_VERSION_PATCH (Dec (Macro ''__FCC_patchlevel__''))])]
          [] @
        chain
          [(Defined ''__fcc_version'', [Define M_VERSION_INTERNAL (Dec (Macro ''__fcc_version''))]),
           (Defined ''__FCC_VERSION'', [Define M_VERSION_INTERNAL (Dec (Macro ''__FCC_VERSION''))])]
          []),
     (Defined ''__ghs__'',
        [Define M_COMPILER_ID (Lit ''GHS''),
         Cond (Defined ''__GHS_VERSION_NUMBER'')
           [Define M_VERSION_MAJOR (Dec (Quot (Macro ''__GHS_VERSION_NUMBER'') (Num 100))),
            Define M_VERSION_MINOR (Dec (Rem (Quot (Macro ''__GHS_VERSION_NUMBER'') (Num 10)) (Num 10))),
            Define M_VERSION_PATCH (Dec (Rem (Macro ''__GHS_VERSION_NUMBER'') (Num 10)))]
           []]),
     (Defined ''__TINYC__'', [Define M_COMPILER_ID (Lit ''TinyCC'')]),
     (Defined ''__BCC__'', [Define M_COMPILER_ID (Lit ''Bruce'')]),
     (Defined ''__SCO_VERSION__'', [Define M_COMPILER_ID (Lit ''SCO'')])]"

definition c_compilers_3 :: "(cond \<times> directive list) list" where
  "c_compilers_3 =
    [(And (Defined ''__ARMCC_VERSION'') (Neg (Defined ''__clang__'')),
        [Define M_COMPILER_ID (Lit ''ARMCC''),
         Cond (At_Least (Macro ''__ARMCC_VERSION'') (Num 1000000))
           [Define M_VERSION_MAJOR (Dec (Quot (Macro ''__ARMCC_VERSION'') (Num 1000000))),
            Define M_VERSION_MINOR (Dec (Rem (Quot (Macro ''__ARMCC_VERSION'') (Num 10000)) (Num 100))),
            Define M_VERSION_PATCH (Dec (Rem (Macro ''__ARMCC_VERSION'') (Num 10000)))]
           [Define M_VERSION_MAJOR (Dec (Quot (Macro ''__ARMCC_VERSION'') (Num 100000))),
            Define M_VERSION_MINOR (Dec (Rem (Quot (Macro ''__ARMCC_VERSION'') (Num 10000)) (Num 10))),
            Define M_VERSION_PATCH (Dec (Rem (Macro ''__ARMCC_VERSION'') (Num 10000)))]]),
     (And (Defined ''__clang__'') (Defined ''__apple_build_version__''),
        [Define M_COMPILER_ID (Lit ''AppleClang''),
         Cond (Defined ''_MSC_VER'') [Define M_SIMULATE_ID (Lit ''MSVC'')] [],
         Define M_VERSION_MAJOR (Dec (Macro ''__clang_major__'')),
         Define M_VERSION_MINOR (Dec (Macro ''__clang_minor__'')),
         Define M_VERSION_PATCH (Dec (Macro ''__clang_patchlevel__'')),
         Cond (Defined ''_MSC_VER'')
           [Define M_SIMULATE_MAJOR (Dec (Quot (Macro ''_MSC_VER'') (Num 100))),
            Define M_SIMULATE_MINOR (Dec (Rem (Macro ''_MSC_VER'') (Num 100)))]
           [],
         Define M_VERSION_TWEAK (Dec (Macro ''__apple_build_version__''))]),
     (And (Defined ''__clang__'') (Defined ''__ARMCOMPILER_VERSION''),
        [Define M_COMPILER_ID (Lit ''ARMClang''),
         Define M_VERSION_MAJOR (Dec (Quot (Macro ''__ARMCOMPILER_VERSION'') (Num 1000000))),
         Define M_VERSION_MINOR (Dec (Rem (Quot (Macro ''__ARMCOMPILER_VERSION'') (Num 10000)) (Num 100))),
         Define M_VERSION_PATCH (Dec (Rem (Macro ''__ARMCOMPILER_VERSION'') (Num 10000))),
         Define M_VERSION_INTERNAL (Dec (Macro ''__ARMCOMPILER_VERSION''))]),
     (Defined ''__clang__'',
        [Define M_COMPILER_ID (Lit ''Clang''),
         Cond (Defined ''_MSC_VER'') [Define M_SIMULATE_ID (Lit ''MSVC'')] [],
         Define M_VERSION_MAJOR (Dec (Macro ''__clang_major__'')),
         Define M_VERSION_MINOR (Dec (Macro ''__clang_minor__'')),
         Define M_VERSION_PATCH (Dec (Macro ''__clang_patchlevel__'')),
         Cond (Defined ''_MSC_VER'')
           [Define M_SIMULATE_MAJOR (Dec (Quot (Macro ''_MSC_VER'') (Num 100))),
            Define M_SIMULATE_MINOR (Dec (Rem (Macro ''_MSC_VER'') (Num 100)))]
           []]),
     (And (Defined ''__LCC__'') (Or (Or (Defined ''__GNUC__'') (Defined ''__GNUG__'')) (Defined ''__MCST__'')),
        [Define M_COMPILER_ID (Lit ''LCC''),
         Define M_VERSION_MAJOR (Dec (Num 1)),
         Cond (Defined ''__LCC__'') [Define M_VERSION_MINOR (Dec (Minus (Macro ''__LCC__'') (Num 100)))] [],
         Cond (Defined ''__LCC_MINOR__'') [Define M_VERSION_PATCH (Dec (Macro ''__LCC_MINOR__''))] [],
         Cond (And (Defined ''__GNUC__'') (Defined ''__GNUC_MINOR__''))
           [Define M_SIMULATE_ID (Lit ''GNU''),
            Define M_SIMULATE_MAJOR (Dec (Macro ''__GNUC__'')),
            Define M_SIMULATE_MINOR (Dec (Macro ''__GNUC_MINOR__'')),
            Cond (Defined ''__GNUC_PATCHLEVEL__'') [Define M_SIMULATE_PATCH (Dec (Macro ''__GNUC_PATCHLEVEL__''))] []]
           []]),
     (Defined ''__GNUC__'',
        [Define M_COMPILER_ID (Lit ''GNU''),
         Define M_VERSION_MAJOR (Dec (Macro ''__GNUC__'')),
         Cond (Defined ''__GNUC_MINOR__'') [Define M_VERSION_MINOR (Dec (Macro ''__GNUC_MINOR__''))] [],
         Cond (Defined ''__GNUC_PATCHLEVEL__'') [Define M_VERSION_PATCH (Dec (Macro ''__GNUC_PATCHLEVEL__''))] []]),
     (Defined ''_MSC_VER'',
        [Define M_COMPILER_ID (Lit ''MSVC''),
         Define M_VERSION_MAJOR (Dec (Quot (Macro ''_MSC_VER'') (Num 100))),
         Define M_VERSION_MINOR (Dec (Rem (Macro ''_MSC_VER'') (Num 100))),
         Cond (Defined ''_MSC_FULL_VER'')
           [Cond (At_Least (Macro ''_MSC_VER'') (Num 1400))
              [Define M_VERSION_PATCH (Dec (Rem (Macro ''_MSC_FULL_VER'') (Num 100000)))]
              [Define M_VERSION_PATCH (Dec (Rem (Macro ''_MSC_FULL_VER'') (Num 10000)))]]
           [],
         Cond (Defined ''_MSC_BUILD'') [Define M_VERSION_TWEAK (Dec (Macro ''_MSC_BUILD''))] []])]"

definition c_compilers_4 :: "(cond \<times> directive list) list" where
  "c_compilers_4 =
    [(Defined ''_ADI_COMPILER'',
        [Define M_COMPILER_ID (Lit ''ADSP''),
         Cond (Defined ''__VERSIONNUM__'')
           [Define M_VERSION_MAJOR (Dec (Mask (Shr (Macro ''__VERSIONNUM__'') 24) 255)),
            Define M_VERSION_MINOR (Dec (Mask (Shr (Macro ''__VERSIONNUM__'') 16) 255)),
            Define M_VERSION_PATCH (Dec (Mask (Shr (Macro ''__VERSIONNUM__'') 8) 255)),
            Define M_VERSION_TWEAK (Dec (Mask (Macro ''__VERSIONNUM__'') 255))]
           []]),
     (Or (Defined ''__IAR_SYSTEMS_ICC__'') (Defined ''__IAR_SYSTEMS_ICC''),
        [Define M_COMPILER_ID (Lit ''IAR'')] @
        chain
          [(And (Defined ''__VER__'') (Defined ''__ICCARM__''),
              [Define M_VERSION_MAJOR (Dec (Quot (Macro ''__VER__'') (Num 1000000))),
               Define M_VERSION_MINOR (Dec (Rem (Quot (Macro ''__VER__'') (Num 1000)) (Num 1000))),
               Define M_VERSION_PATCH (Dec (Rem (Macro ''__VER__'') (Num 1000))),
               Define M_VERSION_INTERNAL (Dec (Macro ''__IAR_SYSTEMS_ICC__''))]),
           (And (Defined ''__VER__'') (Or (Or (Or (Or (Or (Or (Or (Or (Defined ''__ICCAVR__'') (Defined ''__ICCRX__''))
               (Defined ''__ICCRH850__'')) (Defined ''__ICCRL78__'')) (Defined ''__ICC430__'')) (Defined ''__ICCRISCV__''))
               (Defined ''__ICCV850__'')) (Defined ''__ICC8051__'')) (Defined ''__ICCSTM8__'')),
              [Define M_VERSION_MAJOR (Dec (Quot (Macro ''__VER__'') (Num 100))),
               Define M_VERSION_MINOR (Dec (Minus (Macro ''__VER__'') (Times (Quot (Macro ''__VER__'') (Num 100)) (Num 100)))),
               Define M_VERSION_PATCH (Dec (Macro ''__SUBVERSION__'')),
               Define M_VERSION_INTERNAL (Dec (Macro ''__IAR_SYSTEMS_ICC__''))])]
          []),
     (Or (Defined ''__SDCC_VERSION_MAJOR'') (Defined ''SDCC''),
        [Define M_COMPILER_ID (Lit ''SDCC''),
         Cond (Defined ''__SDCC_VERSION_MAJOR'')
           [Define M_VERSION_MAJOR (Dec (Macro ''__SDCC_VERSION_MAJOR'')),
            Define M_VERSION_MINOR (Dec (Macro ''__SDCC_VERSION_MINOR'')),
            Define M_VERSION_PATCH (Dec (Macro ''__SDCC_VERSION_PATCH''))]
           [Define M_VERSION_MAJOR (Dec (Quot (Macro ''SDCC'') (Num 100))),
            Define M_VERSION_MINOR (Dec (Rem (Quot (Macro ''SDCC'') (Num 10)) (Num 10))),
            Define M_VERSION_PATCH (Dec (Rem (Macro ''SDCC'') (Num 10)))]]),
     (Or (Defined ''__hpux'') (Defined ''__hpua''), [Define M_COMPILER_ID (Lit ''HP'')])]"

definition c_compiler :: "directive list" where
  "c_compiler = chain (c_compilers_1 @ c_compilers_2 @ c_compilers_3 @ c_compilers_4) [Define M_COMPILER_ID (Lit '''')]"

section \<open>Platform, architecture and language\<close>

definition c_platform :: "directive list" where
  "c_platform = chain
      [(Or (Or (Defined ''__linux'') (Defined ''__linux__'')) (Defined ''linux''), [Define M_PLATFORM_ID (Lit ''Linux'')]),
       (Defined ''__MSYS__'', [Define M_PLATFORM_ID (Lit ''MSYS'')]),
       (Defined ''__CYGWIN__'', [Define M_PLATFORM_ID (Lit ''Cygwin'')]),
       (Defined ''__MINGW32__'', [Define M_PLATFORM_ID (Lit ''MinGW'')]),
       (Defined ''__APPLE__'', [Define M_PLATFORM_ID (Lit ''Darwin'')]),
       (Or (Or (Defined ''_WIN32'') (Defined ''__WIN32__'')) (Defined ''WIN32''), [Define M_PLATFORM_ID (Lit ''Windows'')]),
       (Or (Defined ''__FreeBSD__'') (Defined ''__FreeBSD''), [Define M_PLATFORM_ID (Lit ''FreeBSD'')]),
       (Or (Defined ''__NetBSD__'') (Defined ''__NetBSD''), [Define M_PLATFORM_ID (Lit ''NetBSD'')]),
       (Or (Defined ''__OpenBSD__'') (Defined ''__OPENBSD''), [Define M_PLATFORM_ID (Lit ''OpenBSD'')]),
       (Or (Defined ''__sun'') (Defined ''sun''), [Define M_PLATFORM_ID (Lit ''SunOS'')]),
       (Or (Or (Or (Or (Defined ''_AIX'') (Defined ''__AIX'')) (Defined ''__AIX__'')) (Defined ''__aix'')) (Defined ''__aix__''),
          [Define M_PLATFORM_ID (Lit ''AIX'')]),
       (Or (Defined ''__hpux'') (Defined ''__hpux__''), [Define M_PLATFORM_ID (Lit ''HP-UX'')]),
       (Defined ''__HAIKU__'', [Define M_PLATFORM_ID (Lit ''Haiku'')]),
       (Or (Or (Defined ''__BeOS'') (Defined ''__BEOS__'')) (Defined ''_BEOS''), [Define M_PLATFORM_ID (Lit ''BeOS'')]),
       (Or (Defined ''__QNX__'') (Defined ''__QNXNTO__''), [Define M_PLATFORM_ID (Lit ''QNX'')]),
       (Or (Or (Defined ''__tru64'') (Defined ''_tru64'')) (Defined ''__TRU64__''), [Define M_PLATFORM_ID (Lit ''Tru64'')]),
       (Or (Defined ''__riscos'') (Defined ''__riscos__''), [Define M_PLATFORM_ID (Lit ''RISCos'')]),
       (Or (Or (Defined ''__sinix'') (Defined ''__sinix__'')) (Defined ''__SINIX__''), [Define M_PLATFORM_ID (Lit ''SINIX'')]),
       (Defined ''__UNIX_SV__'', [Define M_PLATFORM_ID (Lit ''UNIX_SV'')]),
       (Defined ''__bsdos__'', [Define M_PLATFORM_ID (Lit ''BSDOS'')]),
       (Or (Defined ''_MPRAS'') (Defined ''MPRAS''), [Define M_PLATFORM_ID (Lit ''MP-RAS'')]),
       (Or (Defined ''__osf'') (Defined ''__osf__''), [Define M_PLATFORM_ID (Lit ''OSF1'')]),
       (Or (Or (Defined ''_SCO_SV'') (Defined ''SCO_SV'')) (Defined ''sco_sv''), [Define M_PLATFORM_ID (Lit ''SCO_SV'')]),
       (Or (Or (Defined ''__ultrix'') (Defined ''__ultrix__'')) (Defined ''_ULTRIX''), [Define M_PLATFORM_ID (Lit ''ULTRIX'')]),
       (Or (Or (Defined ''__XENIX__'') (Defined ''_XENIX'')) (Defined ''XENIX''), [Define M_PLATFORM_ID (Lit ''Xenix'')]),
       (Defined ''__WATCOMC__'',
          chain
            [(Defined ''__LINUX__'', [Define M_PLATFORM_ID (Lit ''Linux'')]),
             (Defined ''__DOS__'', [Define M_PLATFORM_ID (Lit ''DOS'')]),
             (Defined ''__OS2__'', [Define M_PLATFORM_ID (Lit ''OS2'')]),
             (Defined ''__WINDOWS__'', [Define M_PLATFORM_ID (Lit ''Windows3x'')]),
             (Defined ''__VXWORKS__'', [Define M_PLATFORM_ID (Lit ''VxWorks'')])]
            [Define M_PLATFORM_ID Nothing]),
       (Defined ''__INTEGRITY'',
          [Cond (Defined ''INT_178B'') [Define M_PLATFORM_ID (Lit ''Integrity178'')] [Define M_PLATFORM_ID (Lit ''Integrity'')]]),
       (Defined ''_ADI_COMPILER'', [Define M_PLATFORM_ID (Lit ''ADSP'')])]
      [Define M_PLATFORM_ID Nothing]"

definition c_architecture :: "directive list" where
  "c_architecture = chain
      [(And (Defined ''_WIN32'') (Defined ''_MSC_VER''),
          chain
            [(Defined ''_M_IA64'', [Define M_ARCHITECTURE_ID (Lit ''IA64'')]),
             (Defined ''_M_ARM64EC'', [Define M_ARCHITECTURE_ID (Lit ''ARM64EC'')]),
             (Or (Defined ''_M_X64'') (Defined ''_M_AMD64''), [Define M_ARCHITECTURE_ID (Lit ''x64'')]),
             (Defined ''_M_IX86'', [Define M_ARCHITECTURE_ID (Lit ''X86'')]),
             (Defined ''_M_ARM64'', [Define M_ARCHITECTURE_ID (Lit ''ARM64'')]),
             (Defined ''_M_ARM'',
                chain
                  [(Equals (Macro ''_M_ARM'') (Num 4), [Define M_ARCHITECTURE_ID (Lit ''ARMV4I'')]),
                   (Equals (Macro ''_M_ARM'') (Num 5), [Define M_ARCHITECTURE_ID (Lit ''ARMV5I'')])]
                  [Define M_ARCHITECTURE_ID (Stringify ''ARMV'' ''_M_ARM'')]),
             (Defined ''_M_MIPS'', [Define M_ARCHITECTURE_ID (Lit ''MIPS'')]),
             (Defined ''_M_SH'', [Define M_ARCHITECTURE_ID (Lit ''SHx'')])]
            [Define M_ARCHITECTURE_ID (Lit '''')]),
       (Defined ''__WATCOMC__'',
          chain
            [(Defined ''_M_I86'', [Define M_ARCHITECTURE_ID (Lit ''I86'')]),
             (Defined ''_M_IX86'', [Define M_ARCHITECTURE_ID (Lit ''X86'')])]
            [Define M_ARCHITECTURE_ID (Lit '''')]),
       (Or (Defined ''__IAR_SYSTEMS_ICC__'') (Defined ''__IAR_SYSTEMS_ICC''),
          chain
            [(Defined ''__ICCARM__'', [Define M_ARCHITECTURE_ID (Lit ''ARM'')]),
             (Defined ''__ICCRX__'', [Define M_ARCHITECTURE_ID (Lit ''RX'')]),
             (Defined ''__ICCRH850__'', [Define M_ARCHITECTURE_ID (Lit ''RH850'')]),
             (Defined ''__ICCRL78__'', [Define M_ARCHITECTURE_ID (Lit ''RL78'')]),
             (Defined ''__ICCRISCV__'', [Define M_ARCHITECTURE_ID (Lit ''RISCV'')]),
             (Defined ''__ICCAVR__'', [Define M_ARCHITECTURE_ID (Lit ''AVR'')]),
             (Defined ''__ICC430__'', [Define M_ARCHITECTURE_ID (Lit ''MSP430'')]),
             (Defined ''__ICCV850__'', [Define M_ARCHITECTURE_ID (Lit ''V850'')]),
             (Defined ''__ICC8051__'', [Define M_ARCHITECTURE_ID (Lit ''8051'')]),
             (Defined ''__ICCSTM8__'', [Define M_ARCHITECTURE_ID (Lit ''STM8'')])]
            [Define M_ARCHITECTURE_ID (Lit '''')]),
       (Defined ''__ghs__'',
          chain
            [(Defined ''__PPC64__'', [Define M_ARCHITECTURE_ID (Lit ''PPC64'')]),
             (Defined ''__ppc__'', [Define M_ARCHITECTURE_ID (Lit ''PPC'')]),
             (Defined ''__ARM__'', [Define M_ARCHITECTURE_ID (Lit ''ARM'')]),
             (Defined ''__x86_64__'', [Define M_ARCHITECTURE_ID (Lit ''x64'')]),
             (Defined ''__i386__'', [Define M_ARCHITECTURE_ID (Lit ''X86'')])]
            [Define M_ARCHITECTURE_ID (Lit '''')]),
       (Defined ''__TI_COMPILER_VERSION__'',
          chain
            [(Defined ''__TI_ARM__'', [Define M_ARCHITECTURE_ID (Lit ''ARM'')]),
             (Defined ''__MSP430__'', [Define M_ARCHITECTURE_ID (Lit ''MSP430'')]),
             (Defined ''__TMS320C28XX__'', [Define M_ARCHITECTURE_ID (Lit ''TMS320C28x'')]),
             (Or (Defined ''__TMS320C6X__'') (Defined ''_TMS320C6X''), [Define M_ARCHITECTURE_ID (Lit ''TMS320C6x'')])]
            [Define M_ARCHITECTURE_ID (Lit '''')]),
       (Defined ''__ADSPSHARC__'', [Define M_ARCHITECTURE_ID (Lit ''SHARC'')]),
       (Defined ''__ADSPBLACKFIN__'', [Define M_ARCHITECTURE_ID (Lit ''Blackfin'')])]
      [Define M_ARCHITECTURE_ID Nothing]"

definition c_version :: "directive list" where
  "c_version = chain
      [(And (Neg (Defined ''__STDC__'')) (Neg (Defined ''__clang__'')),
          [Cond (Or (Or (Defined ''_MSC_VER'') (Defined ''__ibmxl__'')) (Defined ''__IBMC__''))
             [Define M_C_VERSION (Lit ''90'')] [Define M_C_VERSION Nothing]]),
       (Less (Num 201710) (Macro ''__STDC_VERSION__''), [Define M_C_VERSION (Lit ''23'')]),
       (At_Least (Macro ''__STDC_VERSION__'') (Num 201710), [Define M_C_VERSION (Lit ''17'')]),
       (At_Least (Macro ''__STDC_VERSION__'') (Num 201000), [Define M_C_VERSION (Lit ''11'')]),
       (At_Least (Macro ''__STDC_VERSION__'') (Num 199901), [Define M_C_VERSION (Lit ''99'')])]
      [Define M_C_VERSION (Lit ''90'')]"

section \<open>The strings of the program\<close>

definition c_program :: "macros \<Rightarrow> defs" where
  "c_program env = run_all env (c_language @ c_compiler @ c_platform @ c_architecture @ c_version) Map.empty"

definition c_item :: "macros \<Rightarrow> own \<Rightarrow> item" where
  "c_item env = own_item env (c_program env)"

definition c_info_compiler :: "macros \<Rightarrow> item" where
  "c_info_compiler env = info_string ''compiler'' (c_item env M_COMPILER_ID)"

definition c_info_simulate :: "macros \<Rightarrow> item" where
  "c_info_simulate env = info_string ''simulate'' (c_item env M_SIMULATE_ID)"

definition c_qnxnto :: "macros \<Rightarrow> item" where
  "c_qnxnto env = (if defined env ''__QNXNTO__'' then info_string ''qnxnto'' (Text []) else Undefined)"

definition c_info_cray :: "macros \<Rightarrow> item" where
  "c_info_cray env = (if defined env ''__CRAYXT_COMPUTE_LINUX_TARGET'' then info_string ''compiler_wrapper'' (Text ''CrayPrgEnv'') else Undefined)"

definition c_info_version :: "macros \<Rightarrow> item" where
  "c_info_version env = (case c_item env M_COMPILER_VERSION of
     Undefined \<Rightarrow> version_array ''INFO:compiler_version['' (c_item env M_VERSION_MAJOR)
       [c_item env M_VERSION_MINOR, c_item env M_VERSION_PATCH, c_item env M_VERSION_TWEAK]
   | r \<Rightarrow> info_string ''compiler_version'' r)"

definition c_info_version_internal :: "macros \<Rightarrow> item" where
  "c_info_version_internal env = (case c_item env M_VERSION_INTERNAL of
     Undefined \<Rightarrow> info_string ''compiler_version_internal'' (c_item env M_VERSION_INTERNAL_STR)
   | r \<Rightarrow> version_array ''INFO:compiler_version_internal['' r [])"

text \<open>Nothing defines a tweak of the simulated version.\<close>

definition c_info_simulate_version :: "macros \<Rightarrow> item" where
  "c_info_simulate_version env = version_array ''INFO:simulate_version['' (c_item env M_SIMULATE_MAJOR)
     [c_item env M_SIMULATE_MINOR, c_item env M_SIMULATE_PATCH]"

definition c_info_platform :: "macros \<Rightarrow> item" where
  "c_info_platform env = info_string ''platform'' (c_item env M_PLATFORM_ID)"

definition c_info_arch :: "macros \<Rightarrow> item" where
  "c_info_arch env = info_string ''arch'' (c_item env M_ARCHITECTURE_ID)"

definition c_info_language_standard_default :: "macros \<Rightarrow> item" where
  "c_info_language_standard_default env = info_string ''standard_default'' (c_item env M_C_VERSION)"

definition c_info_language_extensions_default :: "macros \<Rightarrow> item" where
  "c_info_language_extensions_default env = info_string ''extensions_default''
     (if holds env (And (Or (Or (Or (Defined ''__clang__'') (Defined ''__GNUC__'')) (Defined ''__xlC__'')) (Defined ''__TI_COMPILER_VERSION__''))
                        (Neg (Defined ''__STRICT_ANSI__'')))
      then Text ''ON'' else Text ''OFF'')"

section \<open>The main function\<close>

definition c_required :: "macros \<Rightarrow> item list" where
  "c_required env =
     [c_info_compiler env, c_info_platform env, c_info_arch env,
      (if c_item env M_VERSION_MAJOR = Undefined then Undefined else c_info_version env),
      (if c_item env M_VERSION_INTERNAL = Undefined then Undefined else c_info_version_internal env),
      c_info_simulate env, c_info_simulate_version env, c_info_cray env,
      c_info_language_standard_default env, c_info_language_extensions_default env]"

text \<open>
  \<open>None\<close>: the program does not compile, because a C++ compiler was selected or a string needs an identifier
  that nothing declares. The value is \<open>None\<close> for \<open>void main() {}\<close>.
\<close>

definition c_main :: "macros \<Rightarrow> nat \<Rightarrow> (unit, int option) outcome option" where
  "c_main env argc =
     (if defined env ''__cplusplus'' \<or> Ill_Formed \<in> set (c_required env) \<union> {c_info_version env, c_info_version_internal env} then None
      else if c_item env M_ID_VOID_MAIN \<noteq> Undefined then Some (Val None)
      else Some (case require_sum argc (c_required env) of Val r \<Rightarrow> Val (Some r) | Exc e \<Rightarrow> Exc e | UB \<Rightarrow> UB | Hang \<Rightarrow> Hang))"

end
