(* ===== verification/Build_Properties.thy ===== *)
theory Build_Properties
  imports C_Compiler_Id
begin

text \<open>
  The identification programs for C and for C++ compared: on a compiler that does not announce itself
  differently to the two languages, both report the same compiler, versions, platform and architecture.
\<close>

section \<open>The identity macros of the directives\<close>

definition ident_of :: "macros \<Rightarrow> defs \<Rightarrow> ident" where
  "ident_of env d = \<lparr>
     COMPILER_ID = (case own_item env d M_COMPILER_ID of Text s \<Rightarrow> s | _ \<Rightarrow> []),
     SIMULATE_ID = (case own_item env d M_SIMULATE_ID of Text s \<Rightarrow> Some s | _ \<Rightarrow> None),
     COMPILER_VERSION = own_item env d M_COMPILER_VERSION,
     MAJOR = own_item env d M_VERSION_MAJOR, MINOR = own_item env d M_VERSION_MINOR,
     PATCH = own_item env d M_VERSION_PATCH, TWEAK = own_item env d M_VERSION_TWEAK,
     INTERNAL = own_item env d M_VERSION_INTERNAL, INTERNAL_STR = own_item env d M_VERSION_INTERNAL_STR,
     SIM_MAJOR = own_item env d M_SIMULATE_MAJOR, SIM_MINOR = own_item env d M_SIMULATE_MINOR,
     SIM_PATCH = own_item env d M_SIMULATE_PATCH\<rparr>"

definition branch :: "macros \<Rightarrow> cond \<times> directive list \<Rightarrow> bool \<times> ident" where
  "branch env = (\<lambda>(c, ds). (holds env c, ident_of env (run_all env ds Map.empty)))"

lemma simulate_msvc_record: "simulate_msvc env i = \<lparr>COMPILER_ID = COMPILER_ID i,
   SIMULATE_ID = (if defined env ''_MSC_VER'' then Some ''MSVC'' else SIMULATE_ID i),
   COMPILER_VERSION = COMPILER_VERSION i, MAJOR = MAJOR i, MINOR = MINOR i, PATCH = PATCH i, TWEAK = TWEAK i,
   INTERNAL = INTERNAL i, INTERNAL_STR = INTERNAL_STR i,
   SIM_MAJOR = (if defined env ''_MSC_VER'' then dec env ''_MSC_VER'' (\<lambda>n. n sdiv 100) else SIM_MAJOR i),
   SIM_MINOR = (if defined env ''_MSC_VER'' then dec env ''_MSC_VER'' (\<lambda>n. n smod 100) else SIM_MINOR i),
   SIM_PATCH = SIM_PATCH i\<rparr>"
  by (simp add: simulate_msvc_def)

lemma uses_list:
  "list_all P [] = True" "list_all P [x] = P x" "list_all P [x, x] = P x"
  by simp_all

lemma if_fields:
  "(if \<not> b then p else q) = (if b then q else p)"
  "(case (if b then x else y) of Text s \<Rightarrow> f s | Undefined \<Rightarrow> u | Ill_Formed \<Rightarrow> v) =
     (if b then (case x of Text s \<Rightarrow> f s | Undefined \<Rightarrow> u | Ill_Formed \<Rightarrow> v) else (case y of Text s \<Rightarrow> f s | Undefined \<Rightarrow> u | Ill_Formed \<Rightarrow> v))"
  "(if b then \<lparr>COMPILER_ID = a1, SIMULATE_ID = a2, COMPILER_VERSION = a3, MAJOR = a4, MINOR = a5, PATCH = a6, TWEAK = a7, INTERNAL = a8,
      INTERNAL_STR = a9, SIM_MAJOR = a10, SIM_MINOR = a11, SIM_PATCH = a12\<rparr>
    else \<lparr>COMPILER_ID = b1, SIMULATE_ID = b2, COMPILER_VERSION = b3, MAJOR = b4, MINOR = b5, PATCH = b6, TWEAK = b7, INTERNAL = b8,
      INTERNAL_STR = b9, SIM_MAJOR = b10, SIM_MINOR = b11, SIM_PATCH = b12\<rparr>) =
    \<lparr>COMPILER_ID = (if b then a1 else b1), SIMULATE_ID = (if b then a2 else b2), COMPILER_VERSION = (if b then a3 else b3),
     MAJOR = (if b then a4 else b4), MINOR = (if b then a5 else b5), PATCH = (if b then a6 else b6), TWEAK = (if b then a7 else b7),
     INTERNAL = (if b then a8 else b8), INTERNAL_STR = (if b then a9 else b9), SIM_MAJOR = (if b then a10 else b10),
     SIM_MINOR = (if b then a11 else b11), SIM_PATCH = (if b then a12 else b12)\<rparr>"
  by simp_all

lemmas evaluate = branch_def prod.case ident_of_def own_item_run own_item_empty follow_all.simps follow.simps follow_all_append follow_chain
  append.simps list.map item_of.simps uses.simps int_of.simps holds.simps own.distinct simp_thms if_True if_False uses_list
  item.case dec_alt hex_alt dec_if_def named_def ident.update_convs ident.select_convs if_cancel if_fields simulate_msvc_record simulate_gnu_def
  Let_def if_chain.simps disj_assoc

definition language_macros :: "string list" where
  "language_macros = [''__COMO__'', ''__SUNPRO_C'', ''__SUNPRO_CC'', ''__HP_cc'', ''__HP_aCC'', ''__DECC'', ''__DECCXX'', ''__IBMC__'',
     ''__IBMCPP__'', ''__TINYC__'', ''__BCC__'', ''__SDCC_VERSION_MAJOR'', ''SDCC'']"

definition portable :: "macros \<Rightarrow> bool" where
  "portable env \<longleftrightarrow> (\<forall>x\<in>set language_macros. \<not> defined env x) \<and> (defined env ''__GNUG__'' \<longrightarrow> defined env ''__GNUC__'')"

lemma portableD:
  assumes "portable env"
  shows "\<not> defined env ''__COMO__''" "\<not> defined env ''__SUNPRO_C''" "\<not> defined env ''__SUNPRO_CC''" "\<not> defined env ''__HP_cc''"
    "\<not> defined env ''__HP_aCC''" "\<not> defined env ''__DECC''" "\<not> defined env ''__DECCXX''" "\<not> defined env ''__IBMC__''"
    "\<not> defined env ''__IBMCPP__''" "\<not> defined env ''__TINYC__''" "\<not> defined env ''__BCC__''" "\<not> defined env ''__SDCC_VERSION_MAJOR''"
    "\<not> defined env ''SDCC''" and "\<not> defined env ''__GNUC__'' \<Longrightarrow> \<not> defined env ''__GNUG__''"
  using assms by (auto simp: portable_def language_macros_def)

lemma chain_1:
  assumes "portable env"
  shows "if_chain (map (branch env) c_compilers_1) z = if_chain (compilers_1 env) z"
  unfolding c_compilers_1_def compilers_1_def intel_def intel_llvm_def
  by (simp only: evaluate portableD(1-13) [OF assms])

lemma chain_2:
  assumes "portable env"
  shows "if_chain (map (branch env) c_compilers_2) z = if_chain (compilers_2 env) z"
  unfolding c_compilers_2_def compilers_2_def
  by (simp only: evaluate portableD(1-13) [OF assms])

lemma chain_3:
  assumes "portable env"
  shows "if_chain (map (branch env) c_compilers_3) z = if_chain (compilers_3 env) z"
proof (cases "defined env ''__GNUC__''")
  case True
  then show ?thesis
    unfolding c_compilers_3_def compilers_3_def by (simp only: evaluate portableD(1-13) [OF assms])
next
  case False
  show ?thesis
    unfolding c_compilers_3_def compilers_3_def
    by (simp only: evaluate portableD(1-13) [OF assms] False portableD(14) [OF assms False])
qed

lemma chain_4:
  assumes "portable env"
  shows "if_chain (map (branch env) c_compilers_4) z = if_chain (compilers_4 env) z"
  unfolding c_compilers_4_def compilers_4_def
  by (simp only: evaluate portableD(1-13) [OF assms])

lemma c_compiler_identity:
  assumes "portable env"
  shows "ident_of env (run_all env c_compiler Map.empty) = identify env"
proof -
  have "ident_of env (run_all env c_compiler Map.empty) =
      if_chain (map (branch env) (c_compilers_1 @ c_compilers_2 @ c_compilers_3 @ c_compilers_4)) (named '''')"
    unfolding c_compiler_def run_chain if_chain_map [of "ident_of env"] map_map
    by (rule arg_cong2 [where f = if_chain]) (simp_all add: branch_def case_prod_unfold ident_of_def named_def own_item_def)
  also have "\<dots> = identify env"
    unfolding map_append if_chain_append identify_def by (simp only: chain_1 chain_2 chain_3 chain_4 assms)
  finally show ?thesis .
qed

section \<open>Platform and architecture\<close>

lemma text_if: "Text (if b then x else y) = (if b then Text x else Text y)"
  by simp

lemma c_platform_text: "follow_all env c_platform M_PLATFORM_ID z = Text (PLATFORM_ID env)"
  unfolding c_platform_def PLATFORM_ID_def by (simp only: evaluate text_if)

lemma c_architecture_text: "follow_all env c_architecture M_ARCHITECTURE_ID z = Text (ARCHITECTURE_ID env)"
  unfolding c_architecture_def ARCHITECTURE_ID_def by (simp only: evaluate text_if)

section \<open>The two programs\<close>

text \<open>Which part of the program defines a macro.\<close>

definition compiler_macros :: "own list" where
  "compiler_macros = [M_COMPILER_ID, M_SIMULATE_ID, M_COMPILER_VERSION, M_VERSION_MAJOR, M_VERSION_MINOR, M_VERSION_PATCH,
     M_VERSION_TWEAK, M_VERSION_INTERNAL, M_VERSION_INTERNAL_STR, M_SIMULATE_MAJOR, M_SIMULATE_MINOR, M_SIMULATE_PATCH]"

lemma c_sets:
  "list_all (\<lambda>x. x \<in> {M_ID_VOID_MAIN, M_const, M_volatile}) (sets_all c_language)"
  "list_all (\<lambda>x. List.member compiler_macros x) (sets_all c_compiler)"
  "list_all (\<lambda>x. x = M_PLATFORM_ID) (sets_all c_platform)"
  "list_all (\<lambda>x. x = M_ARCHITECTURE_ID) (sets_all c_architecture)"
  "list_all (\<lambda>x. x = M_C_VERSION) (sets_all c_version)"
  by code_simp+

lemma c_definite:
  "surely_all M_COMPILER_ID c_compiler" "literals_all M_COMPILER_ID c_compiler" "literals_all M_SIMULATE_ID c_compiler"
  by code_simp+

lemma c_reads: "list_all (\<lambda>x. x \<noteq> ''__cplusplus'') (reads_all (c_language @ c_compiler @ c_platform @ c_architecture @ c_version))"
  by code_simp

lemma c_item_parts:
  "x \<in> set compiler_macros \<Longrightarrow> c_item env x = own_item env (run_all env c_compiler Map.empty) x"
  "c_item env M_PLATFORM_ID = Text (PLATFORM_ID env)" "c_item env M_ARCHITECTURE_ID = Text (ARCHITECTURE_ID env)"
proof -
  have item: "c_item env y = follow_all env c_version y (follow_all env c_architecture y (follow_all env c_platform y
      (follow_all env c_compiler y (follow_all env c_language y Undefined))))" for y
    by (simp add: c_item_def c_program_def own_item_run follow_all_append)
  show "c_item env x = own_item env (run_all env c_compiler Map.empty) x" if "x \<in> set compiler_macros"
  proof -
    have "x \<notin> set (sets_all c_language)" "x \<notin> set (sets_all c_platform)" "x \<notin> set (sets_all c_architecture)" "x \<notin> set (sets_all c_version)"
      using that c_sets by (auto simp: list_all_iff compiler_macros_def)
    then show ?thesis by (simp add: item own_item_run follow_frame)
  qed
  have "M_PLATFORM_ID \<notin> set (sets_all c_architecture)" "M_PLATFORM_ID \<notin> set (sets_all c_version)" "M_ARCHITECTURE_ID \<notin> set (sets_all c_version)"
    using c_sets by (auto simp: list_all_iff)
  then show "c_item env M_PLATFORM_ID = Text (PLATFORM_ID env)" "c_item env M_ARCHITECTURE_ID = Text (ARCHITECTURE_ID env)"
    by (simp_all add: item follow_frame c_platform_text c_architecture_text)
qed

lemma c_item_cplusplus: "c_item (env(''__cplusplus'' := v)) = c_item env"
  unfolding c_item_def c_program_def by (rule own_item_cong) (use c_reads in \<open>auto simp: list_all_iff\<close>)

lemma portable_cplusplus: "portable env \<Longrightarrow> portable (env(''__cplusplus'' := v))"
  by (simp add: portable_def language_macros_def defined_def)

lemma c_identity:
  assumes "portable env"
  shows "c_item env M_COMPILER_ID = Text (COMPILER_ID (identify env))"
    and "c_item env M_SIMULATE_ID = (case SIMULATE_ID (identify env) of None \<Rightarrow> Undefined | Some s \<Rightarrow> Text s)"
    and "c_item env M_COMPILER_VERSION = COMPILER_VERSION (identify env)"
    and "c_item env M_VERSION_MAJOR = MAJOR (identify env)" "c_item env M_VERSION_MINOR = MINOR (identify env)"
    and "c_item env M_VERSION_PATCH = PATCH (identify env)" "c_item env M_VERSION_TWEAK = TWEAK (identify env)"
    and "c_item env M_VERSION_INTERNAL = INTERNAL (identify env)" "c_item env M_VERSION_INTERNAL_STR = INTERNAL_STR (identify env)"
    and "c_item env M_SIMULATE_MAJOR = SIM_MAJOR (identify env)" "c_item env M_SIMULATE_MINOR = SIM_MINOR (identify env)"
    and "c_item env M_SIMULATE_PATCH = SIM_PATCH (identify env)"
proof -
  let ?d = "run_all env c_compiler Map.empty"
  note part = c_item_parts(1) [of _ env, unfolded compiler_macros_def]
  show "c_item env M_COMPILER_VERSION = COMPILER_VERSION (identify env)"
    "c_item env M_VERSION_MAJOR = MAJOR (identify env)" "c_item env M_VERSION_MINOR = MINOR (identify env)"
    "c_item env M_VERSION_PATCH = PATCH (identify env)" "c_item env M_VERSION_TWEAK = TWEAK (identify env)"
    "c_item env M_VERSION_INTERNAL = INTERNAL (identify env)" "c_item env M_VERSION_INTERNAL_STR = INTERNAL_STR (identify env)"
    "c_item env M_SIMULATE_MAJOR = SIM_MAJOR (identify env)" "c_item env M_SIMULATE_MINOR = SIM_MINOR (identify env)"
    "c_item env M_SIMULATE_PATCH = SIM_PATCH (identify env)"
    unfolding c_compiler_identity [OF assms, symmetric] ident_of_def ident.select_convs by (rule part, simp)+
  have "own_item env ?d M_COMPILER_ID \<noteq> Undefined" "own_item env ?d M_COMPILER_ID \<noteq> Ill_Formed"
    "own_item env ?d M_SIMULATE_ID \<noteq> Ill_Formed"
    using follow_defined(2) follow_literal(2) c_definite by (auto simp: own_item_run)
  then show "c_item env M_COMPILER_ID = Text (COMPILER_ID (identify env))"
    "c_item env M_SIMULATE_ID = (case SIMULATE_ID (identify env) of None \<Rightarrow> Undefined | Some s \<Rightarrow> Text s)"
    unfolding c_compiler_identity [OF assms, symmetric] ident_of_def ident.select_convs
    using part [of M_COMPILER_ID] part [of M_SIMULATE_ID] by (simp_all split: item.split)
qed

lemma defined_upd: "x \<noteq> y \<Longrightarrow> defined (env(y := v)) x = defined env x"
  by (simp add: defined_def)

text \<open>
  C40. The C and the C++ identification programs agree. Run by a compiler family whose predefined macros differ
  between the languages only in \<open>__cplusplus\<close>, and which none of the macros that only one of the programs tests
  announces, both report the same compiler, versions, simulated compiler, platform, architecture, wrapper and
  extensions.
\<close>

theorem same_identification:
  assumes "portable env"
  shows "let env' = env(''__cplusplus'' \<mapsto> Int_Macro std) in
    c_info_compiler env = Text (info_compiler env') \<and> c_info_simulate env = info_simulate env' \<and>
    c_info_version env = info_version env' \<and> c_info_version_internal env = info_version_internal env' \<and>
    c_info_simulate_version env = info_simulate_version env' \<and>
    c_info_platform env = Text (info_platform env') \<and> c_info_arch env = Text (info_arch env') \<and>
    c_info_cray env = info_cray env' \<and> c_qnxnto env = qnxnto env' \<and>
    c_info_language_extensions_default env = Text (info_language_extensions_default env')"
proof -
  let ?e = "env(''__cplusplus'' \<mapsto> Int_Macro std)"
  note items = c_identity [OF portable_cplusplus [OF assms], of "Some (Int_Macro std)", unfolded c_item_cplusplus]
  note parts = c_item_parts(2,3) [of ?e, unfolded c_item_cplusplus]
  have "c_info_compiler env = Text (info_compiler ?e)" "c_info_simulate env = info_simulate ?e" "c_info_version env = info_version ?e"
    "c_info_version_internal env = info_version_internal ?e" "c_info_simulate_version env = info_simulate_version ?e"
    by (simp_all add: c_info_compiler_def c_info_simulate_def c_info_version_def c_info_version_internal_def c_info_simulate_version_def
        info_compiler_def info_simulate_def info_version_def info_version_internal_def info_simulate_version_def
        items info_string_def Let_def split: option.split item.split)
  moreover have "c_info_platform env = Text (info_platform ?e)" "c_info_arch env = Text (info_arch ?e)"
    by (simp_all add: c_info_platform_def c_info_arch_def info_platform_def info_arch_def parts info_string_def)
  moreover have "c_info_cray env = info_cray ?e" "c_qnxnto env = qnxnto ?e"
    "c_info_language_extensions_default env = Text (info_language_extensions_default ?e)"
    by (simp_all add: c_info_cray_def info_cray_def c_qnxnto_def qnxnto_def c_info_language_extensions_default_def
        info_language_extensions_default_def info_string_def defined_upd)
  ultimately show ?thesis unfolding Let_def by blast
qed

definition clang_14 :: macros where
  "clang_14 = [''__clang__'' \<mapsto> Int_Macro 1, ''__clang_major__'' \<mapsto> Int_Macro 14, ''__clang_minor__'' \<mapsto> Int_Macro 0,
     ''__clang_patchlevel__'' \<mapsto> Int_Macro 6, ''__GNUC__'' \<mapsto> Int_Macro 4, ''__linux__'' \<mapsto> Int_Macro 1]"

theorem same_identification_witness:
  "portable clang_14 \<and> c_info_compiler clang_14 = Text (info_compiler (clang_14(''__cplusplus'' \<mapsto> Int_Macro 201703)))"
proof -
  have "portable clang_14" by (simp add: portable_def language_macros_def clang_14_def defined_def)
  then show ?thesis using same_identification [of clang_14 201703] by (simp add: Let_def)
qed

section \<open>The C program runs\<close>

lemma info_string_length: "info_string name x = Text s \<Longrightarrow> length name + 8 \<le> length s"
  by (auto simp: info_string_def c_literal_def split: item.splits)

lemma c_version_lengths:
  "c_info_version env = Text s \<Longrightarrow> 12 \<le> length s" "c_info_version_internal env = Text s \<Longrightarrow> 12 \<le> length s"
  "c_info_simulate_version env = Text s \<Longrightarrow> 12 \<le> length s"
  by (auto simp: c_info_version_def c_info_version_internal_def c_info_simulate_version_def
      dest!: version_array_length info_string_length split: item.splits)

lemma c_literal_lengths:
  "c_info_compiler env = Text s \<Longrightarrow> 12 \<le> length s" "c_info_platform env = Text s \<Longrightarrow> 12 \<le> length s"
  "c_info_arch env = Text s \<Longrightarrow> 12 \<le> length s" "c_info_simulate env = Text s \<Longrightarrow> 12 \<le> length s" "c_info_cray env = Text s \<Longrightarrow> 12 \<le> length s"
  "c_info_language_standard_default env = Text s \<Longrightarrow> 12 \<le> length s"
  "c_info_language_extensions_default env = Text s \<Longrightarrow> 12 \<le> length s"
  unfolding c_info_compiler_def c_info_platform_def c_info_arch_def c_info_simulate_def c_info_cray_def
    c_info_language_standard_default_def c_info_language_extensions_default_def
  by (auto dest!: info_string_length split: if_splits)

lemma c_required_length:
  assumes "Text s \<in> set (c_required env)"
  shows "12 \<le> length s"
proof -
  have "Text s \<in> {c_info_compiler env, c_info_platform env, c_info_arch env, c_info_version env, c_info_version_internal env,
      c_info_simulate env, c_info_simulate_version env, c_info_cray env, c_info_language_standard_default env,
      c_info_language_extensions_default env}"
    using assms unfolding c_required_def by (simp split: if_splits) blast+
  then show ?thesis using c_literal_lengths c_version_lengths by (metis insertE singletonD)
qed

text \<open>
  The main function of the C program never leaves its strings for an argument count up to 11, one less than the length
  of the architecture string of an unknown architecture; at 12 it can.
\<close>

theorem c_main_bounds:
  assumes "c_main env argc = Some r" and "argc \<le> 11"
  shows "\<exists>v. r = Val v"
proof -
  have "require_sum argc (c_required env) \<noteq> UB" using assms(2) c_required_length unfolding require_sum_cases(1) by fastforce
  then obtain v where "require_sum argc (c_required env) = Val v" using require_sum_cases(2) by blast
  then show ?thesis using assms(1) by (auto simp: c_main_def split: if_splits)
qed

lemma c_main_out_of_bounds:
  assumes "c_main env 12 = Some r" and "c_item env M_ID_VOID_MAIN = Undefined" and "ARCHITECTURE_ID env = []"
  shows "r = UB"
proof -
  have "c_info_arch env = Text (''INFO:arch[]'' @ [CHR 0x00])"
    using assms(3) by (simp add: c_info_arch_def c_item_parts info_string_def c_literal_def)
  then have "\<exists>s. Text s \<in> set (c_required env) \<and> length s \<le> 12" by (auto simp: c_required_def)
  then have "require_sum 12 (c_required env) = UB" unfolding require_sum_cases(1) .
  then show ?thesis using assms(1,2) by (auto simp: c_main_def split: if_splits)
qed

end
