(* ===== verification/Type_Size.thy ===== *)
theory Type_Size
  imports Compiler_Id
begin

text \<open>
  \<open>src/client/build/CMakeFiles/CheckTypeSize/OFF64_T.c\<close>, which the build compiles to find out whether the type
  \<open>off64_t\<close> exists and how large it is. Its size is a parameter, \<open>None\<close> when the headers do not declare it. The
  preprocessor's choices are functions of the predefined macros, as in \<open>Compiler_Id\<close>.
\<close>

definition KEY :: "macros \<Rightarrow> string option" where
  "KEY env = if_chain
    [(defined env ''__i386'', Some ''__i386''),
     (defined env ''__x86_64'', Some ''__x86_64''),
     (defined env ''__PPC64__'', Some ''__PPC64__''),
     (defined env ''__ppc64__'', Some ''__ppc64__''),
     (defined env ''__PPC__'', Some ''__PPC__''),
     (defined env ''__ppc__'', Some ''__ppc__''),
     (defined env ''__aarch64__'', Some ''__aarch64__''),
     (defined env ''__ARM_ARCH_7A__'', Some ''__ARM_ARCH_7A__''),
     (defined env ''__ARM_ARCH_7S__'', Some ''__ARM_ARCH_7S__'')] None"

text \<open>The size is an unsigned number.\<close>

definition size_digits :: "nat \<Rightarrow> string" where
  "size_digits n =
     [digit_char (n div 10000 mod 10), digit_char (n div 1000 mod 10), digit_char (n div 100 mod 10),
      digit_char (n div 10 mod 10), digit_char (n mod 10)]"

definition info_size :: "macros \<Rightarrow> nat \<Rightarrow> string" where
  "info_size env n = ''INFO:size['' @ size_digits n @ '']'' @
     (case KEY env of None \<Rightarrow> [] | Some k \<Rightarrow> '' key['' @ k @ '']'') @ [CHR 0x00]"

definition size_main :: "macros \<Rightarrow> nat option \<Rightarrow> nat \<Rightarrow> (unit, int) outcome option" where
  "size_main env off64_t argc = (case off64_t of None \<Rightarrow> None | Some n \<Rightarrow> Some (require_sum argc [Text (info_size env n)]))"

section \<open>Reading the size back\<close>

lemma size_digits_eq: "size_digits n = map (\<lambda>i. digit_char (n div 10 ^ i mod 10)) (rev [0..<5])"
  by (simp add: size_digits_def upt_rec)

text \<open>
  The five digits after the introduction read back as the size modulo \<open>10 ^ 5\<close>, the array ends with its terminator
  and is the same for two sizes only if they agree modulo \<open>10 ^ 5\<close>.
\<close>

theorem info_size_reads_back:
  "parse_digits 0 (take 5 (drop 10 (info_size env n))) = Some (n mod 10 ^ 5) \<and>
   last (info_size env n) = CHR 0x00 \<and> (info_size env n = info_size env m \<longrightarrow> n mod 10 ^ 5 = m mod 10 ^ 5)"
proof -
  have digits: "take 5 (drop 10 (info_size env k)) = size_digits k" for k
    by (simp add: info_size_def size_digits_def)
  have parse: "parse_digits 0 (size_digits k) = Some (k mod 10 ^ 5)" for k
    using digits_value [of k 5 0] by (simp add: size_digits_eq)
  have "n mod 10 ^ 5 = m mod 10 ^ 5" if "info_size env n = info_size env m"
    using parse [of n] parse [of m] digits [of n] digits [of m] that by simp
  then show ?thesis using digits parse by (simp add: info_size_def)
qed

theorem info_size_reads_back_witness: "size_digits 8 = ''00008'' \<and> last (info_size (\<lambda>_. None) 8) = CHR 0x00"
  using info_size_reads_back [of "\<lambda>_. None" 8 8] by (simp add: size_digits_def digit_char_def char_of_def bit_0)

text \<open>The program compiles exactly when the type exists; it then stays within its string for an argument count up to 16.\<close>

theorem size_main_runs:
  "(size_main env off64_t argc = None \<longleftrightarrow> off64_t = None) \<and>
   (\<forall>r. size_main env off64_t argc = Some r \<and> argc \<le> 16 \<longrightarrow> (\<exists>v. r = Val v))"
proof -
  have "16 < length (info_size env n)" for n by (simp add: info_size_def size_digits_def)
  then have "argc < length (info_size env n)" if "argc \<le> 16" for n using that order.strict_trans1 by blast
  then show ?thesis by (auto simp: size_main_def split: option.splits)
qed

end
