(* ===== verification/Include_Checks.thy ===== *)
theory Include_Checks
  imports Prelude
begin

text \<open>
  The programs with which the client's build finds out which headers its compiler has
  (\<open>src/client/build/CMakeFiles/CheckIncludeFiles\<close>): each includes some headers, in order, and has a main function that
  returns 0. Whether the compiler can include a header after others is a parameter.
\<close>

section \<open>The programs\<close>

record include_check =
  headers :: "string list"
  exit_code :: int

definition HAVE_ARPA_INET_H :: include_check where
  "HAVE_ARPA_INET_H = \<lparr>headers = [''arpa/inet.h''], exit_code = 0\<rparr>"

definition HAVE_ARPA_NAMESER_COMPAT_H :: include_check where
  "HAVE_ARPA_NAMESER_COMPAT_H = \<lparr>headers = [''arpa/nameser_compat.h''], exit_code = 0\<rparr>"

definition HAVE_ARPA_NAMESER_H :: include_check where
  "HAVE_ARPA_NAMESER_H = \<lparr>headers = [''arpa/nameser.h''], exit_code = 0\<rparr>"

definition HAVE_ASSERT_H :: include_check where
  "HAVE_ASSERT_H = \<lparr>headers = [''assert.h''], exit_code = 0\<rparr>"

definition HAVE_DLFCN_H :: include_check where
  "HAVE_DLFCN_H = \<lparr>headers = [''dlfcn.h''], exit_code = 0\<rparr>"

definition HAVE_ERRNO_H :: include_check where
  "HAVE_ERRNO_H = \<lparr>headers = [''errno.h''], exit_code = 0\<rparr>"

definition HAVE_FCNTL_H :: include_check where
  "HAVE_FCNTL_H = \<lparr>headers = [''fcntl.h''], exit_code = 0\<rparr>"

definition HAVE_INTTYPES_H :: include_check where
  "HAVE_INTTYPES_H = \<lparr>headers = [''inttypes.h''], exit_code = 0\<rparr>"

definition HAVE_LIMITS_H :: include_check where
  "HAVE_LIMITS_H = \<lparr>headers = [''limits.h''], exit_code = 0\<rparr>"

definition HAVE_MALLOC_H :: include_check where
  "HAVE_MALLOC_H = \<lparr>headers = [''malloc.h''], exit_code = 0\<rparr>"

definition HAVE_MEMORY_H :: include_check where
  "HAVE_MEMORY_H = \<lparr>headers = [''memory.h''], exit_code = 0\<rparr>"

definition HAVE_NETDB_H :: include_check where
  "HAVE_NETDB_H = \<lparr>headers = [''netdb.h''], exit_code = 0\<rparr>"

definition HAVE_NETINET_IN_H :: include_check where
  "HAVE_NETINET_IN_H = \<lparr>headers = [''netinet/in.h''], exit_code = 0\<rparr>"

definition HAVE_NETINET_TCP_H :: include_check where
  "HAVE_NETINET_TCP_H = \<lparr>headers = [''sys/types.h'', ''netinet/tcp.h''], exit_code = 0\<rparr>"

definition HAVE_NET_IF_H :: include_check where
  "HAVE_NET_IF_H = \<lparr>headers = [''net/if.h''], exit_code = 0\<rparr>"

definition HAVE_SIGNAL_H :: include_check where
  "HAVE_SIGNAL_H = \<lparr>headers = [''signal.h''], exit_code = 0\<rparr>"

definition HAVE_SOCKET_H :: include_check where
  "HAVE_SOCKET_H = \<lparr>headers = [''socket.h''], exit_code = 0\<rparr>"

definition HAVE_STDBOOL_H :: include_check where
  "HAVE_STDBOOL_H = \<lparr>headers = [''stdbool.h''], exit_code = 0\<rparr>"

definition HAVE_STDINT_H :: include_check where
  "HAVE_STDINT_H = \<lparr>headers = [''stdint.h''], exit_code = 0\<rparr>"

definition HAVE_STDLIB_H :: include_check where
  "HAVE_STDLIB_H = \<lparr>headers = [''stdlib.h''], exit_code = 0\<rparr>"

definition HAVE_STRINGS_H :: include_check where
  "HAVE_STRINGS_H = \<lparr>headers = [''strings.h''], exit_code = 0\<rparr>"

definition HAVE_STRING_H :: include_check where
  "HAVE_STRING_H = \<lparr>headers = [''string.h''], exit_code = 0\<rparr>"

definition HAVE_STROPTS_H :: include_check where
  "HAVE_STROPTS_H = \<lparr>headers = [''stropts.h''], exit_code = 0\<rparr>"

definition HAVE_SYS_IOCTL_H :: include_check where
  "HAVE_SYS_IOCTL_H = \<lparr>headers = [''sys/ioctl.h''], exit_code = 0\<rparr>"

definition HAVE_SYS_PARAM_H :: include_check where
  "HAVE_SYS_PARAM_H = \<lparr>headers = [''sys/param.h''], exit_code = 0\<rparr>"

definition HAVE_SYS_SELECT_H :: include_check where
  "HAVE_SYS_SELECT_H = \<lparr>headers = [''sys/select.h''], exit_code = 0\<rparr>"

definition HAVE_SYS_SOCKET_H :: include_check where
  "HAVE_SYS_SOCKET_H = \<lparr>headers = [''sys/socket.h''], exit_code = 0\<rparr>"

definition HAVE_SYS_STAT_H :: include_check where
  "HAVE_SYS_STAT_H = \<lparr>headers = [''sys/stat.h''], exit_code = 0\<rparr>"

definition HAVE_SYS_TIME_H :: include_check where
  "HAVE_SYS_TIME_H = \<lparr>headers = [''sys/time.h''], exit_code = 0\<rparr>"

definition HAVE_SYS_TYPES_H :: include_check where
  "HAVE_SYS_TYPES_H = \<lparr>headers = [''sys/types.h''], exit_code = 0\<rparr>"

definition HAVE_SYS_UIO_H :: include_check where
  "HAVE_SYS_UIO_H = \<lparr>headers = [''sys/uio.h''], exit_code = 0\<rparr>"

definition HAVE_TIME_H :: include_check where
  "HAVE_TIME_H = \<lparr>headers = [''time.h''], exit_code = 0\<rparr>"

definition HAVE_UNISTD_H :: include_check where
  "HAVE_UNISTD_H = \<lparr>headers = [''unistd.h''], exit_code = 0\<rparr>"

definition HAVE_WINDOWS_H :: include_check where
  "HAVE_WINDOWS_H = \<lparr>headers = [''windows.h''], exit_code = 0\<rparr>"

definition HAVE_WINSOCK2_H :: include_check where
  "HAVE_WINSOCK2_H = \<lparr>headers = [''winsock2.h'', ''windows.h''], exit_code = 0\<rparr>"

definition HAVE_WINSOCK_H :: include_check where
  "HAVE_WINSOCK_H = \<lparr>headers = [''winsock.h'', ''windows.h''], exit_code = 0\<rparr>"

definition HAVE_WS2TCPIP_H :: include_check where
  "HAVE_WS2TCPIP_H = \<lparr>headers = [''winsock2.h'', ''ws2tcpip.h'', ''windows.h''], exit_code = 0\<rparr>"

text \<open>The programs under the names of their files.\<close>

definition include_checks :: "(string \<times> include_check) list" where
  "include_checks =
    [(''HAVE_ARPA_INET_H'', HAVE_ARPA_INET_H), (''HAVE_ARPA_NAMESER_COMPAT_H'', HAVE_ARPA_NAMESER_COMPAT_H),
     (''HAVE_ARPA_NAMESER_H'', HAVE_ARPA_NAMESER_H), (''HAVE_ASSERT_H'', HAVE_ASSERT_H), (''HAVE_DLFCN_H'', HAVE_DLFCN_H),
     (''HAVE_ERRNO_H'', HAVE_ERRNO_H), (''HAVE_FCNTL_H'', HAVE_FCNTL_H), (''HAVE_INTTYPES_H'', HAVE_INTTYPES_H),
     (''HAVE_LIMITS_H'', HAVE_LIMITS_H), (''HAVE_MALLOC_H'', HAVE_MALLOC_H), (''HAVE_MEMORY_H'', HAVE_MEMORY_H),
     (''HAVE_NETDB_H'', HAVE_NETDB_H), (''HAVE_NETINET_IN_H'', HAVE_NETINET_IN_H), (''HAVE_NETINET_TCP_H'',
     HAVE_NETINET_TCP_H), (''HAVE_NET_IF_H'', HAVE_NET_IF_H), (''HAVE_SIGNAL_H'', HAVE_SIGNAL_H), (''HAVE_SOCKET_H'',
     HAVE_SOCKET_H), (''HAVE_STDBOOL_H'', HAVE_STDBOOL_H), (''HAVE_STDINT_H'', HAVE_STDINT_H), (''HAVE_STDLIB_H'',
     HAVE_STDLIB_H), (''HAVE_STRINGS_H'', HAVE_STRINGS_H), (''HAVE_STRING_H'', HAVE_STRING_H), (''HAVE_STROPTS_H'',
     HAVE_STROPTS_H), (''HAVE_SYS_IOCTL_H'', HAVE_SYS_IOCTL_H), (''HAVE_SYS_PARAM_H'', HAVE_SYS_PARAM_H),
     (''HAVE_SYS_SELECT_H'', HAVE_SYS_SELECT_H), (''HAVE_SYS_SOCKET_H'', HAVE_SYS_SOCKET_H), (''HAVE_SYS_STAT_H'',
     HAVE_SYS_STAT_H), (''HAVE_SYS_TIME_H'', HAVE_SYS_TIME_H), (''HAVE_SYS_TYPES_H'', HAVE_SYS_TYPES_H), (''HAVE_SYS_UIO_H'',
     HAVE_SYS_UIO_H), (''HAVE_TIME_H'', HAVE_TIME_H), (''HAVE_UNISTD_H'', HAVE_UNISTD_H), (''HAVE_WINDOWS_H'',
     HAVE_WINDOWS_H), (''HAVE_WINSOCK2_H'', HAVE_WINSOCK2_H), (''HAVE_WINSOCK_H'', HAVE_WINSOCK_H), (''HAVE_WS2TCPIP_H'',
     HAVE_WS2TCPIP_H)]"

section \<open>Their results\<close>

text \<open>\<open>can before h\<close>: the compiler can include \<open>h\<close> when it has included \<open>before\<close>.\<close>

fun included :: "(string list \<Rightarrow> string \<Rightarrow> bool) \<Rightarrow> string list \<Rightarrow> string list \<Rightarrow> bool" where
  "included can before [] \<longleftrightarrow> True"
| "included can before (h # hs) \<longleftrightarrow> can before h \<and> included can (before @ [h]) hs"

text \<open>The exit code, or \<open>None\<close> when the program does not compile.\<close>

definition check_result :: "(string list \<Rightarrow> string \<Rightarrow> bool) \<Rightarrow> include_check \<Rightarrow> int option" where
  "check_result can c = (if included can [] (headers c) then Some (exit_code c) else None)"

lemma included_iff: "included can before hs \<longleftrightarrow> (\<forall>i<length hs. can (before @ take i hs) (hs ! i))"
proof (induction hs arbitrary: before)
  case (Cons h hs)
  show ?case unfolding included.simps Cons.IH by (auto simp: less_Suc_eq_0_disj)
qed simp

text \<open>The name of a program and the header it asks for: letters (\<open>0x61\<close> to
  \<open>0x7A\<close>) are raised, digits (\<open>0x30\<close> to \<open>0x39\<close>) stay, the other characters become underscores.\<close>

definition macro_char :: "char \<Rightarrow> char" where
  "macro_char c = (if digit6 c \<and> digit5 c then Char (digit0 c) (digit1 c) (digit2 c) (digit3 c) (digit4 c) False True False
     else if digit5 c \<and> digit4 c then c else CHR ''_'')"

definition have_macro :: "string \<Rightarrow> string" where
  "have_macro h = ''HAVE_'' @ map macro_char h"

lemma names_of_checks:
  "list_all (\<lambda>(x, c). exit_code c = 0 \<and> (let ms = map have_macro (headers c) in List.member ms x \<and>
     list_all (\<lambda>m. m = x \<or> List.member [''HAVE_SYS_TYPES_H'', ''HAVE_WINDOWS_H'', ''HAVE_WINSOCK2_H''] m) ms)) include_checks"
  by code_simp

lemma others_are_checked:
  "(''HAVE_SYS_TYPES_H'', HAVE_SYS_TYPES_H) \<in> set include_checks" "(''HAVE_WINDOWS_H'', HAVE_WINDOWS_H) \<in> set include_checks"
  "(''HAVE_WINSOCK2_H'', HAVE_WINSOCK2_H) \<in> set include_checks"
  by (simp_all add: include_checks_def)

text \<open>
  Every program asks for the header of its name, every header it includes besides has a program of its own, and it
  reports success exactly when all its headers can be included in their order; so it reports failure where the header of
  its name is missing.
\<close>

theorem include_checks_results:
  assumes "(x, c) \<in> set include_checks"
  shows "(\<exists>h\<in>set (headers c). have_macro h = x) \<and>
    (\<forall>h\<in>set (headers c). \<exists>d. (have_macro h, d) \<in> set include_checks) \<and>
    (check_result can c = Some 0 \<longleftrightarrow> (\<forall>i<length (headers c). can (take i (headers c)) (headers c ! i))) \<and>
    ((\<forall>h before. have_macro h = x \<longrightarrow> \<not> can before h) \<longrightarrow> check_result can c = None)"
proof -
  have c: "exit_code c = 0" "\<exists>h\<in>set (headers c). have_macro h = x"
    "\<forall>h\<in>set (headers c). have_macro h = x \<or> have_macro h \<in> {''HAVE_SYS_TYPES_H'', ''HAVE_WINDOWS_H'', ''HAVE_WINSOCK2_H''}"
    using names_of_checks assms by (fastforce simp: list_all_iff Let_def)+
  then have others: "\<exists>d. (have_macro h, d) \<in> set include_checks" if "h \<in> set (headers c)" for h
    using that assms others_are_checked by fastforce
  have "check_result can c = Some 0 \<longleftrightarrow> included can [] (headers c)" using c(1) by (simp add: check_result_def)
  moreover have "check_result can c = None" if missing: "\<forall>h before. have_macro h = x \<longrightarrow> \<not> can before h"
    using c(2) missing by (fastforce simp: check_result_def included_iff in_set_conv_nth)
  ultimately show ?thesis using c(2) others by (simp add: included_iff)
qed

theorem include_checks_results_witness: "check_result (\<lambda>_ h. h \<noteq> ''malloc.h'') HAVE_MALLOC_H = None"
proof -
  have "(''HAVE_MALLOC_H'', HAVE_MALLOC_H) \<in> set include_checks" by (simp add: include_checks_def)
  from include_checks_results [OF this, of "\<lambda>_ h. h \<noteq> ''malloc.h''"] show ?thesis
    by (auto simp: HAVE_MALLOC_H_def check_result_def)
qed

end
