(* ===== verification/Spec2Isabelle.thy ===== *)
theory Spec2Isabelle
  imports Client_Properties Job_Properties Lock_Properties Build_Properties Type_Size Include_Checks
begin

text \<open>
  A verification development for the scalable key-value store: a C++ client library over gRPC
  (\<open>src/client\<close>) and a Java server that is meant to replicate a key-value table with Raft and keeps
  it in an SQL database (\<open>src/server\<close>).

  \<^bold>\<open>The program and its parts.\<close> A process that links the client calls \<open>kv739_init\<close>, \<open>kv739_get\<close>,
  \<open>kv739_put\<close>, \<open>kv739_die\<close> and \<open>kv739_shutdown\<close> (\<open>client/src/kvclient.cpp\<close>). They keep one global
  object of class \<open>KvstoreRPCClient\<close> (\<open>client/src/kvclientimpl.cpp\<close>), which owns a gRPC stub and a
  completion thread per host. A server process (\<open>server/KVStoreServer.java\<close>) reads its configuration
  (\<open>config/ServerConfig.java\<close>), opens its database (\<open>storage/SQLiteStorage.java\<close>), makes a Raft node
  on it (\<open>raft/RaftNode.java\<close>, \<open>raft/RaftState.java\<close>) and answers gets from the database and puts
  through the node (\<open>server/KVStoreServiceImpl.java\<close>).

  \<^bold>\<open>Theories.\<close>
  \<^item> \<open>Prelude\<close>: results of computations (a value, an exception, undefined behaviour, no return),
    their sequencing and exception handling, what computations keep and yield (\<open>keeps\<close>, \<open>yields\<close>),
    decimal numbers, and the locale \<open>invariant_system\<close> of transition systems with an invariant.
  \<^item> \<open>Cpp_Strings\<close>: the caller's memory as a map from addresses to characters, C strings, the
    bounded copy into a 2048-byte buffer with 64-bit lengths, and splitting with \<open>getline\<close>.
  \<^item> \<open>Rpc_Client\<close>: \<open>KvstoreRPCClient\<close>: \<open>init_servers\<close> and \<open>KvstoreRPCClient\<close> are the constructor,
    \<open>destroy_KvstoreRPCClient\<close> the destructor, \<open>sendRequest\<close>, \<open>sendRequestAsync\<close>, \<open>AsyncCompleteRpc\<close>
    and \<open>sendRequestDone\<close> the methods of these names. Heap objects are counted in three ledgers.
  \<^item> \<open>Kv_Client\<close>: the five C functions over the globals (\<open>client_state\<close>), sessions of them as a step
    relation, the locale \<open>request_channel\<close> for what they need of a request, and the test driver.
  \<^item> \<open>Sample_Env\<close>: concrete environments and memories. \<open>Client_Properties\<close>: the client's properties.
  \<^item> \<open>Java_Support\<close>: \<open>long\<close> arithmetic, \<open>split\<close>, \<open>parseInt\<close>, exceptions.
  \<^item> \<open>Storage_Interface\<close>: what the node needs of its storage, as the locales \<open>log_store\<close> and
    \<open>kv_table\<close>. \<open>Sqlite_Storage\<close>: the tables (\<open>db\<close>), one definition per method, and the interpretations.
  \<^item> \<open>Raft_State\<close>, \<open>Raft_Node\<close>: the node's state and one definition per method. Work handed to the
    executors is a list of pending tasks.
  \<^item> \<open>Raft_Log\<close>: the abstract effect of receiving entries (\<open>log_splice\<close>) and of applying them
    (\<open>replay\<close>), the node's invariant \<open>node_inv\<close>, and that the receiving loop refines the former.
    \<open>Raft_Replication\<close>: receiving, committing, applying, sending and proposing against these.
    \<open>Raft_Steps\<close>: a running node as a transition system and its invariants.
  \<^item> \<open>Kv_Server\<close>: configuration, server object, start, stop, main and the gRPC service.
    \<open>Server_Properties\<close>: the server's properties; this theory holds those that span the service,
    the node and the storage.
  \<^item> \<open>Raft_Types\<close>: the well-formedness of a node and that every method keeps it, however it ends.
    \<open>Fault_Properties\<close>: the node on a database whose statements fail.
  \<^item> \<open>Threads\<close>: computations that other threads interrupt (\<open>thread\<close>), pools of them (\<open>pool_step\<close>, and
    \<open>schedule\<close> to run one), that pools end, the locale \<open>rely_guarantee\<close>, in which every kind of thread has a rely and a
    guarantee and what it adds to the state is counted, and the locale \<open>invariant_threads\<close>, its special case for
    invariants of single actions. Threads that stop in the middle for good (\<open>stops\<close>), and threads that go on alone for a while (\<open>goes\<close>).
  \<^item> \<open>Raft_Threads\<close> and \<open>Election_Threads\<close>: every method of \<open>RaftNode.java\<close> once more, one atomic action per SQL statement,
    field access and map update (\<open>t_proposeEntry\<close> for \<open>proposeEntry\<close>, and so on), and the jobs that the threads of a
    server run (\<open>t_job\<close>). \<open>Call_Pool\<close>, \<open>Election_Pool\<close>, \<open>Peer_Pool\<close>, \<open>Typed_Threads\<close>: the interpretations of the two
    locales on them, for calls, for calls beside an election, for a node with peers, and for any database. \<open>Recovery\<close>: what
    one put alone, and what a new process, makes of the state that interleaved threads have left. \<open>Interrupted_Puts\<close>: how far a put goes
    before it stops at a given statement. \<open>Orderly_Threads\<close>: that no action of a job waits forever or changes a closed database, and the
    shutdown hook as a thread beside the others (\<open>t_stop\<close>).
    \<open>Thread_Properties\<close>: the properties of interleaved calls; \<open>Job_Properties\<close>: those of a whole server process.
  \<^item> \<open>Locks\<close>: threads that share a read-write lock (\<open>locking\<close>, \<open>lock_step\<close>), the threads without it (\<open>erase\<close>), that threads which
    release what they take end, that a thread which stops with the lock blocks the writers for good, and that sections under the write lock are serialised.
    \<open>Locked_Threads\<close>: the methods and jobs once more with the lock \<open>rwLock\<close> of the node (\<open>l_appendEntries\<close> for \<open>appendEntries\<close>, and so on), and with vote
    requests that are answered, fail, or are never answered (\<open>vote_answer\<close>).
    \<open>Lock_Properties\<close>: what the lock ensures and what it does not.
  \<^item> \<open>Compiler_Id\<close>: the program with which the client's build identifies its C++ compiler
    (\<open>client/build/CMakeFiles/3.24.1/CompilerIdCXX/CMakeCXXCompilerId.cpp\<close>), as a function of the
    predefined macros. \<open>Preprocessor\<close>: conditional directives as data and their meaning. \<open>C_Compiler_Id\<close>: the
    directives of the program for C (\<open>CompilerIdC/CMakeCCompilerId.c\<close>). \<open>Build_Properties\<close>: the two programs
    compared. \<open>Type_Size\<close>: the size check \<open>CheckTypeSize/OFF64_T.c\<close>. \<open>Include_Checks\<close>: the programs of \<open>CheckIncludeFiles\<close>
    that ask for a header each, under the names of their files.

  \<^bold>\<open>What is shown of the client.\<close> A get returns the stored value, cut at 2047 bytes and terminated,
  and every outcome has its code; get and put write nothing but the caller's buffer however they end;
  put follows at most three redirections and, redirected again, gives up, connected to the third address; init stops at the first leader and
  skips the servers at which the question throws;
  over every session in which stubs and threads can be made and queues drain, all stubs and threads are owned by the global object and none leaks, as long as all
  addresses name equally many hosts. It is also shown that calls without a client, and a redirection to
  an address with more hosts, are undefined behaviour.

  \<^bold>\<open>What is shown of the server.\<close> The receiving side of Raft splices entries into the log as
  specified, keeps committed entries, and ends up with the leader's log; the commit index moves to the
  largest index that the node's test allows; as long as methods run one after the other, the table is the replay of the applied entries and
  the term never decreases; restarts recover all of it but term and vote; a single node serves puts and gets.
  It is also shown that a node with at least one peer never becomes the leader and never stores
  anything, that a leader commits without hearing from any peer, and that its majority test is too weak
  for an odd number of peers. On a database that fails, a node stays well-formed, but contradicting entries that
  could not be deleted are accepted and entries that could not be written count as applied.

  \<^bold>\<open>What is shown of concurrent threads.\<close> Every interleaving of puts, gets and heartbeats ends, throws nothing,
  keeps the log growing, the indices within it and the table to proposed pairs, and a put that answered success has its
  entry in the log; at the end the log has grown by exactly the entries of the puts, each once. The same holds while a
  server without peers elects itself, and every such run ends with the node leading. A put that was answered with
  success survives a crash at any action. A server with peers stores nothing, however its threads interleave. On
  any database and with any messages a node stays well-formed at every action. A job without interference is the
  atomic step of the other theories (\<open>run_job\<close>). Once the shutdown hook has closed the storage, nothing more is stored, whatever threads still run.
  It is also shown what is not kept: the order in which entries are applied, so that
  the later of two values can be lost for good, and the commit index, so that an acknowledged put can stay invisible until
  the next put, which makes every logged key visible again.

  \<^bold>\<open>What is shown of the lock.\<close> With the read-write lock no run of jobs blocks for good when every vote request is answered or fails;
  at any time one writer or some readers hold the lock, and every run is one of the threads without it, some of them behind, so that what is shown of all runs of these
  up to any point holds. A vote request that is never answered keeps the read lock, and no message with entries is handled any more. Messages that arrive together are
  handled one after the other and leave the largest term. The lock does
  not prevent that vote answers, which share it as readers, move the term back, and that a put whose entry a message deletes
  throws.

  \<^bold>\<open>What is shown of the build.\<close> The identification programs for C and C++, one as directives and one as
  functions, report the same compiler; both main functions stay within their strings; digits read back. Every include check asks for
  the header of its name and succeeds exactly when its headers can be included in order.

  \<^bold>\<open>Parameters.\<close> gRPC, the generated message classes, the members of \<open>KvstoreRPCClient\<close> and the
  function \<open>read_server_list\<close> that the repository declares without defining them are the fields of
  the record \<open>env\<close>. Which SQL statements the engine rejects is the parameter \<open>faults\<close>; \<open>accepts\<close>
  says that it rejects none, the hypothesis of the properties about the node's data. An engine in whose
  grammar \<open>index\<close> is reserved, as it is in SQLite's, does not satisfy it: what happens then is the
  property \<open>rejected_schema_stops_server\<close>. The network's answers to vote requests, the properties in
  the configuration file and the random timeouts are parameters too.

  \<^bold>\<open>Bounds.\<close> Lengths and counts of the client are words of 64 and 32 bits as in the source. The only
  loop that may not end, \<open>AsyncCompleteRpc\<close>, is a partial function; that it returns when its queue is
  drained is shown. Terms are integers wrapped to 64 bits; log indices are unbounded, since each is at
  most one more than the number of rows.

  \<^bold>\<open>Not modelled.\<close> The reentrance and the order of the waiting threads of the read-write lock, which the code does not
  rely on. The properties of \<open>Thread_Properties\<close> and \<open>Job_Properties\<close> are about threads without the lock: that allows more
  interleavings than the code, so that what is shown for all of them holds (\<open>locked_jobs_end\<close>), and the runs of
  \<open>late_apply_loses_value\<close> and \<open>acknowledged_put_not_found\<close> take no lock. Fields are read and written in the order of
  the code, as if they were volatile, and the pass over \<open>matchIndex\<close> in \<open>updateCommitIndex\<close> is one action. The two futures of a vote request, one made inside the other,
  are one task of the pool. What gRPC does with calls: that it starts a thread per call, and accepts none after \<open>server.shutdown()\<close>; the jobs beside the shutdown
  hook are the ones it has accepted. Interleaving of the client's own threads (each call is one step): the five functions
  share unguarded globals, so that calls from two threads are a data race, which C++ leaves undefined. The wall-clock timing of deadlines
  and timers. The class \<open>KVClient\<close> of \<open>kvclient.h\<close>, which the repository declares and never defines, the messages
  of \<open>raft.proto\<close> and \<open>kv_store.proto\<close> that no code builds or reads, and the generated configuration headers of zlib and c-ares.
\<close>

section \<open>The service over a leader\<close>

text \<open>
  C23. A put to a leader, whatever its peers: it is answered with success, and afterwards a get of
  the key answers the value and a get of another key what the log says; the old value is never reported.
\<close>

theorem put_then_get:
  assumes "send_inv F n" and "currentRole (state n) = LEADER" and "distinct (map fst (peers n))"
  shows "\<exists>m. service_put F k v n = (Val \<lparr>pr_success = True, pr_old_value = ''''\<rparr>, m) \<and>
    service_get F k m = (Val \<lparr>gr_value = v, gr_found = True\<rparr>, m) \<and>
    (\<forall>k'. k' \<noteq> k \<longrightarrow> service_get F k' m = (Val (answer (replay (node_log n) Map.empty k')), m))"
proof -
  obtain m where m: "service_put F k v n = (Val \<lparr>pr_success = True, pr_old_value = ''''\<rparr>, m)" "send_inv F m"
    "kv_store (storage m) = (replay (node_log n) Map.empty)(k \<mapsto> v)"
    using service_put_leader [OF assms] by blast
  then have "usable F m" by (simp add: send_inv_def node_inv_def)
  with m show ?thesis by (auto simp: service_get_ok answer_def)
qed

theorem put_then_get_witness:
  "\<exists>m. service_put no_faults ''x'' ''1'' sample_leader = (Val \<lparr>pr_success = True, pr_old_value = ''''\<rparr>, m) \<and>
     service_get no_faults ''x'' m = (Val \<lparr>gr_value = ''1'', gr_found = True\<rparr>, m)"
  using put_then_get [of no_faults sample_leader "''x''" "''1''"] by auto

text \<open>
  A server without peers works: its first election makes it the leader in one call, and from
  then on a put succeeds and the following gets read it, the other keys reading what the log holds.
\<close>

theorem single_node_serves:
  assumes "running_inv F (RaftNode rnd i [] d)"
  shows "\<exists>n m. leaderElectionTask F (RaftNode rnd i [] d) = (Val (), n) \<and> currentRole (state n) = LEADER \<and>
    currentTerm (state n) = 1 \<and>
    service_put F k v n = (Val \<lparr>pr_success = True, pr_old_value = ''''\<rparr>, m) \<and>
    (\<forall>k'. service_get F k' m = (Val (answer (((replay (log_entries d) Map.empty)(k \<mapsto> v)) k')), m))"
proof -
  let ?n = "RaftNode rnd i [] d"
  have u: "usable F ?n" using assms by (simp add: running_inv_def send_inv_def node_inv_def)
  have alone: "peers ?n = []" using RaftNode_peers(2) [of rnd i "[]" d] by simp
  obtain n where n: "startElection F ?n = (Val (), n)" "state n = role_becomeLeader (becomeCandidate newRaftState)" "storage n = d"
    "peers n = []" "running n" "nextIndex n = []"
    using startElection_alone [OF u alone] by auto
  have leader: "currentRole (state n) = LEADER" "currentTerm (state n) = 1" using n(2) by (simp_all add: jlong_def)
  have "send_inv F n" using assms n(3-6) by (simp add: running_inv_def send_inv_def node_inv_def)
  then obtain m where m: "service_put F k v n = (Val \<lparr>pr_success = True, pr_old_value = ''''\<rparr>, m)" "send_inv F m"
    "kv_store (storage m) = (replay (log_entries d) Map.empty)(k \<mapsto> v)"
    using service_put_leader [of F n k v] leader n(3,4) by auto
  have "usable F m" using m(2) by (simp add: send_inv_def node_inv_def)
  then have "\<forall>k'. service_get F k' m = (Val (answer (((replay (log_entries d) Map.empty)(k \<mapsto> v)) k')), m)"
    using service_get_ok [of F m] unfolding m(3) by blast
  moreover have "leaderElectionTask F ?n = (Val (), n)" using n(1) by (simp add: leaderElectionTask_def)
  ultimately show ?thesis using leader m(1) by blast
qed

theorem single_node_serves_witness:
  "\<exists>n m. leaderElectionTask no_faults (sample_node [] fresh_db) = (Val (), n) \<and>
     service_put no_faults ''k'' ''v'' n = (Val \<lparr>pr_success = True, pr_old_value = ''''\<rparr>, m) \<and>
     service_get no_faults ''k'' m = (Val \<lparr>gr_value = ''v'', gr_found = True\<rparr>, m)"
proof -
  have "running_inv no_faults (RaftNode (\<lambda>_. 7) ''a:1'' [] fresh_db)"
    using sample_invs(4) [of "[]"] by (simp add: sample_node_def)
  from single_node_serves [OF this, of "''k''" "''v''"] show ?thesis
    by (auto simp: sample_node_def answer_def dest!: spec [of _ "''k''"])
qed

section \<open>The server process\<close>



text \<open>
  C31. A restart recovers the log, the commit index, the applied index and the table, although every
  start adds another row to the state table; the new node is consistent again. The term and the vote
  are not recovered: the node starts at term 0 without a vote, whatever they were before.
\<close>

theorem restart_recovers:
  assumes "node_inv F n" and "connects url"
  shows "\<exists>d. SQLiteStorage F connects url ((storage n)\<lparr>conn_open := False\<rparr>) = (Val (), d) \<and>
    log_entries d = node_log n \<and> commit_of d = node_commit n \<and> applied_of d = node_applied n \<and>
    kv_store d = kv_store (storage n) \<and> length (state_rows d) = length (state_rows (storage n)) + 1 \<and>
    running_inv F (RaftNode rnd i ps d) \<and>
    currentTerm (state (RaftNode rnd i ps d)) = 0 \<and> votedFor (RaftNode rnd i ps d) = None"
proof -
  let ?d = "(storage n)\<lparr>conn_open := True, state_rows := state_rows (storage n) @
    [\<lparr>st_lastApplied = 0, st_commitIndex = 0, st_currentTerm = 0, st_votedFor = None\<rparr>]\<rparr>"
  have "accepts F" using assms(1) by (simp add: node_inv_def usable_log_def)
  then have "SQLiteStorage F connects url ((storage n)\<lparr>conn_open := False\<rparr>) = (Val (), ?d)"
    using SQLiteStorage_ok [of F connects url] assms(2) by simp
  then show ?thesis using restart_inv [OF assms(1) refl] by (intro exI [of _ ?d]) simp
qed

theorem restart_recovers_witness:
  "\<exists>d. SQLiteStorage no_faults (\<lambda>_. True) ''jdbc:sqlite:a.db'' (one_entry_db\<lparr>conn_open := False\<rparr>) = (Val (), d) \<and>
     log_entries d = [new_entry 2 ''k'' ''v''] \<and> currentTerm (state (RaftNode (\<lambda>_. 7) ''a:1'' [] d)) = 0"
  using restart_recovers [of no_faults sample_leader "\<lambda>_. True" "''jdbc:sqlite:a.db''" "\<lambda>_. 7" "''a:1''" "[]"] by auto

text \<open>
  C37. The shutdown hook closes the storage under the calls and tasks that still run; gRPC accepts no new calls then, but lets the accepted ones finish.
  Once the hook is done, at whatever point of the other threads, nothing is stored any more, however they go on. An accepted put that has not begun
  by then is never answered with success: on a leader it ends in an exception; and an accepted get that has not begun is answered with \<open>not found\<close>, whatever is stored.
\<close>

theorem stopped_server_stores_nothing:
  assumes "pool_step\<^sup>*\<^sup>* (t_stop # map (t_job F) js, n) (us, m)" and "us ! 0 = Halt r" and "pool_step\<^sup>*\<^sup>* (us, m) (vs, u)"
  shows "r = Val None \<and> storage u = storage m \<and>
    (\<forall>i<length js. \<forall>k x. js ! i = Serve (Get k) \<and> us ! Suc i = t_job F (Serve (Get k)) \<and> vs ! Suc i = Halt x \<longrightarrow>
       x = Val (Some (Get_Reply \<lparr>gr_value = '''', gr_found = False\<rparr>))) \<and>
    (\<forall>i<length js. \<forall>k v x. js ! i = Serve (Put k v) \<and> us ! Suc i = t_job F (Serve (Put k v)) \<and> vs ! Suc i = Halt x \<longrightarrow>
       x = Exc (RuntimeException ''Failed to append log entry'') \<or> x = Val (Some (Put_Reply \<lparr>pr_success = False, pr_old_value = ''''\<rparr>)))"
proof -
  have jobs: "\<forall>t\<in>set (map (t_job F) js). orderly t" using orderly_job by auto
  then have "\<forall>t\<in>set (t_stop # map (t_job F) js). orderly t" using orderly_stop by simp
  note us = closed_pool [OF assms(1) this, THEN conjunct1]
  have "us ! 0 \<noteq> t_stop" using assms(2) by (simp add: t_stop_def t_db_def atomic_def)
  then have closed: "r = Val None" "\<not> conn_open (storage m)" using stop_closes [OF assms(1) jobs] unfolding assms(2) by simp_all
  note answers = closed_pool_answers [OF assms(3) us closed(2)]
  have "x = Val (Some (Get_Reply \<lparr>gr_value = '''', gr_found = False\<rparr>))" if "us ! Suc i = t_job F (Serve (Get k))" "vs ! Suc i = Halt x" for i k x
    using answers [of _ "Suc i", unfolded that(1), OF when_closed_get] that(2) by simp
  moreover have "x = Exc (RuntimeException ''Failed to append log entry'') \<or> x = Val (Some (Put_Reply \<lparr>pr_success = False, pr_old_value = ''''\<rparr>))"
    if "us ! Suc i = t_job F (Serve (Put k v))" "vs ! Suc i = Halt x" for i k v x
    using answers [of _ "Suc i", unfolded that(1), OF when_closed_put] that(2) by simp
  ultimately show ?thesis using closed closed_pool [OF assms(3) us] by blast
qed

theorem stopped_server_stores_nothing_witness:
  "\<exists>us m vs u. pool_step\<^sup>*\<^sup>* (t_stop # map (t_job no_faults) [Serve (Get ''k'')], sample_leader\<lparr>storage := one_entry_db\<lparr>kv_store := [''k'' \<mapsto> ''v'']\<rparr>\<rparr>) (us, m) \<and>
     pool_step\<^sup>*\<^sup>* (us, m) (vs, u) \<and> storage u = storage m \<and> kv_store (storage m) ''k'' = Some ''v'' \<and>
     vs ! 1 = Halt (Val (Some (Get_Reply \<lparr>gr_value = '''', gr_found = False\<rparr>)))"
proof -
  let ?c = "(t_stop # map (t_job no_faults) [Serve (Get ''k'')], sample_leader\<lparr>storage := one_entry_db\<lparr>kv_store := [''k'' \<mapsto> ''v'']\<rparr>\<rparr>)"
  obtain us m vs u where m: "schedule [0] ?c = (us, m)" "schedule [1] (us, m) = (vs, u)" by fastforce
  have run: "pool_step\<^sup>*\<^sup>* ?c (us, m)" "pool_step\<^sup>*\<^sup>* (us, m) (vs, u)"
    using schedule_steps [of ?c "[0]"] schedule_steps [of "(us, m)" "[1]"] m by simp_all
  have us: "us ! 0 = Halt (Val None)" "us ! 1 = t_job no_faults (Serve (Get ''k''))" "kv_store (storage m) ''k'' = Some ''v''"
    using m(1) by (auto simp: act_def t_stop_def t_db_def atomic_def on_db_def close_storage_def one_entry_db_def)
  have "vs ! 1 = Halt x" if "x = Val (Some (Get_Reply \<lparr>gr_value = '''', gr_found = False\<rparr>))" for x
    using m that by (auto simp: act_def t_stop_def t_db_def atomic_def on_db_def close_storage_def t_job_def t_call_def get_kv_def stmt_def or_print_def try_catch_def)
  with stopped_server_stores_nothing [OF run(1) us(1) run(2)] us run show ?thesis by blast
qed

section \<open>A server with peers\<close>

text \<open>
  A server with a peer, which never leads, never stores anything: along all steps of its threads and clients
  its database stays what it was at the start, every put is answered with failure, and a get answers
  from the initial table.
\<close>

theorem server_with_peers_never_stores:
  assumes "ps \<noteq> []" and "usable_log F d" and "(local_step F)\<^sup>*\<^sup>* (RaftNode rnd i ps d) n"
  shows "storage n = d \<and> service_put F k v n = (Val \<lparr>pr_success = False, pr_old_value = ''''\<rparr>, n) \<and>
    service_get F k n = (Val (answer (kv_store d k)), n)"
proof -
  have "set (map fst (peers (RaftNode rnd i ps d))) \<noteq> {}" using assms(1) RaftNode_peers(2) by simp
  then have "frozen d (RaftNode rnd i ps d)" by (auto simp: frozen_def)
  with assms(2) frozen_node.inv_reachable [OF _ assms(3), of d] have "frozen d n" by simp
  then show ?thesis
    using service_put_follower [of n F k v] service_get_ok [of F n k] assms(2) by (auto simp: frozen_def)
qed

theorem server_with_peers_never_stores_witness:
  "service_put no_faults ''k'' ''v'' (sample_node [''b''] fresh_db) =
     (Val \<lparr>pr_success = False, pr_old_value = ''''\<rparr>, sample_node [''b''] fresh_db)"
  using server_with_peers_never_stores [of "[''b'']" no_faults fresh_db "\<lambda>_. 7" "''a:1''" "sample_node [''b''] fresh_db" "''k''" "''v''"]
  by (simp add: sample_node_def)

end
